(* ===== verification/Prelude.thy ===== *)
theory Prelude
  imports Main "HOL-Library.Word"
begin

text \<open>
  Shared ground of the development: the machine types of the C and C++ sources, the outcome of a
  function body (normal completion, early return, failed assertion, undefined behaviour), the
  sequencing combinators over an explicit state, the weakest-precondition rules for them, and
  little-endian byte encodings with their round trips.
\<close>

unbundle bit_operations_syntax

named_theorems wp_rules
named_theorems body_defs

section \<open>Machine types\<close>

type_synonym u8 = "8 word"
type_synonym u16 = "16 word"
type_synonym u32 = "32 word"
type_synonym u64 = "64 word"

text \<open>Byte-addressed memory shared by the CPU and the device.\<close>

type_synonym memory = "u64 \<Rightarrow> u8"

lemma unat_u64_less: "unat (w :: u64) < 2 ^ 64"
  using unsigned_less [of w] by simp

lemma unat_u64_add: "unat (a :: u64) + unat b < 2 ^ 64 \<Longrightarrow> unat (a + b) = unat a + unat b"
  by (subst unat_word_ariths) simp

lemma unat_u64_of_nat: "n < 2 ^ 64 \<Longrightarrow> unat (of_nat n :: u64) = n"
  by (simp add: unat_of_nat take_bit_nat_eq_self)

lemma unat_two_power_u64: "k < 64 \<Longrightarrow> unat (2 ^ k :: u64) = 2 ^ k"
  using unat_u64_of_nat [of "2 ^ k"] power_strict_increasing [of k 64 "2 :: nat"] by simp

section \<open>Outcomes of a function body\<close>

text \<open>
  \<open>Done\<close>: the statement completed and control goes on. \<open>Exit\<close>: a \<^verbatim>\<open>return\<close> statement left the
  enclosing function. \<open>Abort\<close>: a failed \<^verbatim>\<open>assert\<close> or a call of \<^verbatim>\<open>std::terminate\<close>. \<open>Undef\<close>: the
  C++ standard gives the execution no meaning.
\<close>

datatype ('r, 'a) outcome = Done 'a | Exit 'r | Abort | Undef

type_synonym ('s, 'r, 'a) body = "'s \<Rightarrow> ('r, 'a) outcome \<times> 's"

definition ret :: "'a \<Rightarrow> ('s, 'r, 'a) body" where
  "ret a = (\<lambda>s. (Done a, s))"

definition exit_with :: "'r \<Rightarrow> ('s, 'r, 'a) body" where
  "exit_with r = (\<lambda>s. (Exit r, s))"

definition bnd :: "('s, 'r, 'a) body \<Rightarrow> ('a \<Rightarrow> ('s, 'r, 'b) body) \<Rightarrow> ('s, 'r, 'b) body" where
  "bnd m f = (\<lambda>s. case m s of (x, s') \<Rightarrow>
     (case x of Done a \<Rightarrow> f a s' | Exit r \<Rightarrow> (Exit r, s') | Abort \<Rightarrow> (Abort, s') | Undef \<Rightarrow> (Undef, s')))"

definition assertM :: "('s \<Rightarrow> bool) \<Rightarrow> ('s, 'r, unit) body" where
  "assertM p = (\<lambda>s. if p s then (Done (), s) else (Abort, s))"

definition guardM :: "('s \<Rightarrow> bool) \<Rightarrow> ('s, 'r, unit) body" where
  "guardM p = (\<lambda>s. if p s then (Done (), s) else (Undef, s))"

definition gets :: "('s \<Rightarrow> 'a) \<Rightarrow> ('s, 'r, 'a) body" where
  "gets f = (\<lambda>s. (Done (f s), s))"

definition modifyM :: "('s \<Rightarrow> 's) \<Rightarrow> ('s, 'r, unit) body" where
  "modifyM f = (\<lambda>s. (Done (), f s))"

definition whenM :: "bool \<Rightarrow> ('s, 'r, unit) body \<Rightarrow> ('s, 'r, unit) body" where
  "whenM b m = (if b then m else ret ())"

text \<open>A function call: a return statement of the callee ends the callee only.\<close>

definition call :: "('s, 'a, 'a) body \<Rightarrow> ('s, 'r, 'a) body" where
  "call m = (\<lambda>s. case m s of (x, s') \<Rightarrow>
     (case x of Done a \<Rightarrow> (Done a, s') | Exit a \<Rightarrow> (Done a, s') | Abort \<Rightarrow> (Abort, s') | Undef \<Rightarrow> (Undef, s')))"

section \<open>Weakest preconditions\<close>

definition wp :: "('s, 'r, 'a) body \<Rightarrow> (('r, 'a) outcome \<Rightarrow> 's \<Rightarrow> bool) \<Rightarrow> 's \<Rightarrow> bool" where
  "wp m Q s = (case m s of (x, s') \<Rightarrow> Q x s')"

lemma wp_ret [wp_rules]: "wp (ret a) Q s = Q (Done a) s"
  by (simp add: wp_def ret_def)

lemma wp_exit_with [wp_rules]: "wp (exit_with r) Q s = Q (Exit r) s"
  by (simp add: wp_def exit_with_def)

lemma wp_bnd [wp_rules]:
  "wp (bnd m f) Q s = wp m (\<lambda>x s'. case x of Done a \<Rightarrow> wp (f a) Q s' | Exit r \<Rightarrow> Q (Exit r) s'
     | Abort \<Rightarrow> Q Abort s' | Undef \<Rightarrow> Q Undef s') s"
  by (simp add: wp_def bnd_def split: prod.splits outcome.splits)

lemma wp_assertM [wp_rules]: "wp (assertM p) Q s = (if p s then Q (Done ()) s else Q Abort s)"
  by (simp add: wp_def assertM_def)

lemma wp_guardM [wp_rules]: "wp (guardM p) Q s = (if p s then Q (Done ()) s else Q Undef s)"
  by (simp add: wp_def guardM_def)

lemma wp_gets [wp_rules]: "wp (gets f) Q s = Q (Done (f s)) s"
  by (simp add: wp_def gets_def)

lemma wp_modifyM [wp_rules]: "wp (modifyM f) Q s = Q (Done ()) (f s)"
  by (simp add: wp_def modifyM_def)

lemma wp_whenM [wp_rules]: "wp (whenM b m) Q s = (if b then wp m Q s else Q (Done ()) s)"
  by (simp add: wp_def whenM_def ret_def)

lemma wp_call [wp_rules]:
  "wp (call m) Q s = wp m (\<lambda>x s'. case x of Done a \<Rightarrow> Q (Done a) s' | Exit a \<Rightarrow> Q (Done a) s'
     | Abort \<Rightarrow> Q Abort s' | Undef \<Rightarrow> Q Undef s') s"
  by (simp add: wp_def call_def split: prod.splits outcome.splits)

lemma wp_if [wp_rules]: "wp (if b then m else m') Q s = (if b then wp m Q s else wp m' Q s)"
  by simp

lemma wp_let [wp_rules]: "wp (Let v f) Q s = wp (f v) Q s"
  by simp

lemma wp_weaken:
  assumes "wp m Q s" and "\<And>x s'. Q x s' \<Longrightarrow> Q' x s'"
  shows "wp m Q' s"
  using assms by (auto simp: wp_def split: prod.splits)

lemma wp_run: "wp m (\<lambda>x s'. m s = (x, s')) s"
  by (simp add: wp_def split: prod.splits)

lemma wp_iff: "wp m Q s \<longleftrightarrow> Q (fst (m s)) (snd (m s))"
  by (simp add: wp_def split: prod.splits)

lemma wpD: "wp m Q s \<Longrightarrow> m s = (x, s') \<Longrightarrow> Q x s'"
  by (simp add: wp_def)

text \<open>Executing a body on a concrete state.\<close>

lemmas run_defs = ret_def exit_with_def bnd_def assertM_def guardM_def gets_def modifyM_def
  whenM_def call_def

text \<open>Executing a body whose steps are known to complete.\<close>

lemma bnd_run: "m s = (Done a, s') \<Longrightarrow> bnd m f s = f a s'"
  by (simp add: bnd_def)

lemma bnd_steps:
  "bnd (ret a) f s = f a s" "bnd (gets g) f s = f (g s) s" "bnd (modifyM h) f s = f () (h s)"
  "P s \<Longrightarrow> bnd (assertM P) f s = f () s" "P s \<Longrightarrow> bnd (guardM P) f s = f () s"
  "bnd (whenM False m) f s = f () s" "bnd (whenM True m') f s = bnd m' f s"
  by (simp_all add: run_defs)

lemma bnd_exit: "m s = (Exit r, s') \<Longrightarrow> bnd m f s = (Exit r, s')"
  by (simp add: bnd_def)

lemma last_steps:
  "ret a s = (Done a, s)" "exit_with r s = (Exit r, s)" "gets g s = (Done (g s), s)" "modifyM h s = (Done (), h s)"
  "P s \<Longrightarrow> assertM P s = (Done (), s)" "P s \<Longrightarrow> guardM P s = (Done (), s)"
  by (simp_all add: run_defs)

lemmas run_steps = bnd_run bnd_steps last_steps

section \<open>Little-endian bytes\<close>

fun le_enc :: "nat \<Rightarrow> 'a::len word \<Rightarrow> u8 list" where
  "le_enc 0 w = []"
| "le_enc (Suc n) w = ucast w # le_enc n (drop_bit 8 w)"

fun le_dec :: "u8 list \<Rightarrow> 'a::len word" where
  "le_dec [] = 0"
| "le_dec (b # bs) = ucast b OR push_bit 8 (le_dec bs)"

lemma length_le_enc [simp]: "length (le_enc n w) = n"
  by (induction n arbitrary: w) auto

lemma le_dec_enc_take_bit: "le_dec (le_enc n w) = take_bit (8 * n) (w :: 'a::len word)"
proof (induction n arbitrary: w)
  case 0
  show ?case by simp
next
  case (Suc n)
  show ?case
    by (rule bit_word_eqI)
      (auto simp: Suc bit_simps not_le dest: bit_imp_le_length)
qed

lemma le_dec_enc [simp]:
  assumes "LENGTH('a) \<le> 8 * n"
  shows "le_dec (le_enc n w) = (w :: 'a::len word)"
  using assms by (simp add: le_dec_enc_take_bit take_bit_word_eq_self)

lemma bit_le_dec: "bit (le_dec bs :: 'a::len word) n \<longleftrightarrow> n < LENGTH('a) \<and> n div 8 < length bs \<and> bit (bs ! (n div 8)) (n mod 8)"
proof (induction bs arbitrary: n)
  case (Cons b bs)
  show ?case
  proof (cases "n < 8")
    case True
    then show ?thesis by (auto simp: bit_simps)
  next
    case False
    then have "n div 8 = Suc ((n - 8) div 8)" "(n - 8) mod 8 = n mod 8" by (simp_all add: le_div_geq le_mod_geq)
    moreover have "\<not> bit b n" using False by (auto dest: bit_imp_le_length)
    ultimately show ?thesis using False Cons [of "n - 8"] by (auto simp: bit_simps)
  qed
qed simp

lemma bit_le_enc: "i < k \<Longrightarrow> bit (le_enc k (w :: 'a::len word) ! i) j \<longleftrightarrow> j < 8 \<and> bit w (8 * i + j)"
proof (induction k arbitrary: w i)
  case (Suc k)
  then show ?case by (cases i) (auto simp: bit_simps algebra_simps)
qed simp

section \<open>Memory accesses\<close>

definition read_bytes :: "memory \<Rightarrow> u64 \<Rightarrow> nat \<Rightarrow> u8 list" where
  "read_bytes m a n = map (\<lambda>i. m (a + of_nat i)) [0..<n]"

definition store_bytes :: "memory \<Rightarrow> u64 \<Rightarrow> u8 list \<Rightarrow> memory" where
  "store_bytes m a bs = (\<lambda>x. if unat (x - a) < length bs then bs ! unat (x - a) else m x)"

lemma length_read_bytes [simp]: "length (read_bytes m a n) = n"
  by (simp add: read_bytes_def)

lemma read_store_same:
  assumes "length bs \<le> 2 ^ 64"
  shows "read_bytes (store_bytes m a bs) a (length bs) = bs"
  using assms
  by (auto simp: read_bytes_def store_bytes_def unat_of_nat take_bit_nat_eq_self
      intro!: nth_equalityI)

text \<open>A store leaves a region alone that starts at or after its end and does not wrap into it.\<close>

lemma read_store_disjoint:
  assumes "length bs \<le> unat (b - a)" and "unat (b - a) + n \<le> 2 ^ 64"
  shows "read_bytes (store_bytes m a bs) b n = read_bytes m b n"
proof -
  have "\<not> unat (b + of_nat i - a) < length bs" if "i < n" for i
  proof -
    have "unat (b - a) + i < 2 ^ 64" using assms(2) that by linarith
    then have "unat ((b - a) + of_nat i) = unat (b - a) + i"
      by (subst unat_word_ariths) (simp add: unat_of_nat)
    moreover have "b + of_nat i - a = (b - a) + of_nat i" by simp
    ultimately show ?thesis using assms(1) by (metis add.commute leD le_add2 le_trans)
  qed
  then show ?thesis by (auto simp: read_bytes_def store_bytes_def)
qed

lemma store_bytes_outside:
  "length bs \<le> unat (x - a) \<Longrightarrow> store_bytes m a bs x = m x"
  by (simp add: store_bytes_def)

end
