(* ===== verification/Connections.thy ===== *)
theory Connections
  imports Rpc_Defs
begin

text \<open>
  The connection manager (\<^verbatim>\<open>connection_manager.h\<close>, \<^verbatim>\<open>connection_manager.cc\<close>): a pool of free
  connection ids and the table of open connections. Its contract is the locale \<open>conn_table\<close>, in
  which the laws that clients use are derived; the manager implements the abstract table of the
  last section operation by operation.
\<close>

section \<open>Ordered map\<close>

text \<open>\<^verbatim>\<open>std::map\<close> as the list of its entries in key order.\<close>

definition std_map_insert :: "'k::linorder \<Rightarrow> 'v \<Rightarrow> ('k \<times> 'v) list \<Rightarrow> ('k \<times> 'v) list" where
  "std_map_insert k v xs = (if k \<in> fst ` set xs then xs else insort_key fst (k, v) xs)"

definition std_map_erase :: "'k \<Rightarrow> ('k \<times> 'v) list \<Rightarrow> ('k \<times> 'v) list" where
  "std_map_erase k xs = filter (\<lambda>e. fst e \<noteq> k) xs"

definition std_map_wf :: "('k::linorder \<times> 'v) list \<Rightarrow> bool" where
  "std_map_wf xs \<longleftrightarrow> distinct (map fst xs) \<and> sorted (map fst xs)"

lemma std_map_wf_insert [simp]: "std_map_wf xs \<Longrightarrow> std_map_wf (std_map_insert k v xs)"
  by (auto simp: std_map_wf_def std_map_insert_def sorted_insort_key distinct_map inj_on_def
      set_insort_key distinct_insort image_iff)

lemma std_map_wf_erase [simp]: "std_map_wf xs \<Longrightarrow> std_map_wf (std_map_erase k xs)"
  by (auto simp: std_map_wf_def std_map_erase_def sorted_filter distinct_map inj_on_def)

lemma set_std_map_insert:
  "set (std_map_insert k v xs) = (if k \<in> fst ` set xs then set xs else insert (k, v) (set xs))"
  by (simp add: std_map_insert_def set_insort_key)

lemma length_std_map_insert:
  "k \<notin> fst ` set xs \<Longrightarrow> length (std_map_insert k v xs) = Suc (length xs)"
  by (simp add: std_map_insert_def)

lemma length_std_map_erase:
  "std_map_wf xs \<Longrightarrow> k \<in> fst ` set xs \<Longrightarrow> Suc (length (std_map_erase k xs)) = length xs"
proof (induction xs)
  case (Cons e xs)
  show ?case
  proof (cases "fst e = k")
    case True
    then have "filter (\<lambda>e. fst e \<noteq> k) xs = xs"
      using Cons.prems(1) by (intro filter_True) (auto simp: std_map_wf_def image_iff)
    then show ?thesis using True by (simp add: std_map_erase_def)
  next
    case False
    then show ?thesis using Cons by (auto simp: std_map_wf_def std_map_erase_def)
  qed
qed simp

lemma map_of_iff:
  "std_map_wf xs \<Longrightarrow> map_of xs k = Some v \<longleftrightarrow> (k, v) \<in> set xs"
  by (simp add: std_map_wf_def)

lemma map_of_insert:
  assumes "std_map_wf xs" and "k \<notin> fst ` set xs"
  shows "map_of (std_map_insert k v xs) = (map_of xs)(k \<mapsto> v)"
proof
  fix x
  have "map_of (std_map_insert k v xs) x = Some w \<longleftrightarrow> ((map_of xs)(k \<mapsto> v)) x = Some w" for w
    using assms by (auto simp: map_of_iff set_std_map_insert map_of_eq_None_iff image_iff)
  then show "map_of (std_map_insert k v xs) x = ((map_of xs)(k \<mapsto> v)) x"
    by (metis option.exhaust)
qed

lemma map_of_erase: "map_of (std_map_erase k xs) = (map_of xs)(k := None)"
  by (induction xs) (auto simp: std_map_erase_def)

section \<open>Connection manager\<close>

type_synonym ConnectionId = u32
type_synonym ConnectionFlowId = u16

record ConnectionManager =
  max_connections :: u64
  c_id_pool :: "ConnectionId list"
  open_connections :: "(ConnectionId \<times> (IPv4 \<times> ConnectionFlowId)) list"

definition ConnectionManager_default :: ConnectionManager where
  "ConnectionManager_default = \<lparr>max_connections = 0, c_id_pool = [], open_connections = []\<rparr>"

text \<open>The loop counter is a \<^verbatim>\<open>size_t\<close>; each value is truncated to the 32 bits of an id.\<close>

definition mk_ConnectionManager :: "u64 \<Rightarrow> ConnectionManager" where
  "mk_ConnectionManager n = \<lparr>max_connections = n, c_id_pool = map of_nat [0..<unat n],
     open_connections = []\<rparr>"

text \<open>The id is returned through a reference, which keeps its value \<open>cid\<close> when the call fails.\<close>

definition cm_open_connection ::
  "ConnectionId \<Rightarrow> IPv4 \<Rightarrow> ConnectionFlowId \<Rightarrow> ConnectionManager
    \<Rightarrow> ('r, int \<times> ConnectionId) outcome \<times> ConnectionManager" where
  "cm_open_connection cid dest_addr flow_id cm =
     (if length (open_connections cm) = unat (max_connections cm) then (Done (1, cid), cm)
      else case c_id_pool cm of
        [] \<Rightarrow> (Abort, cm)
      | c # pool \<Rightarrow>
          let cm1 = cm\<lparr>c_id_pool := pool\<rparr> in
          if c \<in> fst ` set (open_connections cm1) then (Abort, cm1)
          else (Done (0, c),
            cm1\<lparr>open_connections := std_map_insert c (dest_addr, flow_id) (open_connections cm1)\<rparr>))"

definition cm_add_connection ::
  "ConnectionId \<Rightarrow> IPv4 \<Rightarrow> ConnectionFlowId \<Rightarrow> ConnectionManager
    \<Rightarrow> ('r, int) outcome \<times> ConnectionManager" where
  "cm_add_connection cid dest_addr flow_id cm =
     (if length (open_connections cm) = unat (max_connections cm) then (Done 1, cm)
      else if c_id_pool cm = [] then (Abort, cm)
      else if cid \<notin> set (c_id_pool cm) then (Done 1, cm)
      else
        let cm1 = cm\<lparr>c_id_pool := remove1 cid (c_id_pool cm)\<rparr> in
        if cid \<in> fst ` set (open_connections cm1) then (Abort, cm1)
        else (Done 0,
          cm1\<lparr>open_connections := std_map_insert cid (dest_addr, flow_id) (open_connections cm1)\<rparr>))"

definition cm_close_connection :: "ConnectionId \<Rightarrow> ConnectionManager \<Rightarrow> int \<times> ConnectionManager" where
  "cm_close_connection cid cm =
     (if cid \<notin> fst ` set (open_connections cm) then (1, cm)
      else (0, cm\<lparr>open_connections := std_map_erase cid (open_connections cm),
                  c_id_pool := c_id_pool cm @ [cid]\<rparr>))"

text \<open>The lines that \<^verbatim>\<open>dump_open_connections\<close> prints, one entry each, in key order.\<close>

definition dump_open_connections :: "ConnectionManager \<Rightarrow> (u32 \<times> u32 \<times> u16 \<times> u16) list" where
  "dump_open_connections cm =
     map (\<lambda>(c, ip, flow). (c, get_addr ip, get_port ip, flow)) (open_connections cm)"

section \<open>Invariant\<close>

text \<open>Every id below the maximum is either free or open, and only in one place.\<close>

definition cm_wf :: "ConnectionManager \<Rightarrow> bool" where
  "cm_wf cm \<longleftrightarrow> std_map_wf (open_connections cm) \<and>
     distinct (c_id_pool cm @ map fst (open_connections cm)) \<and>
     set (c_id_pool cm) \<union> fst ` set (open_connections cm) = of_nat ` {..<unat (max_connections cm)} \<and>
     unat (max_connections cm) \<le> 2 ^ 32"

lemma inj_on_u32_of_nat: "n \<le> 2 ^ 32 \<Longrightarrow> inj_on (of_nat :: nat \<Rightarrow> u32) {..<n}"
  by (auto simp: inj_on_def word_of_nat_eq_iff take_bit_nat_eq_self)

lemma cm_wf_mk: "unat n \<le> 2 ^ 32 \<Longrightarrow> cm_wf (mk_ConnectionManager n)"
  using inj_on_u32_of_nat [of "unat n"]
  by (auto simp: cm_wf_def mk_ConnectionManager_def std_map_wf_def distinct_map atLeast_upt lessThan_atLeast0)

lemma cm_wf_count:
  assumes "cm_wf cm"
  shows "length (c_id_pool cm) + length (open_connections cm) = unat (max_connections cm)"
proof -
  let ?ids = "c_id_pool cm @ map fst (open_connections cm)"
  have "length ?ids = card (set ?ids)" using assms by (simp only: cm_wf_def distinct_card)
  also have "set ?ids = of_nat ` {..<unat (max_connections cm)}" using assms by (simp add: cm_wf_def)
  also have "card \<dots> = unat (max_connections cm)"
    using assms inj_on_u32_of_nat by (simp add: cm_wf_def card_image)
  finally show ?thesis by simp
qed

section \<open>Contract\<close>

text \<open>
  The ids that successive openings return, and what a client may rely on. \<open>conn\<close> is the table, \<open>free\<close> the queue of free ids. Results are the
  return codes of the calls: 0 for success, 1 for a refused call that changes nothing.
\<close>

fun open_ids :: "(ConnectionId \<Rightarrow> 'v \<Rightarrow> 't \<Rightarrow> (unit, int \<times> ConnectionId) outcome \<times> 't)
    \<Rightarrow> 'v list \<Rightarrow> 't \<Rightarrow> ConnectionId list \<times> 't" where
  "open_ids opn [] t = ([], t)"
| "open_ids opn (v # vs) t = (case opn 0 v t of
     (Done (r, c), t') \<Rightarrow> (if r = 0 then (case open_ids opn vs t' of (cs, t'') \<Rightarrow> (c # cs, t'')) else ([], t'))
   | (_, t') \<Rightarrow> ([], t'))"

locale conn_table =
  fixes inv :: "'t \<Rightarrow> bool"
    and conn :: "'t \<Rightarrow> ConnectionId \<Rightarrow> 'v option"
    and free :: "'t \<Rightarrow> ConnectionId list"
    and opn :: "ConnectionId \<Rightarrow> 'v \<Rightarrow> 't \<Rightarrow> (unit, int \<times> ConnectionId) outcome \<times> 't"
    and add :: "ConnectionId \<Rightarrow> 'v \<Rightarrow> 't \<Rightarrow> (unit, int) outcome \<times> 't"
    and cls :: "ConnectionId \<Rightarrow> 't \<Rightarrow> int \<times> 't"
  assumes free_distinct: "inv t \<Longrightarrow> distinct (free t)"
    and free_closed: "inv t \<Longrightarrow> c \<in> set (free t) \<Longrightarrow> conn t c = None"
    and opn_full: "inv t \<Longrightarrow> free t = [] \<Longrightarrow> opn j v t = (Done (1, j), t)"
    and opn_free: "inv t \<Longrightarrow> free t = c # cs \<Longrightarrow> \<exists>t'. opn j v t = (Done (0, c), t') \<and> inv t'
      \<and> free t' = cs \<and> conn t' = (conn t)(c \<mapsto> v)"
    and add_refused: "inv t \<Longrightarrow> c \<notin> set (free t) \<Longrightarrow> add c v t = (Done 1, t)"
    and add_free: "inv t \<Longrightarrow> c \<in> set (free t) \<Longrightarrow> \<exists>t'. add c v t = (Done 0, t') \<and> inv t'
      \<and> free t' = remove1 c (free t) \<and> conn t' = (conn t)(c \<mapsto> v)"
    and cls_refused: "inv t \<Longrightarrow> conn t c = None \<Longrightarrow> cls c t = (1, t)"
    and cls_open: "inv t \<Longrightarrow> conn t c \<noteq> None \<Longrightarrow> \<exists>t'. cls c t = (0, t') \<and> inv t'
      \<and> free t' = free t @ [c] \<and> conn t' = (conn t)(c := None)"
begin

lemma open_ids_take: "inv t \<Longrightarrow> length vs \<le> length (free t) \<Longrightarrow>
  fst (open_ids opn vs t) = take (length vs) (free t) \<and> inv (snd (open_ids opn vs t))
  \<and> free (snd (open_ids opn vs t)) = drop (length vs) (free t)"
proof (induction vs arbitrary: t)
  case (Cons v vs)
  then obtain c cs where c: "free t = c # cs" by (cases "free t") auto
  then obtain t' where "opn 0 v t = (Done (0, c), t')" "inv t'" "free t' = cs"
    using opn_free [OF Cons.prems(1) c] by blast
  then show ?case using Cons.IH [of t'] Cons.prems(2) c by (simp add: case_prod_beta)
qed simp

lemma closed_id_is_reused_last:
  assumes "inv t" and "conn t c \<noteq> None" and "length vs = length (free t)"
  shows "\<exists>t'. cls c t = (0, t') \<and> fst (open_ids opn (vs @ [v]) t') = free t @ [c]"
proof -
  obtain t' where t': "cls c t = (0, t')" "inv t'" "free t' = free t @ [c]"
    using cls_open [OF assms(1,2)] by blast
  then show ?thesis using open_ids_take [of t' "vs @ [v]"] assms(3) by simp
qed

lemma open_then_close:
  assumes "inv t" and "opn j v t = (Done (0, c), t')" and "free t \<noteq> []"
  shows "conn t c = None \<and> conn t' c = Some v \<and> (\<exists>t''. cls c t' = (0, t'') \<and> inv t'' \<and> conn t'' = conn t)"
proof -
  obtain d ds where d: "free t = d # ds" using assms(3) by (cases "free t") auto
  then have c: "c = d" "inv t'" "conn t' = (conn t)(c \<mapsto> v)"
    using opn_free [OF assms(1) d, of j v] assms(2) by auto
  moreover have "conn t c = None" using free_closed [OF assms(1)] d c(1) by simp
  moreover obtain t'' where "cls c t' = (0, t'')" "inv t''" "conn t'' = (conn t')(c := None)"
    using cls_open [OF c(2), of c] c(3) by auto
  ultimately show ?thesis by (auto simp: fun_upd_idem)
qed

end

section \<open>The manager fulfils the contract\<close>

definition cm_conn :: "ConnectionManager \<Rightarrow> ConnectionId \<Rightarrow> (IPv4 \<times> ConnectionFlowId) option" where
  "cm_conn cm = map_of (open_connections cm)"

lemma cm_conn_None: "cm_conn cm c = None \<longleftrightarrow> c \<notin> fst ` set (open_connections cm)"
  by (simp add: cm_conn_def map_of_eq_None_iff)

lemma cm_open_full:
  "cm_wf cm \<Longrightarrow> c_id_pool cm = [] \<Longrightarrow> cm_open_connection j ip flow cm = (Done (1, j), cm)"
  using cm_wf_count [of cm] by (simp add: cm_open_connection_def)

lemma cm_insert_wf:
  assumes "cm_wf cm" and "c \<in> set (c_id_pool cm)"
  shows "cm_wf (cm\<lparr>c_id_pool := remove1 c (c_id_pool cm),
      open_connections := std_map_insert c v (open_connections cm)\<rparr>)"
    and "c \<notin> fst ` set (open_connections cm)"
    and "length (open_connections cm) \<noteq> unat (max_connections cm)"
proof -
  show c: "c \<notin> fst ` set (open_connections cm)" using assms by (auto simp: cm_wf_def)
  have "std_map_wf (std_map_insert c v (open_connections cm))"
    using assms(1) by (simp add: cm_wf_def)
  moreover have "set (remove1 c (c_id_pool cm)) = set (c_id_pool cm) - {c}"
    using assms(1) by (simp add: cm_wf_def)
  ultimately show "cm_wf (cm\<lparr>c_id_pool := remove1 c (c_id_pool cm),
      open_connections := std_map_insert c v (open_connections cm)\<rparr>)"
    using assms c by (auto simp: cm_wf_def set_std_map_insert std_map_wf_def)
  show "length (open_connections cm) \<noteq> unat (max_connections cm)"
    using cm_wf_count [OF assms(1)] assms(2) by (cases "c_id_pool cm") auto
qed

lemma cm_open_free:
  assumes "cm_wf cm" and "c_id_pool cm = c # cs"
  shows "cm_open_connection j ip flow cm = (Done (0, c), cm\<lparr>c_id_pool := cs,
     open_connections := std_map_insert c (ip, flow) (open_connections cm)\<rparr>)"
  using cm_insert_wf(2,3) [OF assms(1), of c] assms(2) by (simp add: cm_open_connection_def Let_def)

lemma cm_add_free:
  assumes "cm_wf cm" and "c \<in> set (c_id_pool cm)"
  shows "cm_add_connection c ip flow cm = (Done 0, cm\<lparr>c_id_pool := remove1 c (c_id_pool cm),
     open_connections := std_map_insert c (ip, flow) (open_connections cm)\<rparr>)"
  using cm_insert_wf(2,3) [OF assms] assms(2) by (auto simp: cm_add_connection_def Let_def)

lemma cm_add_refused:
  assumes "cm_wf cm" and "c \<notin> set (c_id_pool cm)"
  shows "cm_add_connection c ip flow cm = (Done 1, cm)"
  using cm_wf_count [OF assms(1)] assms(2) by (auto simp: cm_add_connection_def)

lemma cm_close_wf:
  assumes "cm_wf cm" and "c \<in> fst ` set (open_connections cm)"
  shows "cm_wf (cm\<lparr>open_connections := std_map_erase c (open_connections cm),
      c_id_pool := c_id_pool cm @ [c]\<rparr>)"
proof -
  have "std_map_wf (std_map_erase c (open_connections cm))" using assms(1) by (simp add: cm_wf_def)
  moreover have "fst ` set (std_map_erase c (open_connections cm)) = fst ` set (open_connections cm) - {c}"
    by (auto simp: std_map_erase_def)
  ultimately show ?thesis using assms by (auto simp: cm_wf_def std_map_wf_def)
qed

interpretation cmt: conn_table cm_wf cm_conn c_id_pool "\<lambda>j (ip, flow). cm_open_connection j ip flow"
  "\<lambda>c (ip, flow). cm_add_connection c ip flow" cm_close_connection
proof (unfold_locales, goal_cases)
  case (1 t)
  then show ?case by (simp add: cm_wf_def)
next
  case (2 t c)
  then show ?case using cm_insert_wf(2) by (simp add: cm_conn_None)
next
  case (3 t j v)
  then show ?case by (cases v) (simp add: cm_open_full)
next
  case (4 t c cs j v)
  then show ?case using cm_insert_wf(1) [of t c v] cm_insert_wf(2) [of t c]
    by (cases v) (simp add: cm_open_free cm_conn_def map_of_insert cm_wf_def [of t])
next
  case (5 t c v)
  then show ?case by (cases v) (simp add: cm_add_refused)
next
  case (6 t c v)
  then show ?case using cm_insert_wf(1,2) [of t c]
    by (cases v) (simp add: cm_add_free cm_conn_def map_of_insert cm_wf_def [of t])
next
  case (7 t c)
  then show ?case by (simp add: cm_conn_None cm_close_connection_def)
next
  case (8 t c)
  then show ?case using cm_close_wf [of t c] cm_conn_None [of t c]
    by (auto simp: cm_close_connection_def cm_conn_def map_of_erase)
qed

section \<open>Properties\<close>

text \<open>A call on the manager and the sequence of calls a program makes.\<close>

datatype cm_op =
  CmOpen IPv4 ConnectionFlowId
| CmAdd ConnectionId IPv4 ConnectionFlowId
| CmClose ConnectionId

fun cm_call :: "cm_op \<Rightarrow> ConnectionManager \<Rightarrow> (unit, int) outcome \<times> ConnectionManager" where
  "cm_call (CmOpen ip flow) cm = (case cm_open_connection 0 ip flow cm of
     (Done (r, _), cm') \<Rightarrow> (Done r, cm')
   | (Exit u, cm') \<Rightarrow> (Exit u, cm')
   | (Abort, cm') \<Rightarrow> (Abort, cm')
   | (Undef, cm') \<Rightarrow> (Undef, cm'))"
| "cm_call (CmAdd cid ip flow) cm = cm_add_connection cid ip flow cm"
| "cm_call (CmClose cid) cm = (case cm_close_connection cid cm of (r, cm') \<Rightarrow> (Done r, cm'))"

text \<open>The abstract table: a queue of free ids and a partial map.\<close>

type_synonym conn_spec = "ConnectionId list \<times> (ConnectionId \<rightharpoonup> IPv4 \<times> ConnectionFlowId)"

fun spec_call :: "cm_op \<Rightarrow> conn_spec \<Rightarrow> int \<times> conn_spec" where
  "spec_call (CmOpen ip flow) (fs, t) =
     (case fs of [] \<Rightarrow> (1, fs, t) | c # cs \<Rightarrow> (0, cs, t(c \<mapsto> (ip, flow))))"
| "spec_call (CmAdd c ip flow) (fs, t) =
     (if c \<in> set fs then (0, remove1 c fs, t(c \<mapsto> (ip, flow))) else (1, fs, t))"
| "spec_call (CmClose c) (fs, t) =
     (if t c = None then (1, fs, t) else (0, fs @ [c], t(c := None)))"

definition cm_abs :: "ConnectionManager \<Rightarrow> conn_spec" where
  "cm_abs cm = (c_id_pool cm, cm_conn cm)"

lemma cm_call_step:
  assumes "cm_wf cm"
  shows "\<exists>r cm'. cm_call op cm = (Done r, cm') \<and> cm_wf cm' \<and> spec_call op (cm_abs cm) = (r, cm_abs cm')"
proof (cases op)
  case (CmOpen ip flow)
  show ?thesis
  proof (cases "c_id_pool cm")
    case Nil
    then show ?thesis
      using CmOpen cmt.opn_full [OF assms Nil, of 0 "(ip, flow)"] assms by (auto simp: cm_abs_def)
  next
    case (Cons c cs)
    then show ?thesis
      using CmOpen cmt.opn_free [OF assms Cons, of 0 "(ip, flow)"] by (auto simp: cm_abs_def)
  qed
next
  case (CmAdd c ip flow)
  then show ?thesis
    using cmt.add_refused [OF assms, of c "(ip, flow)"] cmt.add_free [OF assms, of c "(ip, flow)"] assms
    by (cases "c \<in> set (c_id_pool cm)") (auto simp: cm_abs_def)
next
  case (CmClose c)
  then show ?thesis
    using cmt.cls_refused [OF assms, of c] cmt.cls_open [OF assms, of c] assms
    by (cases "cm_conn cm c = None") (auto simp: cm_abs_def)
qed

text \<open>
  C8. The connection manager refines the abstract table: on every state its constructor and calls
  can produce, each call returns the abstract call's code, leaves the abstract call's state, and
  keeps the invariant, by which the assertions of the code never fail.
\<close>

theorem cm_refines_spec:
  assumes "cm_wf cm"
  shows "cm_call op cm = (Done (fst (spec_call op (cm_abs cm))), snd (cm_call op cm))
    \<and> cm_abs (snd (cm_call op cm)) = snd (spec_call op (cm_abs cm)) \<and> cm_wf (snd (cm_call op cm))"
  using cm_call_step [OF assms, of op] by auto

fun cm_run :: "cm_op list \<Rightarrow> ConnectionManager \<Rightarrow> (unit, int list) outcome \<times> ConnectionManager" where
  "cm_run [] cm = (Done [], cm)"
| "cm_run (op # ops) cm = (case cm_call op cm of
     (Done r, cm') \<Rightarrow> (case cm_run ops cm' of
         (Done rs, cm'') \<Rightarrow> (Done (r # rs), cm'')
       | (x, cm'') \<Rightarrow> (x, cm''))
   | (Exit u, cm') \<Rightarrow> (Exit u, cm')
   | (Abort, cm') \<Rightarrow> (Abort, cm')
   | (Undef, cm') \<Rightarrow> (Undef, cm'))"

lemma cm_run_wf: "cm_wf cm \<Longrightarrow> \<exists>rs cm'. cm_run ops cm = (Done rs, cm') \<and> cm_wf cm'
    \<and> max_connections cm' = max_connections cm"
proof (induction ops arbitrary: cm)
  case (Cons op ops)
  obtain r cm' where c: "cm_call op cm = (Done r, cm')" "cm_wf cm'"
    using cm_call_step [OF Cons.prems, of op] by blast
  have "max_connections cm' = max_connections cm"
    using c(1) by (cases op) (auto simp: cm_open_connection_def cm_add_connection_def
      cm_close_connection_def Let_def split: if_splits list.splits prod.splits outcome.splits)
  then show ?case using Cons.IH [OF c(2)] c(1) by auto
qed simp

text \<open>
  C9. Whatever sequence of calls a program makes on a manager constructed for \<open>n\<close> connections, no
  assertion fails, and afterwards each of the \<open>n\<close> ids is in exactly one place: in the pool of free
  ids or in the table of open connections.
\<close>

theorem cm_ids_conserved:
  assumes "unat n \<le> 2 ^ 32"
  shows "\<exists>rs cm. cm_run ops (mk_ConnectionManager n) = (Done rs, cm)
    \<and> distinct (c_id_pool cm @ map fst (open_connections cm))
    \<and> set (c_id_pool cm @ map fst (open_connections cm)) = of_nat ` {..<unat n}"
  using cm_run_wf [OF cm_wf_mk [OF assms], of ops]
  by (fastforce simp: cm_wf_def mk_ConnectionManager_def)

text \<open>
  C10. The pool is a queue: an id that is closed is handed out again only after every id that was
  free at that moment, and openings return the free ids in the order of the pool.
\<close>

theorem cm_reuse_order:
  assumes "cm_wf cm" and "c \<in> fst ` set (open_connections cm)" and "length vs = length (c_id_pool cm)"
  shows "\<exists>cm'. cm_close_connection c cm = (0, cm')
    \<and> fst (open_ids (\<lambda>j (ip, flow). cm_open_connection j ip flow) (vs @ [v]) cm') = c_id_pool cm @ [c]"
  using cmt.closed_id_is_reused_last [OF assms(1) _ assms(3), of c v] assms(2) cm_conn_None [of cm c] by blast

section \<open>Examples\<close>

definition ip_any :: IPv4 where
  "ip_any = \<lparr>ipv4_addr = 0x0100007f, ipv4_port = 3600\<rparr>"

definition cm2 :: ConnectionManager where
  "cm2 = \<lparr>max_connections = 2, c_id_pool = [1], open_connections = [(0, (ip_any, 0))]\<rparr>"

lemma cm_wf_cm2: "cm_wf cm2"
proof -
  have "{..<2 :: nat} = {0, 1}" by auto
  then show ?thesis by (auto simp: cm_wf_def cm2_def std_map_wf_def)
qed

theorem cm_refines_spec_witness:
  "cm_call (CmOpen ip_any 3) cm2 = (Done 0, snd (cm_call (CmOpen ip_any 3) cm2))"
  using cm_refines_spec [OF cm_wf_cm2, of "CmOpen ip_any 3"] by (simp add: cm_abs_def cm2_def)

theorem cm_ids_conserved_witness:
  "\<exists>rs cm. cm_run [CmOpen ip_any 0, CmOpen ip_any 0, CmOpen ip_any 0, CmClose 1] (mk_ConnectionManager 2)
      = (Done rs, cm)
    \<and> distinct (c_id_pool cm @ map fst (open_connections cm))
    \<and> set (c_id_pool cm @ map fst (open_connections cm)) = of_nat ` {..<unat (2 :: u64)}"
  by (rule cm_ids_conserved) simp

theorem cm_reuse_order_witness:
  "\<exists>cm'. cm_close_connection 0 cm2 = (0, cm')
    \<and> fst (open_ids (\<lambda>j (ip, flow). cm_open_connection j ip flow) ([(ip_any, 7)] @ [(ip_any, 8)]) cm')
      = c_id_pool cm2 @ [0]"
  by (rule cm_reuse_order [OF cm_wf_cm2]) (simp_all add: cm2_def)

end
