(* ===== verification/Hssi_Csrs.thy ===== *)
theory Hssi_Csrs
  imports Prelude
begin

text \<open>
  The register table of the 40G Ethernet core (\<^verbatim>\<open>e40_csrs\<close> of \<^verbatim>\<open>fpga_hssi_e40.h\<close>) with the types
  of its entries (\<^verbatim>\<open>fpga_hssi_common.h\<close>), entry for entry in the order of the source. The lemmas
  establish what the lookups of the driver rely on: the offsets are strictly increasing and fit
  into the 16-bit address field of a status command. The names are not unique.
\<close>

section \<open>Entries\<close>

datatype hssi_reg_perms_t = RW | RO | RWC | RSVD

datatype hssi_csr_type_t = TX | RX | PHY | NA

record hssi_csr =
  csr_offset :: u32
  csr_type :: hssi_csr_type_t
  csr_width :: u32
  csr_name :: string
  csr_val :: u32
  csr_perms :: hssi_reg_perms_t
  csr_desc :: string

definition csr :: "u32 \<Rightarrow> hssi_csr_type_t \<Rightarrow> u32 \<Rightarrow> string \<Rightarrow> u32 \<Rightarrow> hssi_reg_perms_t \<Rightarrow> string \<Rightarrow> hssi_csr" where
  "csr off t w n v p d = \<lparr>csr_offset = off, csr_type = t, csr_width = w, csr_name = n, csr_val = v,
     csr_perms = p, csr_desc = d\<rparr>"

section \<open>The table\<close>

definition e40_csrs_0 :: "hssi_csr list" where
  \<open>e40_csrs_0 = [
    csr 0x0300 PHY 32 ''PHY_REVID'' 0x02062015 RO
      ''IP core PHY module revision ID'',
    csr 0x0301 PHY 32 ''PHY_SCRATCH'' 0 RW
      ''Scratch register available for testing'',
    csr 0x0302 PHY 32 ''PHY_NAME_0'' 0 RO
      ''First 4 characters of IP core variation identifier string "40GE pcs" or "100GE pcs"'',
    csr 0x0303 PHY 32 ''PHY_NAME_1'' 0 RO
      ''Next 4 characters of IP core variation identifier string "40GE pcs" or "100GE pcs"'',
    csr 0x0304 PHY 32 ''PHY_NAME_2'' 0 RO
      ''Final 4 characters of IP core variation identifier string "40GE pcs" or "100GE pcs"'',
    csr 0x0310 PHY 6 ''PHY_CONFIG'' 0 RW
      ''set_data_lock(5), set_ref_lock(4), rxp_ignore_freq(3), soft_rxp_rst(2), soft_txp_rst(1), eio_sys_rst(0)'',
    csr 0x0313 PHY 10 ''PHY_PMA_SLOOP'' 0 RW
      ''Serial PMA loopback'',
    csr 0x0314 PHY 3 ''PHY_PCS_INDIRECT_ADDR'' 0 RW
      ''Indirect addressing of individual FIFO flags in the 10G PCS Native PHY IP core'',
    csr 0x0315 PHY 10 ''PHY_PCS_INDIRECT_DATA'' 0 RO
      ''PCS indirect data'',
    csr 0x0320 PHY 10 ''PHY_TX_PLL_LOCKED'' 0 RO
      ''Each bit that is asserted indicates that the corresponding lane TX PLL is locked'',
    csr 0x0321 PHY 10 ''PHY_EIOFREQ_LOCKED'' 0 RO
      ''Each bit that is asserted indicates that the corresponding lane RX CDR PLL is locked.'',
    csr 0x0322 PHY 3 ''PHY_TX_COREPLL_LOCKED'' 0 RO
      ''RX PLL is locked(2), TX PLL is locked(1), TX PCS is ready(0)'',
    csr 0x0323 PHY 3 ''PHY_FRAME_ERROR'' 20 RO
      ''Each bit that is asserted indicates that the corresponding virtual lane has a frame error'',
    csr 0x0324 PHY 3 ''PHY_SCLR_FRAME_ERROR'' 1 RW
      ''Synchronous clear for PHY_FRAME_ERROR register'',
    csr 0x0325 PHY 3 ''PHY_EIO_SFTRESET'' 0 RW
      ''Clear the RX FIFO(1), RX PCS reset (0)'',
    csr 0x0326 PHY 2 ''PHY_RXPCS_STATUS'' 0 RO
      '' RX PCS is fully aligned and ready to accept traffic'',
    csr 0x0340 PHY 32 ''PHY_REFCLK_KHZ'' 0 RO
      ''Reference clock frequency in KHz'',
    csr 0x0341 PHY 32 ''PHY_RXCLK_KHZ'' 0 RO
      ''RX clock (clk_rxmac) frequency in KHz'']\<close>

definition e40_csrs_1 :: "hssi_csr list" where
  \<open>e40_csrs_1 = [
    csr 0x0342 PHY 32 ''PHY_TXCLK_KHZ'' 0 RO
      ''TX clock (clk_txmac) frequency in KHz'',
    csr 0x0343 PHY 32 ''PHY_RECCLK_KHZ'' 0 RO
      ''RX recovered clock frequency in KHz'',
    csr 0x0344 PHY 32 ''PHY_TXIOCLK_KHZ'' 0 RO
      ''TX PMA clock frequency in KHz'',
    csr 0x0400 NA 32 ''TXMAC_REVID'' 0x02062015 RO
      ''TX MAC revision ID'',
    csr 0x0401 NA 32 ''TXMAC_SCRATCH'' 0 RW
      ''Scratch register available for testing'',
    csr 0x0402 NA 32 ''TXMAC_NAME_0'' 0 RO
      ''First 4 characters of IP core variation identifier string "40gMACTxCSR" or "100gMACTxCSR"'',
    csr 0x0403 NA 32 ''TXMAC_NAME_1'' 0 RO
      ''Next 4 characters of IP core variation identifier string "40gMACTxCSR" or "100gMACTxCSR"'',
    csr 0x0404 NA 32 ''TXMAC_NAME_2'' 0 RO
      ''Final 4 characters of IP core variation identifier string "40gMACTxCSR" or "100gMACTxCSR"'',
    csr 0x0406 NA 32 ''IPG_COL_REM'' 0 RW
      ''Number of IDLE columns to be removed in every Alignment Marker'',
    csr 0x0407 NA 32 ''MAX_TX_SIZE_CONFIG'' 0 RW
      ''Maximum size of Ethernet frames for CNTR_TX_OVERSIZE'',
    csr 0x0500 NA 32 ''RXMAC_REVID'' 0x02062015 RO
      ''RX MAC revision ID'',
    csr 0x0501 NA 32 ''RXMAC_SCRATCH'' 0 RW
      ''Scratch register available for testing'',
    csr 0x0502 NA 32 ''RXMAC_NAME_0'' 0 RO
      ''First 4 characters of IP core variation identifier string "40gMACRxCSR" or "100gMACRxCSR"'',
    csr 0x0503 NA 32 ''RXMAC_NAME_1'' 0 RO
      ''Next 4 characters of IP core variation identifier string "40gMACRxCSR" or "100gMACRxCSR"'',
    csr 0x0504 NA 32 ''RXMAC_NAME_2'' 0 RO
      ''Final 4 characters of IP core variation identifier string "40gMACRxCSR" or "100gMACRxCSR"'',
    csr 0x0506 NA 16 ''MAX_RX_SIZE_CONFIG'' 0 RW
      ''Maximum size of Ethernet frames for CNTR_RX_OVERSIZE'',
    csr 0x0507 NA 32 ''MAC_CRC_CONFIG'' 0 RW
      ''RX CRC forwarding configuration register'',
    csr 0x050A NA 32 ''CFG_PLEN_CHECK'' 0 RW
      ''Enables payload length checking'']\<close>

definition e40_csrs_2 :: "hssi_csr list" where
  \<open>e40_csrs_2 = [
    csr 0x0800 TX 32 ''CNTR_TX_FRAGMENTS_LO'' 0 RO
      ''#TX frames < 64 bytes and reporting a CRC error (lower 32 bits)'',
    csr 0x0801 TX 32 ''CNTR_TX_FRAGMENTS_HI'' 0 RO
      ''#TX frames < 64 bytes and reporting a CRC error (upper 32 bits)'',
    csr 0x0802 TX 32 ''CNTR_TX_JABBERS_LO'' 0 RO
      ''#TX oversized frames reporting a CRC error (lower 32 bits)'',
    csr 0x0803 TX 32 ''CNTR_TX_JABBERS_HI'' 0 RO
      ''#TX oversized frames reporting a CRC error (upper 32 bits)'',
    csr 0x0804 TX 32 ''CNTR_TX_FCS_LO'' 0 RO
      ''#TX packets with FCS errors. (lower 32 bits)'',
    csr 0x0805 TX 32 ''CNTR_TX_FCS_HI'' 0 RO
      ''#TX packets with FCS errors. (upper 32 bits)'',
    csr 0x0806 TX 32 ''CNTR_TX_CRCERR_LO'' 0 RO
      ''#TX frames with a frame of length at least 64 reporting a CRC error (lower 32 bits)'',
    csr 0x0807 TX 32 ''CNTR_TX_CRCERR_HI'' 0 RO
      ''#TX frames with a frame of length at least 64 reporting a CRC error (upper 32 bits)'',
    csr 0x0808 TX 32 ''CNTR_TX_MCAST_DATA_ERR_LO'' 0 RO
      ''Number of errored multicast frames transmitted, excluding control frames (lower 32 bits)'',
    csr 0x0809 TX 32 ''CNTR_TX_MCAST_DATA_ERR_HI'' 0 RO
      ''Number of errored multicast frames transmitted, excluding control frames (upper 32 bits)'',
    csr 0x080A TX 32 ''CNTR_TX_BCAST_DATA_ERR_LO'' 0 RO
      ''Number of errored broadcast frames transmitted, excluding control frames (lower 32 bits)'',
    csr 0x080B TX 32 ''CNTR_TX_BCAST_DATA_ERR_HI'' 0 RO
      ''Number of errored broadcast frames transmitted, excluding control frames (upper 32 bits)'',
    csr 0x080C TX 32 ''CNTR_TX_UCAST_DATA_ERR_LO'' 0 RO
      ''Number of errored unicast frames transmitted, excluding control frames (lower 32 bits)'',
    csr 0x080D TX 32 ''CNTR_TX_UCAST_DATA_ERR_HI'' 0 RO
      ''Number of errored unicast frames transmitted, excluding control frames (upper 32 bits)'',
    csr 0x080E TX 32 ''CNTR_TX_MCAST_CTRL_ERR_LO'' 0 RO
      ''Number of errored multicast control frames transmitted (lower 32 bits)'',
    csr 0x080F TX 32 ''CNTR_TX_MCAST_CTRL_ERR_HI'' 0 RO
      ''Number of errored multicast control frames transmitted (upper 32 bits)'',
    csr 0x0810 TX 32 ''CNTR_TX_BCAST_CTRL_ERR_LO'' 0 RO
      ''Number of errored broadcast control frames transmitted (lower 32 bits)'',
    csr 0x0811 TX 32 ''CNTR_TX_BCAST_CTRL_ERR_HI'' 0 RO
      ''Number of errored broadcast control frames transmitted (upper 32 bits)'']\<close>

definition e40_csrs_3 :: "hssi_csr list" where
  \<open>e40_csrs_3 = [
    csr 0x0812 TX 32 ''CNTR_TX_UCAST_CTRL_ERR_LO'' 0 RO
      ''Number of errored unicast control frames transmitted (lower 32 bits)'',
    csr 0x0813 TX 32 ''CNTR_TX_UCAST_CTRL_ERR_HI'' 0 RO
      ''Number of errored unicast control frames transmitted (upper 32 bits)'',
    csr 0x0814 TX 32 ''CNTR_TX_PAUSE_ERR_LO'' 0 RO
      ''Number of errored pause frames transmitted (lower 32 bits)'',
    csr 0x0815 TX 32 ''CNTR_TX_PAUSE_ERR_HI'' 0 RO
      ''Number of errored pause frames transmitted (upper 32 bits)'',
    csr 0x0816 TX 32 ''CNTR_TX_64B_LO'' 0 RO
      ''Number of 64-byte transmitted frames (lower 32 bits)'',
    csr 0x0817 TX 32 ''CNTR_TX_64B_HI'' 0 RO
      ''Number of 64-byte transmitted frames (upper 32 bits)'',
    csr 0x0818 TX 32 ''CNTR_TX_65to127B_LO'' 0 RO
      (''#TX frames between 65'' @ [CHR 0xE2, CHR 0x80, CHR 0x93] @ ''127 bytes (lower 32 bits)''),
    csr 0x0819 TX 32 ''CNTR_TX_65to127B_HI'' 0 RO
      (''#TX frames between 65'' @ [CHR 0xE2, CHR 0x80, CHR 0x93] @ ''127 bytes (upper 32 bits)''),
    csr 0x081A TX 32 ''CNTR_TX_128to255B_LO'' 0 RO
      (''#TX frames between 128 '' @ [CHR 0xE2, CHR 0x80, CHR 0x93] @ ''255 bytes (lower 32 bits)''),
    csr 0x081B TX 32 ''CNTR_TX_128to255B_LO'' 0 RO
      (''#TX frames between 128 '' @ [CHR 0xE2, CHR 0x80, CHR 0x93] @ ''255 bytes (upper 32 bits)''),
    csr 0x081C TX 32 ''CNTR_TX_256to511B_LO'' 0 RO
      (''#TX frames between 256 '' @ [CHR 0xE2, CHR 0x80, CHR 0x93] @ ''511 bytes (lower 32 bits)''),
    csr 0x081D TX 32 ''CNTR_TX_256to511B_LO'' 0 RO
      (''#TX frames between 256 '' @ [CHR 0xE2, CHR 0x80, CHR 0x93] @ ''511 bytes (upper 32 bits)''),
    csr 0x081E TX 32 ''CNTR_TX_512to1023B_LO'' 0 RO
      (''#TX frames between 512'' @ [CHR 0xE2, CHR 0x80, CHR 0x93] @ ''1023 bytes (lower 32 bits)''),
    csr 0x081F TX 32 ''CNTR_TX_512to1023B_HI'' 0 RO
      (''#TX frames between 512 '' @ [CHR 0xE2, CHR 0x80, CHR 0x93] @ ''1023 bytes (upper 32 bits)''),
    csr 0x0820 TX 32 ''CNTR_TX_1024to1518B_LO'' 0 RO
      (''#TX frames between 1024'' @ [CHR 0xE2, CHR 0x80, CHR 0x93] @ ''1518 bytes (lower 32 bits)''),
    csr 0x0821 TX 32 ''CNTR_TX_1024to1518B_HI'' 0 RO
      (''#TX frames between 1024'' @ [CHR 0xE2, CHR 0x80, CHR 0x93] @ ''1518 bytes (upper 32 bits)''),
    csr 0x0822 TX 32 ''CNTR_TX_1519toMAXB_LO'' 0 RO
      ''#TX frames of size between 1519 bytes and MAX_TX_SIZE_CONFIG register (lower 32 bits)'',
    csr 0x0823 TX 32 ''CNTR_TX_1519toMAXB_HI'' 0 RO
      ''#TX frames of size between 1519 bytes and MAX_TX_SIZE_CONFIG register (upper 32 bits)'']\<close>

definition e40_csrs_4 :: "hssi_csr list" where
  \<open>e40_csrs_4 = [
    csr 0x0824 TX 32 ''CNTR_TX_OVERSIZE_LO'' 0 RO
      ''Frames with bytes > MAX_TX_SIZE_CONFIG transmitted (lower 32 bits)'',
    csr 0x0825 TX 32 ''CNTR_TX_OVERSIZE_HI'' 0 RO
      ''Frames with bytes >MAX_TX_SIZE_CONFIG) transmitted (upper 32 bits)'',
    csr 0x0826 TX 32 ''CNTR_TX_MCAST_DATA_OK_LO'' 0 RO
      ''Number of valid multicast frames transmitted, excluding control frames (lower 32 bits)'',
    csr 0x0827 TX 32 ''CNTR_TX_MCAST_DATA_OK_HI'' 0 RO
      ''Number of valid multicast frames transmitted, excluding control frames (upper 32 bits)'',
    csr 0x0828 TX 32 ''CNTR_TX_BCAST_DATA_OK_LO'' 0 RO
      ''Number of valid broadcast frames transmitted, excluding control frames (lower 32 bits)'',
    csr 0x0829 TX 32 ''CNTR_TX_BCAST_DATA_OK_HI'' 0 RO
      ''Number of valid broadcast frames transmitted, excluding control frames (upper 32 bits)'',
    csr 0x082A TX 32 ''CNTR_TX_UCAST_DATA_OK_LO'' 0 RO
      ''Number of valid unicast frames transmitted, excluding control frames (lower 32 bits)'',
    csr 0x082B TX 32 ''CNTR_TX_UCAST_DATA_OK_HI'' 0 RO
      ''Number of valid unicast frames transmitted, excluding control frames (upper 32 bits)'',
    csr 0x082C TX 32 ''CNTR_TX_MCAST_CTRL_LO'' 0 RO
      ''Number of valid multicast frames transmitted, excluding data frames (lower 32 bits)'',
    csr 0x082D TX 32 ''CNTR_TX_MCAST_CTRL_HI'' 0 RO
      ''Number of valid multicast frames transmitted, excluding data frames (upper 32 bits)'',
    csr 0x082E TX 32 ''CNTR_TX_BCAST_CTRL_LO'' 0 RO
      ''Number of valid broadcast frames transmitted, excluding data frames (lower 32 bits)'',
    csr 0x082F TX 32 ''CNTR_TX_BCAST_CTRL_HI'' 0 RO
      ''Number of valid broadcast frames transmitted, excluding data frames (upper 32 bits)'',
    csr 0x0830 TX 32 ''CNTR_TX_UCAST_CTRL_LO'' 0 RO
      ''Number of valid unicast frames transmitted, excluding data frames (lower 32 bits)'',
    csr 0x0831 TX 32 ''CNTR_TX_UCAST_CTRL_HI'' 0 RO
      ''Number of valid unicast frames transmitted, excluding data frames (upper 32 bits)'',
    csr 0x0832 TX 32 ''CNTR_TX_PAUSE_LO'' 0 RO
      ''Number of valid pause frames transmitted (lower 32 bits)'',
    csr 0x0833 TX 32 ''CNTR_TX_PAUSE_HI'' 0 RO
      ''Number of valid pause frames transmitted (upper 32 bits)'',
    csr 0x0834 TX 32 ''CNTR_TX_RUNT_LO'' 0 RO
      ''#TX runt packets (lower 32 bits)'']\<close>

definition e40_csrs_5 :: "hssi_csr list" where
  \<open>e40_csrs_5 = [
    csr 0x0835 TX 32 ''CNTR_TX_RUNT_HI'' 0 RO
      ''#TX runt packets (upper 32 bits)'',
    csr 0x0836 TX 32 ''CNTR_TX_ST_LO'' 0 RO
      ''#TX frame starts (lower 32 bits)'',
    csr 0x0837 TX 32 ''CNTR_TX_ST_HI'' 0 RO
      ''#TX frame starts (upper 32 bits)'',
    csr 0x0840 TX 32 ''TXSTAT_REVID'' 0 RO
      ''TX statistics module revision ID'',
    csr 0x0841 TX 32 ''TXSTAT_SCRATCH'' 0 RW
      ''Scratch register available for testing. Default value is 0x08'',
    csr 0x0842 TX 32 ''TXSTAT_NAME_0'' 0 RW
      ''First 4 characters of IP core variation identifier string "040gMacStats" or "100gMacStats"'',
    csr 0x0843 TX 32 ''TXSTAT_NAME_1'' 0 RW
      ''Next 4 characters of IP core variation identifier string "040gMacStats" or "100gMacStats"'',
    csr 0x0844 TX 32 ''TXSTAT_NAME_2'' 0 RW
      ''Final 4 characters of IP core variation identifier string "040gMacStats" or "100gMacStats"'',
    csr 0x0845 TX 32 ''CNTR_TX_CONFIG'' 0 RW
      ''Configuration of TX statistics counters'',
    csr 0x0846 TX 32 ''CNTR_TX_STATUS'' 0 RO
      ''TX statistics registers paused (1), At-least one parity error (0)'',
    csr 0x0860 TX 32 ''TxOctetsOK_LO'' 0 RO
      ''#TX payload bytes in frames with no FCS, undersized, oversized, or payload length errors)'',
    csr 0x0861 TX 32 ''TxOctetsOK_HI'' 0 RO
      ''#TX payload bytes in frames with no FCS, undersized, oversized, or payload length errors'',
    csr 0x0900 RX 32 ''CNTR_RX_FRAGMENTS_LO'' 0 RO
      ''#RX frames < 64 bytes and reporting a CRC error (lower 32 bits)'',
    csr 0x0901 RX 32 ''CNTR_RX_FRAGMENTS_HI'' 0 RO
      ''#RX frames < 64 bytes and reporting a CRC error (upper 32 bits)'',
    csr 0x0902 RX 32 ''CNTR_RX_JABBERS_LO'' 0 RO
      ''#RX oversized frames reporting a CRC error (lower 32 bits)'',
    csr 0x0903 RX 32 ''CNTR_RX_JABBERS_HI'' 0 RO
      ''#RX oversized frames reporting a CRC error (upper 32 bits)'',
    csr 0x0904 RX 32 ''CNTR_RX_FCS_LO'' 0 RO
      ''#RX packets with FCS errors. (lower 32 bits)'',
    csr 0x0905 RX 32 ''CNTR_RX_FCS_HI'' 0 RO
      ''#RX packets with FCS errors. (upper 32 bits)'']\<close>

definition e40_csrs_6 :: "hssi_csr list" where
  \<open>e40_csrs_6 = [
    csr 0x0906 RX 32 ''CNTR_RX_CRCERR_LO'' 0 RO
      ''#RX frames with a frame of length at least 64 reporting a CRC error (lower 32 bits)'',
    csr 0x0907 RX 32 ''CNTR_RX_CRCERR_HI'' 0 RO
      ''#RX frames with a frame of length at least 64 reporting a CRC error (upper 32 bits)'',
    csr 0x0908 RX 32 ''CNTR_RX_MCAST_DATA_ERR_LO'' 0 RO
      ''Number of errored multicast frames received, excluding control frames (lower 32 bits)'',
    csr 0x0909 RX 32 ''CNTR_RX_MCAST_DATA_ERR_HI'' 0 RO
      ''Number of errored multicast frames received, excluding control frames (upper 32 bits)'',
    csr 0x090A RX 32 ''CNTR_RX_BCAST_DATA_ERR_LO'' 0 RO
      ''Number of errored broadcast frames received, excluding control frames (lower 32 bits)'',
    csr 0x090B RX 32 ''CNTR_RX_BCAST_DATA_ERR_HI'' 0 RO
      ''Number of errored broadcast frames received, excluding control frames (upper 32 bits)'',
    csr 0x090C RX 32 ''CNTR_RX_UCAST_DATA_ERR_LO'' 0 RO
      ''Number of errored unicast frames received, excluding control frames (lower 32 bits)'',
    csr 0x090D RX 32 ''CNTR_RX_UCAST_DATA_ERR_HI'' 0 RO
      ''Number of errored unicast frames received, excluding control frames (upper 32 bits)'',
    csr 0x090E RX 32 ''CNTR_RX_MCAST_CTRL_ERR_LO'' 0 RO
      ''Number of errored multicast control frames received (lower 32 bits)'',
    csr 0x090F RX 32 ''CNTR_RX_MCAST_CTRL_ERR_HI'' 0 RO
      ''Number of errored multicast control frames received (upper 32 bits)'',
    csr 0x0910 RX 32 ''CNTR_RX_BCAST_CTRL_ERR_LO'' 0 RO
      ''Number of errored broadcast control frames received (lower 32 bits)'',
    csr 0x0911 RX 32 ''CNTR_RX_BCAST_CTRL_ERR_HI'' 0 RO
      ''Number of errored broadcast control frames received (upper 32 bits)'',
    csr 0x0912 RX 32 ''CNTR_RX_UCAST_CTRL_ERR_LO'' 0 RO
      ''Number of errored unicast control frames received (lower 32 bits)'',
    csr 0x0913 RX 32 ''CNTR_RX_UCAST_CTRL_ERR_HI'' 0 RO
      ''Number of errored unicast control frames received (upper 32 bits)'',
    csr 0x0914 RX 32 ''CNTR_RX_PAUSE_ERR_LO'' 0 RO
      ''Number of errored pause frames received (lower 32 bits)'',
    csr 0x0915 RX 32 ''CNTR_RX_PAUSE_ERR_HI'' 0 RO
      ''Number of errored pause frames received (upper 32 bits)'',
    csr 0x0916 RX 32 ''CNTR_RX_64B_LO'' 0 RO
      ''Number of 64-byte received frames (lower 32 bits)'',
    csr 0x0917 RX 32 ''CNTR_RX_64B_HI'' 0 RO
      ''Number of 64-byte received frames (upper 32 bits)'']\<close>

definition e40_csrs_7 :: "hssi_csr list" where
  \<open>e40_csrs_7 = [
    csr 0x0918 RX 32 ''CNTR_RX_65to127B_LO'' 0 RO
      (''#RX frames between 65'' @ [CHR 0xE2, CHR 0x80, CHR 0x93] @ ''127 bytes (lower 32 bits)''),
    csr 0x0919 RX 32 ''CNTR_RX_65to127B_HI'' 0 RO
      (''#RX frames between 65'' @ [CHR 0xE2, CHR 0x80, CHR 0x93] @ ''127 bytes (upper 32 bits)''),
    csr 0x091A RX 32 ''CNTR_RX_128to255B_LO'' 0 RO
      (''#RX frames between 128 '' @ [CHR 0xE2, CHR 0x80, CHR 0x93] @ ''255 bytes (lower 32 bits)''),
    csr 0x091B RX 32 ''CNTR_RX_128to255B_LO'' 0 RO
      (''#RX frames between 128 '' @ [CHR 0xE2, CHR 0x80, CHR 0x93] @ ''255 bytes (upper 32 bits)''),
    csr 0x091C RX 32 ''CNTR_RX_256to511B_LO'' 0 RO
      (''#RX frames between 256 '' @ [CHR 0xE2, CHR 0x80, CHR 0x93] @ ''511 bytes (lower 32 bits)''),
    csr 0x091D RX 32 ''CNTR_RX_256to511B_LO'' 0 RO
      (''#RX frames between 256 '' @ [CHR 0xE2, CHR 0x80, CHR 0x93] @ ''511 bytes (upper 32 bits)''),
    csr 0x091E RX 32 ''CNTR_RX_512to1023B_LO'' 0 RO
      (''#RX frames between 512'' @ [CHR 0xE2, CHR 0x80, CHR 0x93] @ ''1023 bytes (lower 32 bits)''),
    csr 0x091F RX 32 ''CNTR_RX_512to1023B_HI'' 0 RO
      (''#RX frames between 512 '' @ [CHR 0xE2, CHR 0x80, CHR 0x93] @ ''1023 bytes (upper 32 bits)''),
    csr 0x0920 RX 32 ''CNTR_RX_1024to1518B_LO'' 0 RO
      (''#RX frames between 1024'' @ [CHR 0xE2, CHR 0x80, CHR 0x93] @ ''1518 bytes (lower 32 bits)''),
    csr 0x0921 RX 32 ''CNTR_RX_1024to1518B_HI'' 0 RO
      (''#RX frames between 1024'' @ [CHR 0xE2, CHR 0x80, CHR 0x93] @ ''1518 bytes (upper 32 bits)''),
    csr 0x0922 RX 32 ''CNTR_RX_1519toMAXB_LO'' 0 RO
      ''#RX frames of size between 1519 bytes and MAX_RX_SIZE_CONFIG register (lower 32 bits)'',
    csr 0x0923 RX 32 ''CNTR_RX_1519toMAXB_HI'' 0 RO
      ''#RX frames of size between 1519 bytes and MAX_RX_SIZE_CONFIG register (upper 32 bits)'',
    csr 0x0924 RX 32 ''CNTR_RX_OVERSIZE_LO'' 0 RO
      ''Frames with more bytes than MAX_RX_SIZE_CONFIG register received (lower 32 bits)'',
    csr 0x0925 RX 32 ''CNTR_RX_OVERSIZE_HI'' 0 RO
      ''Frames with more bytes than the MAX_RX_SIZE_CONFIG register received (upper 32 bits)'',
    csr 0x0926 RX 32 ''CNTR_RX_MCAST_DATA_OK_LO'' 0 RO
      ''Number of valid multicast frames received, excluding control frames (lower 32 bits)'',
    csr 0x0927 RX 32 ''CNTR_RX_MCAST_DATA_OK_HI'' 0 RO
      ''Number of valid multicast frames received, excluding control frames (upper 32 bits)'',
    csr 0x0928 RX 32 ''CNTR_RX_BCAST_DATA_OK_LO'' 0 RO
      ''Number of valid broadcast frames received, excluding control frames (lower 32 bits)'']\<close>

definition e40_csrs_8 :: "hssi_csr list" where
  \<open>e40_csrs_8 = [
    csr 0x0929 RX 32 ''CNTR_RX_BCAST_DATA_OK_HI'' 0 RO
      ''Number of valid broadcast frames received, excluding control frames (upper 32 bits)'',
    csr 0x092A RX 32 ''CNTR_RX_UCAST_DATA_OK_LO'' 0 RO
      ''Number of valid unicast frames received, excluding control frames (lower 32 bits)'',
    csr 0x092B RX 32 ''CNTR_RX_UCAST_DATA_OK_HI'' 0 RO
      ''Number of valid unicast frames received, excluding control frames (upper 32 bits)'',
    csr 0x092C RX 32 ''CNTR_RX_MCAST_CTRL_LO'' 0 RO
      ''Number of valid multicast frames received, excluding data frames (lower 32 bits)'',
    csr 0x092D RX 32 ''CNTR_RX_MCAST_CTRL_HI'' 0 RO
      ''Number of valid multicast frames received, excluding data frames (upper 32 bits)'',
    csr 0x092E RX 32 ''CNTR_RX_BCAST_CTRL_LO'' 0 RO
      ''Number of valid broadcast frames received, excluding data frames (lower 32 bits)'',
    csr 0x092F RX 32 ''CNTR_RX_BCAST_CTRL_HI'' 0 RO
      ''Number of valid broadcast frames received, excluding data frames (upper 32 bits)'',
    csr 0x0930 RX 32 ''CNTR_RX_UCAST_CTRL_LO'' 0 RO
      ''Number of valid unicast frames received, excluding data frames (lower 32 bits)'',
    csr 0x0931 RX 32 ''CNTR_RX_UCAST_CTRL_HI'' 0 RO
      ''Number of valid unicast frames received, excluding data frames (upper 32 bits)'',
    csr 0x0932 RX 32 ''CNTR_RX_PAUSE_LO'' 0 RO
      ''Number of valid pause frames received (lower 32 bits)'',
    csr 0x0933 RX 32 ''CNTR_RX_PAUSE_HI'' 0 RO
      ''Number of valid pause frames received (upper 32 bits)'',
    csr 0x0934 RX 32 ''CNTR_RX_RUNT_LO'' 0 RO
      ''#RX runt packets (lower 32 bits)'',
    csr 0x0935 RX 32 ''CNTR_RX_RUNT_HI'' 0 RO
      ''#RX runt packets (upper 32 bits)'',
    csr 0x0936 RX 32 ''CNTR_RX_ST_LO'' 0 RO
      ''#RX frame starts (lower 32 bits)'',
    csr 0x0937 RX 32 ''CNTR_RX_ST_HI'' 0 RO
      ''#RX frame starts (upper 32 bits)'',
    csr 0x0940 RX 32 ''RXSTAT_REVID'' 0 RO
      ''RX statistics module revision ID'',
    csr 0x0941 RX 32 ''RXSTAT_SCRATCH'' 0 RW
      ''Scratch register available for testing. Default value is 0x08'']\<close>

definition e40_csrs_9 :: "hssi_csr list" where
  \<open>e40_csrs_9 = [
    csr 0x0942 RX 32 ''RXSTAT_NAME_0'' 0 RW
      ''First 4 characters of IP core variation identifier string "040gMacStats" or "100gMacStats"'',
    csr 0x0943 RX 32 ''RXSTAT_NAME_1'' 0 RW
      ''Next 4 characters of IP core variation identifier string "040gMacStats" or "100gMacStats"'',
    csr 0x0944 RX 32 ''RXSTAT_NAME_2'' 0 RW
      ''Final 4 characters of IP core variation identifier string "040gMacStats" or "100gMacStats"'',
    csr 0x0945 RX 32 ''CNTR_RX_CONFIG'' 0 RW
      ''Configuration of RX statistics counters'',
    csr 0x0946 RX 32 ''CNTR_RX_STATUS'' 0 RO
      ''RX statistics registers paused (1), At-least one parity error (0)'',
    csr 0x0960 RX 32 ''RXOctetsOK_LO'' 0 RO
      ''#RX payload bytes in frames with no FCS, undersized, oversized, or payload length errors)'',
    csr 0x0961 RX 32 ''RXOctetsOK_HI'' 0 RO
      ''#RX payload bytes in frames with no FCS, undersized, oversized, or payload length errors'',
    csr 0x03c00 NA 32 ''number_of_packets'' 0 RW
      ''Number of packets to be transmitted'',
    csr 0x03c01 NA 32 ''random_length'' 0 RW
      ''Select what type of packet length:0=fixed, 1=random'',
    csr 0x03c02 NA 32 ''random_payload'' 0 RW
      ''Select what type of data pattern:0=incremental, 1=random'',
    csr 0x03c03 NA 32 ''start'' 0 RW
      ''Start traffic generation'',
    csr 0x03c04 NA 32 ''stop'' 0 RW
      ''Stop traffic generation'',
    csr 0x03c05 NA 32 ''source_addr0'' 0 RW
      ''MAC source address 31:0'',
    csr 0x03c06 NA 32 ''source_addr1'' 0 RW
      ''MAC source address 47:32'',
    csr 0x03c07 NA 32 ''destination_addr0'' 0 RW
      ''MAC destination address 31:0'',
    csr 0x03c08 NA 32 ''destination_addr1'' 0 RW
      ''MAC destination address 47:32'',
    csr 0x03c09 NA 32 ''packet_tx_count'' 0 RW
      ''#TX packets'',
    csr 0x03c0a NA 32 ''rnd_seed0'' 0 RW
      ''Seed number for prbs generator [31:0]'']\<close>

definition e40_csrs_10 :: "hssi_csr list" where
  \<open>e40_csrs_10 = [
    csr 0x03c0b NA 32 ''rnd_seed1'' 0 RW
      ''Seed number for prbs generator [63:32]'',
    csr 0x03c0c NA 32 ''rnd_seed2'' 0 RW
      ''Seed number for prbs generator [91:64]'',
    csr 0x03c0d NA 32 ''pkt_length'' 0 RW
      ''Number of succesfully transmitted packets'',
    csr 0x03d00 NA 32 ''mac_da0'' 0 RW
      ''MAC destination address [31:0]'',
    csr 0x03d01 NA 32 ''mac_da1'' 0 RW
      ''MAC destination address [47:32]'',
    csr 0x03d02 NA 32 ''mac_sa0'' 0 RW
      ''MAC source address [31:0]'',
    csr 0x03d03 NA 32 ''mac_sa1'' 0 RW
      ''MAC destination address [47:32]'',
    csr 0x03d04 NA 32 ''pkt_numb'' 0 RW
      ''Number of packets received'',
    csr 0x03d05 NA 32 ''mon_ctrl'' 0 RW
      (''Monitor control - continuous (bit 2), '' @ [CHR 0x09] @ ''stop_reg (bit 1), init_reg (bit 0)''),
    csr 0x03d06 NA 32 ''mon_stat'' 0 RW
      ''Monitor status [0] Monitoring completed (Received number of packets), [1] - Destination Address error, [2] - Source Address error, [3] - Packet Length error, [4] - Packet CRC payload error'',
    csr 0x03d07 NA 32 ''pkt_good'' 0 RW
      ''Good packets'',
    csr 0x03d08 NA 32 ''pkt_bad'' 0 RW
      ''Bad packets'']\<close>

definition e40_csrs :: "hssi_csr list" where
  "e40_csrs = e40_csrs_0 @ e40_csrs_1 @ e40_csrs_2 @ e40_csrs_3 @ e40_csrs_4 @ e40_csrs_5 @ e40_csrs_6 @ e40_csrs_7 @ e40_csrs_8 @ e40_csrs_9 @ e40_csrs_10"

lemmas e40_chunks = e40_csrs_0_def e40_csrs_1_def e40_csrs_2_def e40_csrs_3_def e40_csrs_4_def e40_csrs_5_def e40_csrs_6_def e40_csrs_7_def e40_csrs_8_def e40_csrs_9_def e40_csrs_10_def

section \<open>Facts about the table\<close>

text \<open>Names that occur in none of the entries of a part.\<close>

definition lacks :: "string \<Rightarrow> hssi_csr list \<Rightarrow> bool" where
  "lacks n cs \<longleftrightarrow> list_all (\<lambda>c. csr_name c \<noteq> n) cs"

lemma find_skip:
  "lacks n xs \<Longrightarrow> find (\<lambda>c. csr_name c = n) (xs @ ys) = find (\<lambda>c. csr_name c = n) ys"
  by (induction xs) (auto simp: lacks_def)

lemma find_hit: "find P xs = Some c \<Longrightarrow> find P (xs @ ys) = Some c"
  by (induction xs) (auto split: if_splits)

lemma lacks_none: "lacks n xs \<Longrightarrow> find (\<lambda>c. csr_name c = n) xs = None"
  by (induction xs) (auto simp: lacks_def)

lemma offsets_increasing: "sorted_wrt (<) (map (unat \<circ> csr_offset) e40_csrs)"
  by (simp add: e40_csrs_def e40_chunks csr_def sorted_wrt2_simps del: sorted_wrt.simps)

lemma offsets_bounded: "list_all (\<lambda>c. unat (csr_offset c) < 2 ^ 16) e40_csrs"
  by (simp add: e40_csrs_def e40_chunks csr_def)

lemma find_sloop: "find (\<lambda>c. csr_name c = ''PHY_PMA_SLOOP'') e40_csrs = Some (e40_csrs_0 ! 6)"
proof -
  have "find (\<lambda>c. csr_name c = ''PHY_PMA_SLOOP'') e40_csrs_0 = Some (e40_csrs_0 ! 6)"
    by (simp add: e40_csrs_0_def csr_def)
  then show ?thesis unfolding e40_csrs_def by (rule find_hit)
qed

lemma find_tx_config: "find (\<lambda>c. csr_name c = ''CNTR_TX_CONFIG'') e40_csrs = Some (e40_csrs_5 ! 8)"
proof -
  have "lacks ''CNTR_TX_CONFIG'' e40_csrs_0" "lacks ''CNTR_TX_CONFIG'' e40_csrs_1"
    "lacks ''CNTR_TX_CONFIG'' e40_csrs_2" "lacks ''CNTR_TX_CONFIG'' e40_csrs_3"
    "lacks ''CNTR_TX_CONFIG'' e40_csrs_4"
    by (simp_all add: lacks_def e40_chunks csr_def)
  moreover have "find (\<lambda>c. csr_name c = ''CNTR_TX_CONFIG'') e40_csrs_5 = Some (e40_csrs_5 ! 8)"
    by (simp add: e40_csrs_5_def csr_def)
  ultimately show ?thesis by (simp add: e40_csrs_def find_skip find_hit)
qed

lemma find_rx_config: "find (\<lambda>c. csr_name c = ''CNTR_RX_CONFIG'') e40_csrs = Some (e40_csrs_9 ! 3)"
proof -
  have "lacks ''CNTR_RX_CONFIG'' e40_csrs_0" "lacks ''CNTR_RX_CONFIG'' e40_csrs_1"
    "lacks ''CNTR_RX_CONFIG'' e40_csrs_2" "lacks ''CNTR_RX_CONFIG'' e40_csrs_3"
    "lacks ''CNTR_RX_CONFIG'' e40_csrs_4" "lacks ''CNTR_RX_CONFIG'' e40_csrs_5"
    "lacks ''CNTR_RX_CONFIG'' e40_csrs_6" "lacks ''CNTR_RX_CONFIG'' e40_csrs_7"
    "lacks ''CNTR_RX_CONFIG'' e40_csrs_8"
    by (simp_all add: lacks_def e40_chunks csr_def)
  moreover have "find (\<lambda>c. csr_name c = ''CNTR_RX_CONFIG'') e40_csrs_9 = Some (e40_csrs_9 ! 3)"
    by (simp add: e40_csrs_9_def csr_def)
  ultimately show ?thesis by (simp add: e40_csrs_def find_skip find_hit)
qed

text \<open>The entry after the lower half of a counter carries the name of the lower half as well.\<close>

lemma find_128to255_lo:
  "find (\<lambda>c. csr_name c = ''CNTR_TX_128to255B_LO'') e40_csrs = Some (e40_csrs_3 ! 8)"
proof -
  have "lacks ''CNTR_TX_128to255B_LO'' e40_csrs_0" "lacks ''CNTR_TX_128to255B_LO'' e40_csrs_1"
    "lacks ''CNTR_TX_128to255B_LO'' e40_csrs_2"
    by (simp_all add: lacks_def e40_chunks csr_def)
  moreover have "find (\<lambda>c. csr_name c = ''CNTR_TX_128to255B_LO'') e40_csrs_3 = Some (e40_csrs_3 ! 8)"
    by (simp add: e40_csrs_3_def csr_def)
  ultimately show ?thesis by (simp add: e40_csrs_def find_skip find_hit)
qed

lemma find_128to255_hi: "find (\<lambda>c. csr_name c = ''CNTR_TX_128to255B_HI'') e40_csrs = None"
proof -
  have "lacks ''CNTR_TX_128to255B_HI'' e40_csrs_0" "lacks ''CNTR_TX_128to255B_HI'' e40_csrs_1"
    "lacks ''CNTR_TX_128to255B_HI'' e40_csrs_2" "lacks ''CNTR_TX_128to255B_HI'' e40_csrs_3"
    "lacks ''CNTR_TX_128to255B_HI'' e40_csrs_4" "lacks ''CNTR_TX_128to255B_HI'' e40_csrs_5"
    "lacks ''CNTR_TX_128to255B_HI'' e40_csrs_6" "lacks ''CNTR_TX_128to255B_HI'' e40_csrs_7"
    "lacks ''CNTR_TX_128to255B_HI'' e40_csrs_8" "lacks ''CNTR_TX_128to255B_HI'' e40_csrs_9"
    "lacks ''CNTR_TX_128to255B_HI'' e40_csrs_10"
    by (simp_all add: lacks_def e40_chunks csr_def)
  then show ?thesis by (simp add: e40_csrs_def find_skip lacks_none)
qed

lemma csr_128to255:
  "csr_name (e40_csrs_3 ! 9) = ''CNTR_TX_128to255B_LO''" "csr_offset (e40_csrs_3 ! 9) = 0x081B"
  "csr_offset (e40_csrs_3 ! 8) = 0x081A" "e40_csrs_3 ! 9 \<in> set e40_csrs"
  by (simp_all add: e40_csrs_def e40_csrs_3_def csr_def)

end
