(* ===== verification/Opae.thy ===== *)
theory Opae
  imports Prelude
begin

text \<open>
  The boundary of the program: the OPAE driver library, the C library and the operating system, as
  functions on an abstract state \<open>'h\<close> of the hardware and the system. The record \<open>opae\<close> holds one
  field per external function that the sources call; nothing is assumed about them here. The world
  also carries the number of live heap blocks and the history of the externally visible actions,
  which the lemmas use to say what the program did and in which order.
\<close>

text \<open>The result codes of the driver library.\<close>

datatype fpga_result = FPGA_OK | FPGA_INVALID_PARAM | FPGA_BUSY | FPGA_EXCEPTION | FPGA_NOT_FOUND
  | FPGA_NO_MEMORY | FPGA_NOT_SUPPORTED | FPGA_NO_DRIVER | FPGA_NO_DAEMON | FPGA_NO_ACCESS
  | FPGA_RECONF_ERROR

text \<open>
  Visible actions: register accesses through the driver, loads and stores through a mapped pointer,
  delays, and the acquisition and release of resources.
\<close>

datatype hw_event =
  EvWrite u64 u64
| EvRead u64
| EvStore u64 u64
| EvLoad u64
| EvSleep
| EvMap
| EvUnmap
| EvPrepare u64
| EvRelease u64
| EvOpen
| EvClose

text \<open>
  Handles, tokens, workspace ids and pointers are 64-bit values with 0 for \<^verbatim>\<open>NULL\<close>. A function that
  fills an output variable returns the value it stores; the caller keeps the old value when the
  result code is not \<open>FPGA_OK\<close>, except where the source ignores the code.
  \<open>x_frame_tail\<close> are the three bytes that follow a connection frame on the stack and
  \<open>x_lb_tail\<close> the four bytes that follow the argument of \<^verbatim>\<open>set_lb\<close>. \<open>x_int_shl\<close> is the value the
  compiled code gives to a shift of an \<^verbatim>\<open>int\<close> by 32 or more.
\<close>

record 'h opae =
  x_ReadMMIO64 :: "u64 \<Rightarrow> u64 \<Rightarrow> 'h \<Rightarrow> (fpga_result \<times> u64) \<times> 'h"
  x_WriteMMIO64 :: "u64 \<Rightarrow> u64 \<Rightarrow> u64 \<Rightarrow> 'h \<Rightarrow> fpga_result \<times> 'h"
  x_MapMMIO :: "u64 \<Rightarrow> 'h \<Rightarrow> (fpga_result \<times> u64) \<times> 'h"
  x_UnmapMMIO :: "u64 \<Rightarrow> 'h \<Rightarrow> 'h"
  x_load64 :: "u64 \<Rightarrow> 'h \<Rightarrow> u64 \<times> 'h"
  x_store64 :: "u64 \<Rightarrow> u64 \<Rightarrow> 'h \<Rightarrow> 'h"
  x_PrepareBuffer :: "u64 \<Rightarrow> u64 \<Rightarrow> u64 \<Rightarrow> 'h \<Rightarrow> (fpga_result \<times> u64) \<times> 'h"
  x_GetIOAddress :: "u64 \<Rightarrow> u64 \<Rightarrow> 'h \<Rightarrow> (fpga_result \<times> u64) \<times> 'h"
  x_ReleaseBuffer :: "u64 \<Rightarrow> u64 \<Rightarrow> 'h \<Rightarrow> 'h"
  x_GetProperties :: "'h \<Rightarrow> (fpga_result \<times> u64) \<times> 'h"
  x_SetObjectType :: "u64 \<Rightarrow> 'h \<Rightarrow> fpga_result \<times> 'h"
  x_SetGUID :: "u64 \<Rightarrow> u8 list \<Rightarrow> 'h \<Rightarrow> fpga_result \<times> 'h"
  x_SetBus :: "u64 \<Rightarrow> int \<Rightarrow> 'h \<Rightarrow> fpga_result \<times> 'h"
  x_Enumerate :: "u64 \<Rightarrow> 'h \<Rightarrow> (fpga_result \<times> u64 \<times> u32) \<times> 'h"
  x_DestroyProperties :: "u64 \<Rightarrow> 'h \<Rightarrow> fpga_result \<times> 'h"
  x_Open :: "u64 \<Rightarrow> 'h \<Rightarrow> (fpga_result \<times> u64) \<times> 'h"
  x_DestroyToken :: "u64 \<Rightarrow> 'h \<Rightarrow> fpga_result \<times> 'h"
  x_Close :: "u64 \<Rightarrow> 'h \<Rightarrow> 'h"
  x_mmap :: "u64 \<Rightarrow> bool \<Rightarrow> 'h \<Rightarrow> u64 \<times> 'h"
  x_malloc :: "u64 \<Rightarrow> 'h \<Rightarrow> bool \<times> 'h"
  x_sleep :: "nat \<Rightarrow> 'h \<Rightarrow> 'h"
  x_getpagesize :: u64
  x_uuid_parse :: "string \<Rightarrow> u8 list \<times> bool"
  x_strcmp_s :: "string \<Rightarrow> nat \<Rightarrow> string \<Rightarrow> int"
  x_frame_tail :: "'h \<Rightarrow> u8 list"
  x_lb_tail :: "'h \<Rightarrow> u32"
  x_int_shl :: "u8 \<Rightarrow> nat \<Rightarrow> u32"

record 'h world =
  hw :: 'h
  heap_blocks :: nat
  evs :: "hw_event list"

section \<open>Calls\<close>

definition xcall :: "hw_event list \<Rightarrow> ('h \<Rightarrow> 'a \<times> 'h) \<Rightarrow> ('h world, 'r, 'a) body" where
  "xcall es f = (\<lambda>w. case f (hw w) of (a, h) \<Rightarrow> (Done a, w\<lparr>hw := h, evs := evs w @ es\<rparr>))"

definition xdo :: "hw_event list \<Rightarrow> ('h \<Rightarrow> 'h) \<Rightarrow> ('h world, 'r, unit) body" where
  "xdo es f = (\<lambda>w. (Done (), w\<lparr>hw := f (hw w), evs := evs w @ es\<rparr>))"

definition fpgaReadMMIO64 :: "'h opae \<Rightarrow> u64 \<Rightarrow> u64 \<Rightarrow> ('h world, 'r, fpga_result \<times> u64) body" where
  "fpgaReadMMIO64 x fpga a = xcall [EvRead a] (x_ReadMMIO64 x fpga a)"

definition fpgaWriteMMIO64 :: "'h opae \<Rightarrow> u64 \<Rightarrow> u64 \<Rightarrow> u64 \<Rightarrow> ('h world, 'r, fpga_result) body" where
  "fpgaWriteMMIO64 x fpga a v = xcall [EvWrite a v] (x_WriteMMIO64 x fpga a v)"

definition fpgaMapMMIO :: "'h opae \<Rightarrow> u64 \<Rightarrow> ('h world, 'r, fpga_result \<times> u64) body" where
  "fpgaMapMMIO x fpga = (\<lambda>w. case x_MapMMIO x fpga (hw w) of ((res, p), h) \<Rightarrow>
     (Done (res, p), w\<lparr>hw := h, evs := evs w @ (if res = FPGA_OK then [EvMap] else [])\<rparr>))"

definition fpgaUnmapMMIO :: "'h opae \<Rightarrow> u64 \<Rightarrow> ('h world, 'r, unit) body" where
  "fpgaUnmapMMIO x fpga = xdo [EvUnmap] (x_UnmapMMIO x fpga)"

definition load64 :: "'h opae \<Rightarrow> u64 \<Rightarrow> ('h world, 'r, u64) body" where
  "load64 x a = xcall [EvLoad a] (x_load64 x a)"

definition store64 :: "'h opae \<Rightarrow> u64 \<Rightarrow> u64 \<Rightarrow> ('h world, 'r, unit) body" where
  "store64 x a v = xdo [EvStore a v] (x_store64 x a v)"

definition fpgaPrepareBuffer :: "'h opae \<Rightarrow> u64 \<Rightarrow> u64 \<Rightarrow> u64 \<Rightarrow> ('h world, 'r, fpga_result \<times> u64) body" where
  "fpgaPrepareBuffer x fpga len buf = xcall [EvPrepare buf] (x_PrepareBuffer x fpga len buf)"

definition fpgaGetIOAddress :: "'h opae \<Rightarrow> u64 \<Rightarrow> u64 \<Rightarrow> ('h world, 'r, fpga_result \<times> u64) body" where
  "fpgaGetIOAddress x fpga wsid = xcall [] (x_GetIOAddress x fpga wsid)"

definition fpgaReleaseBuffer :: "'h opae \<Rightarrow> u64 \<Rightarrow> u64 \<Rightarrow> ('h world, 'r, unit) body" where
  "fpgaReleaseBuffer x fpga wsid = xdo [EvRelease wsid] (x_ReleaseBuffer x fpga wsid)"

definition fpgaOpen :: "'h opae \<Rightarrow> u64 \<Rightarrow> ('h world, 'r, fpga_result \<times> u64) body" where
  "fpgaOpen x token = xcall [EvOpen] (x_Open x token)"

definition fpgaClose :: "'h opae \<Rightarrow> u64 \<Rightarrow> ('h world, 'r, unit) body" where
  "fpgaClose x fpga = xdo [EvClose] (x_Close x fpga)"

definition delay_us :: "'h opae \<Rightarrow> nat \<Rightarrow> ('h world, 'r, unit) body" where
  "delay_us x us = xdo [EvSleep] (x_sleep x us)"

definition sleep_s :: "'h opae \<Rightarrow> nat \<Rightarrow> ('h world, 'r, unit) body" where
  "sleep_s x n = delay_us x (n * 1000000)"

definition malloc :: "'h opae \<Rightarrow> u64 \<Rightarrow> ('h world, 'r, bool) body" where
  "malloc x n = (\<lambda>w. case x_malloc x n (hw w) of (ok, h) \<Rightarrow>
     (Done ok, w\<lparr>hw := h, heap_blocks := (if ok then Suc (heap_blocks w) else heap_blocks w)\<rparr>))"

definition free_block :: "('h world, 'r, unit) body" where
  "free_block = modifyM (\<lambda>w. w\<lparr>heap_blocks := heap_blocks w - 1\<rparr>)"

section \<open>Rules\<close>

lemma wp_xcall [wp_rules]:
  "wp (xcall es f) Q w = (case f (hw w) of (a, h) \<Rightarrow> Q (Done a) (w\<lparr>hw := h, evs := evs w @ es\<rparr>))"
  by (simp add: wp_def xcall_def split: prod.split)

lemma wp_xdo [wp_rules]: "wp (xdo es f) Q w = Q (Done ()) (w\<lparr>hw := f (hw w), evs := evs w @ es\<rparr>)"
  by (simp add: wp_def xdo_def)

lemma wp_fpgaMapMMIO [wp_rules]:
  "wp (fpgaMapMMIO x fpga) Q w = (case x_MapMMIO x fpga (hw w) of ((res, p), h) \<Rightarrow>
     Q (Done (res, p)) (w\<lparr>hw := h, evs := evs w @ (if res = FPGA_OK then [EvMap] else [])\<rparr>))"
  by (simp add: wp_def fpgaMapMMIO_def split: prod.split)

lemma wp_malloc [wp_rules]:
  "wp (malloc x n) Q w = (case x_malloc x n (hw w) of (ok, h) \<Rightarrow>
     Q (Done ok) (w\<lparr>hw := h, heap_blocks := (if ok then Suc (heap_blocks w) else heap_blocks w)\<rparr>))"
  by (simp add: wp_def malloc_def split: prod.split)

lemmas x_defs = fpgaReadMMIO64_def fpgaWriteMMIO64_def fpgaUnmapMMIO_def load64_def store64_def
  fpgaPrepareBuffer_def fpgaGetIOAddress_def fpgaReleaseBuffer_def fpgaOpen_def fpgaClose_def
  delay_us_def sleep_s_def free_block_def

section \<open>Objects beside the world\<close>

text \<open>A body on the world, run as part of a method of an object.\<close>

definition on_world :: "('h world, 'r, 'a) body \<Rightarrow> ('n \<times> 'h world, 'r, 'a) body" where
  "on_world m = (\<lambda>(n, w). case m w of (x, w') \<Rightarrow> (x, (n, w')))"

lemma wp_on_world [wp_rules]: "wp (on_world m) Q (n, w) = wp m (\<lambda>x w'. Q x (n, w')) w"
  by (simp add: wp_def on_world_def split: prod.split)

definition get_obj :: "('n \<Rightarrow> 'a) \<Rightarrow> ('n \<times> 'h world, 'r, 'a) body" where
  "get_obj f = gets (\<lambda>s. f (fst s))"

definition upd_obj :: "('n \<Rightarrow> 'n) \<Rightarrow> ('n \<times> 'h world, 'r, unit) body" where
  "upd_obj f = modifyM (\<lambda>s. (f (fst s), snd s))"

definition assert_obj :: "('n \<Rightarrow> bool) \<Rightarrow> ('n \<times> 'h world, 'r, unit) body" where
  "assert_obj p = assertM (\<lambda>s. p (fst s))"

lemma wp_get_obj [wp_rules]: "wp (get_obj f) Q (n, w) = Q (Done (f n)) (n, w)"
  by (simp add: get_obj_def wp_gets)

lemma wp_upd_obj [wp_rules]: "wp (upd_obj f) Q (n, w) = Q (Done ()) (f n, w)"
  by (simp add: upd_obj_def wp_modifyM)

lemma wp_assert_obj [wp_rules]:
  "wp (assert_obj p) Q (n, w) = (if p n then Q (Done ()) (n, w) else Q Abort (n, w))"
  by (simp add: assert_obj_def wp_assertM)

section \<open>Example\<close>

text \<open>
  An environment in which every call succeeds without effect on the state. The concrete
  environments of the examples are updates of it.
\<close>

definition quiet :: "'h opae" where
  "quiet = \<lparr>x_ReadMMIO64 = (\<lambda>_ _ h. ((FPGA_OK, 0), h)),
     x_WriteMMIO64 = (\<lambda>_ _ _ h. (FPGA_OK, h)),
     x_MapMMIO = (\<lambda>_ h. ((FPGA_OK, 0x10000), h)),
     x_UnmapMMIO = (\<lambda>_ h. h),
     x_load64 = (\<lambda>_ h. (0, h)),
     x_store64 = (\<lambda>_ _ h. h),
     x_PrepareBuffer = (\<lambda>_ _ _ h. ((FPGA_OK, 7), h)),
     x_GetIOAddress = (\<lambda>_ _ h. ((FPGA_OK, 0xaf000000), h)),
     x_ReleaseBuffer = (\<lambda>_ _ h. h),
     x_GetProperties = (\<lambda>h. ((FPGA_OK, 1), h)),
     x_SetObjectType = (\<lambda>_ h. (FPGA_OK, h)),
     x_SetGUID = (\<lambda>_ _ h. (FPGA_OK, h)),
     x_SetBus = (\<lambda>_ _ h. (FPGA_OK, h)),
     x_Enumerate = (\<lambda>_ h. ((FPGA_OK, 1, 1), h)),
     x_DestroyProperties = (\<lambda>_ h. (FPGA_OK, h)),
     x_Open = (\<lambda>_ h. ((FPGA_OK, 5), h)),
     x_DestroyToken = (\<lambda>_ h. (FPGA_OK, h)),
     x_Close = (\<lambda>_ h. h),
     x_mmap = (\<lambda>_ _ h. (0x7f0000000000, h)),
     x_malloc = (\<lambda>_ h. (True, h)),
     x_sleep = (\<lambda>_ h. h),
     x_getpagesize = 4096,
     x_uuid_parse = (\<lambda>_. (replicate 16 0, True)),
     x_strcmp_s = (\<lambda>a _ b. if a = b then 0 else 1),
     x_frame_tail = (\<lambda>_. [0, 0, 0]),
     x_lb_tail = (\<lambda>_. 0),
     x_int_shl = (\<lambda>_ _. 0)\<rparr>"

end
