(* ===== verification/Hssi.thy ===== *)
theory Hssi
  imports Hssi_Csrs Opae
begin

text \<open>
  The driver of the Ethernet transceiver (\<^verbatim>\<open>fpga_hssi_common.c\<close>, \<^verbatim>\<open>fpga_hssi_e40.c\<close>): opening and
  closing the handle, lookups in the register table, and the commands it sends through the
  management window of the accelerator. The window's hardware side (\<^verbatim>\<open>eth_e2e_e40.v\<close>,
  \<^verbatim>\<open>ethernet_mac.sv\<close>) is a transaction-level device, to which the effect of the commands is
  related by a simulation.
\<close>

section \<open>Handle and command words\<close>

text \<open>The array of entry pointers and its length are one list.\<close>

record hssi_handle =
  h_fpga :: u64
  h_csrs :: "hssi_csr list"
  h_dfl :: u64

text \<open>Byte offsets of the fields of \<^verbatim>\<open>struct afu_dfl\<close> that the driver uses.\<close>

definition dfl_afu_id_lo :: u64 where "dfl_afu_id_lo = 8"
definition dfl_afu_id_hi :: u64 where "dfl_afu_id_hi = 16"
definition dfl_eth_ctrl_addr :: u64 where "dfl_eth_ctrl_addr = 48"
definition dfl_eth_wr_data :: u64 where "dfl_eth_wr_data = 56"
definition dfl_eth_rd_data :: u64 where "dfl_eth_rd_data = 64"

lemmas dfl_defs = dfl_afu_id_lo_def dfl_afu_id_hi_def dfl_eth_ctrl_addr_def dfl_eth_wr_data_def
  dfl_eth_rd_data_def

definition PR_READ_CMD :: u64 where "PR_READ_CMD = push_bit 17 1"
definition PR_WRITE_CMD :: u64 where "PR_WRITE_CMD = push_bit 16 1"

datatype pr_mgmt_cmd = PR_MGMT_SCRATCH | PR_MGMT_RST | PR_MGMT_STATUS | PR_MGMT_STATUS_WR_DATA
  | PR_MGMT_STATUS_RD_DATA | PR_MGMT_PORT_SEL | PR_MGMT_SLOOP | PR_MGMT_LOCK_STATUS
  | PR_MGMT_I2C_SEL_WDATA | PR_MGMT_I2C_SEL_RDATA | PR_MGMT_ETH_CTRL | PR_MGMT_ETH_WR_DATA
  | PR_MGMT_ETH_RD_DATA | PR_MGMT_ERR_INIT_DONE

fun cmd_code :: "pr_mgmt_cmd \<Rightarrow> u64" where
  "cmd_code PR_MGMT_SCRATCH = 0x0"
| "cmd_code PR_MGMT_RST = 0x1"
| "cmd_code PR_MGMT_STATUS = 0x2"
| "cmd_code PR_MGMT_STATUS_WR_DATA = 0x3"
| "cmd_code PR_MGMT_STATUS_RD_DATA = 0x4"
| "cmd_code PR_MGMT_PORT_SEL = 0x5"
| "cmd_code PR_MGMT_SLOOP = 0x6"
| "cmd_code PR_MGMT_LOCK_STATUS = 0x7"
| "cmd_code PR_MGMT_I2C_SEL_WDATA = 0x8"
| "cmd_code PR_MGMT_I2C_SEL_RDATA = 0x9"
| "cmd_code PR_MGMT_ETH_CTRL = 0xa"
| "cmd_code PR_MGMT_ETH_WR_DATA = 0xb"
| "cmd_code PR_MGMT_ETH_RD_DATA = 0xc"
| "cmd_code PR_MGMT_ERR_INIT_DONE = 0xd"

definition NUM_ETH_CHANNELS :: u32 where "NUM_ETH_CHANNELS = 1"

text \<open>
  The data word is a union of the raw register and bit-field views of it; assigning a field of
  width \<open>n\<close> at position \<open>i\<close> keeps the other bits.
\<close>

definition set_field :: "nat \<Rightarrow> nat \<Rightarrow> u64 \<Rightarrow> u64 \<Rightarrow> u64" where
  "set_field i n v reg = (reg AND NOT (push_bit i (mask n))) OR push_bit i (take_bit n v)"

definition rst_reset_async :: "u64 \<Rightarrow> u64 \<Rightarrow> u64" where "rst_reset_async = set_field 0 1"
definition rst_reset_status :: "u64 \<Rightarrow> u64 \<Rightarrow> u64" where "rst_reset_status = set_field 1 1"
definition status_addr :: "u64 \<Rightarrow> u64 \<Rightarrow> u64" where "status_addr = set_field 0 16"
definition status_wr :: "u64 \<Rightarrow> u64 \<Rightarrow> u64" where "status_wr = set_field 16 1"
definition status_rd :: "u64 \<Rightarrow> u64 \<Rightarrow> u64" where "status_rd = set_field 17 1"
definition eth_traff_addr :: "u64 \<Rightarrow> u64 \<Rightarrow> u64" where "eth_traff_addr = set_field 0 16"
definition eth_traff_wr :: "u64 \<Rightarrow> u64 \<Rightarrow> u64" where "eth_traff_wr = set_field 16 1"

lemmas field_defs = rst_reset_async_def rst_reset_status_def status_addr_def status_wr_def
  status_rd_def eth_traff_addr_def eth_traff_wr_def set_field_def

section \<open>Common functions\<close>

text \<open>The in-place swap loop over the sixteen bytes of a GUID.\<close>

definition byte_reverse :: "u8 list \<Rightarrow> u8 list" where
  "byte_reverse guid = fold (\<lambda>i g. g[16 - i - 1 := g ! i, i := g ! (16 - i - 1)]) [0..<8] guid"

text \<open>What \<^verbatim>\<open>repeat\<close> prints.\<close>

definition repeat :: "char \<Rightarrow> int \<Rightarrow> string" where
  "repeat c cnt = replicate (nat cnt) c @ [CHR 0x0A]"

text \<open>
  A null handle is \<open>None\<close>; the flags say whether the output pointers are not null. The results are
  what is stored through them.
\<close>

definition fpgaHssiEnumerateCsr ::
  "hssi_handle option \<Rightarrow> bool \<Rightarrow> bool \<Rightarrow> fpga_result \<times> (hssi_csr list \<times> u64) option" where
  "fpgaHssiEnumerateCsr hssi csrs_p count = (case hssi of
     None \<Rightarrow> (FPGA_INVALID_PARAM, None)
   | Some h \<Rightarrow>
       if \<not> count then (FPGA_INVALID_PARAM, None)
       else if \<not> csrs_p then (FPGA_INVALID_PARAM, None)
       else (FPGA_OK, Some (h_csrs h, of_nat (length (h_csrs h)))))"

fun filter_by_name :: "'h opae \<Rightarrow> string \<Rightarrow> hssi_csr list \<Rightarrow> hssi_csr option" where
  "filter_by_name x name [] = None"
| "filter_by_name x name (c # cs) =
     (let indicator = x_strcmp_s x name 256 (csr_name c) in
      if indicator = 0 then Some c else filter_by_name x name cs)"

definition fpgaHssiFilterCsrByName ::
  "'h opae \<Rightarrow> hssi_handle option \<Rightarrow> string \<Rightarrow> bool \<Rightarrow> fpga_result \<times> hssi_csr option" where
  "fpgaHssiFilterCsrByName x hssi name csr_p = (case hssi of
     None \<Rightarrow> (FPGA_INVALID_PARAM, None)
   | Some h \<Rightarrow>
       if \<not> csr_p then (FPGA_INVALID_PARAM, None)
       else (case filter_by_name x name (h_csrs h) of
           Some c \<Rightarrow> (FPGA_OK, Some c)
         | None \<Rightarrow> (FPGA_NOT_FOUND, None)))"

fun filter_by_offset :: "u64 \<Rightarrow> hssi_csr list \<Rightarrow> hssi_csr option" where
  "filter_by_offset off [] = None"
| "filter_by_offset off (c # cs) =
     (if off = ucast (csr_offset c) then Some c else filter_by_offset off cs)"

definition fpgaHssiFilterCsrByOffset ::
  "hssi_handle option \<Rightarrow> u64 \<Rightarrow> bool \<Rightarrow> fpga_result \<times> hssi_csr option" where
  "fpgaHssiFilterCsrByOffset hssi off csr_p = (case hssi of
     None \<Rightarrow> (FPGA_INVALID_PARAM, None)
   | Some h \<Rightarrow>
       if \<not> csr_p then (FPGA_INVALID_PARAM, None)
       else (case filter_by_offset off (h_csrs h) of
           Some c \<Rightarrow> (FPGA_OK, Some c)
         | None \<Rightarrow> (FPGA_NOT_FOUND, None)))"

section \<open>Management window\<close>

definition prMgmtWrite :: "'h opae \<Rightarrow> u64 \<Rightarrow> pr_mgmt_cmd \<Rightarrow> u64 \<Rightarrow> ('h world, 'r, unit) body" where
  "prMgmtWrite x dfl cmd data =
     bnd (store64 x (dfl + dfl_eth_wr_data) data) (\<lambda>_.
     bnd (store64 x (dfl + dfl_eth_ctrl_addr) (PR_WRITE_CMD OR cmd_code cmd)) (\<lambda>_.
     store64 x (dfl + dfl_eth_ctrl_addr) 0))"

definition prMgmtRead :: "'h opae \<Rightarrow> u64 \<Rightarrow> pr_mgmt_cmd \<Rightarrow> ('h world, 'r, u64) body" where
  "prMgmtRead x dfl cmd =
     bnd (store64 x (dfl + dfl_eth_ctrl_addr) (PR_READ_CMD OR cmd_code cmd)) (\<lambda>_.
     bnd (delay_us x 10) (\<lambda>_.
     bnd (load64 x (dfl + dfl_eth_rd_data)) (\<lambda>reg.
     bnd (store64 x (dfl + dfl_eth_ctrl_addr) 0) (\<lambda>_.
     ret reg))))"

section \<open>Opening and closing\<close>

text \<open>
  \<open>afu_id\<close> is the \<^verbatim>\<open>E40_AFU_ID\<close> string of the generated \<^verbatim>\<open>afu_json_info.h\<close>. The result carries the
  handle that is stored through \<^verbatim>\<open>hssi\<close> on success. The error labels of the source free what has
  been allocated so far.
\<close>

definition memcmp8 :: "u8 list \<Rightarrow> u64 \<Rightarrow> bool" where
  "memcmp8 bytes reg \<longleftrightarrow> take 8 bytes \<noteq> le_enc 8 reg"

definition fpgaHssiOpen ::
  "'h opae \<Rightarrow> string \<Rightarrow> u64 \<Rightarrow> bool \<Rightarrow> ('h world, fpga_result \<times> hssi_handle option, fpga_result \<times> hssi_handle option) body" where
  "fpgaHssiOpen x afu_id fpga hssi =
     bnd (whenM (fpga = 0) (exit_with (FPGA_INVALID_PARAM, None))) (\<lambda>_.
     bnd (whenM (\<not> hssi) (exit_with (FPGA_INVALID_PARAM, None))) (\<lambda>_.
     let (guid, parsed) = x_uuid_parse x afu_id in
     bnd (whenM (\<not> parsed) (exit_with (FPGA_EXCEPTION, None))) (\<lambda>_.
     bnd (malloc x 40) (\<lambda>h.
     bnd (whenM (\<not> h) (exit_with (FPGA_NO_MEMORY, None))) (\<lambda>_.
     bnd (malloc x (8 * of_nat (length e40_csrs))) (\<lambda>csrs.
     bnd (whenM (\<not> csrs) (bnd free_block (\<lambda>_. exit_with (FPGA_NO_MEMORY, None)))) (\<lambda>_.
     bnd (fpgaMapMMIO x fpga) (\<lambda>(res, mmio_ptr).
     bnd (whenM (res \<noteq> FPGA_OK) (bnd free_block (\<lambda>_. bnd free_block (\<lambda>_. exit_with (res, None))))) (\<lambda>_.
     let guid' = byte_reverse guid in
     bnd (load64 x (mmio_ptr + dfl_afu_id_lo)) (\<lambda>lo.
     bnd (if memcmp8 guid' lo then ret True
          else bnd (load64 x (mmio_ptr + dfl_afu_id_hi)) (\<lambda>hi. ret (memcmp8 (drop 8 guid') hi))) (\<lambda>differ.
     bnd (whenM differ (bnd (fpgaUnmapMMIO x fpga) (\<lambda>_. bnd free_block (\<lambda>_. bnd free_block (\<lambda>_.
          exit_with (FPGA_EXCEPTION, None)))))) (\<lambda>_.
     ret (FPGA_OK, Some \<lparr>h_fpga = fpga, h_csrs = e40_csrs, h_dfl = mmio_ptr\<rparr>)))))))))))))"

definition fpgaHssiClose :: "'h opae \<Rightarrow> hssi_handle option \<Rightarrow> ('h world, 'r, fpga_result) body" where
  "fpgaHssiClose x hssi = (case hssi of
     None \<Rightarrow> ret FPGA_INVALID_PARAM
   | Some h \<Rightarrow>
       bnd (fpgaUnmapMMIO x (h_fpga h)) (\<lambda>_.
       bnd free_block (\<lambda>_.
       bnd free_block (\<lambda>_.
       ret FPGA_OK))))"

section \<open>Register access\<close>

definition fpgaHssiWriteCsr64 ::
  "'h opae \<Rightarrow> hssi_handle option \<Rightarrow> hssi_csr option \<Rightarrow> u64 \<Rightarrow> ('h world, 'r, fpga_result) body" where
  "fpgaHssiWriteCsr64 x hssi c val = (case (hssi, c) of
     (Some h, Some r) \<Rightarrow>
       bnd (prMgmtWrite x (h_dfl h) PR_MGMT_STATUS_WR_DATA val) (\<lambda>_.
       bnd (prMgmtWrite x (h_dfl h) PR_MGMT_STATUS
              (status_wr 1 (status_addr (ucast (csr_offset r)) 0))) (\<lambda>_.
       ret FPGA_OK))
   | _ \<Rightarrow> ret FPGA_INVALID_PARAM)"

text \<open>The read does not check its register for null.\<close>

definition fpgaHssiReadCsr64 ::
  "'h opae \<Rightarrow> hssi_handle option \<Rightarrow> hssi_csr option \<Rightarrow> ('h world, 'r, fpga_result \<times> u64 option) body" where
  "fpgaHssiReadCsr64 x hssi c = (case hssi of
     None \<Rightarrow> ret (FPGA_INVALID_PARAM, None)
   | Some h \<Rightarrow> (case c of
       None \<Rightarrow> bnd (guardM (\<lambda>_. False)) (\<lambda>_. ret (FPGA_OK, None))
     | Some r \<Rightarrow>
         bnd (prMgmtWrite x (h_dfl h) PR_MGMT_STATUS
                (status_rd 1 (status_addr (ucast (csr_offset r)) 0))) (\<lambda>_.
         bnd (prMgmtRead x (h_dfl h) PR_MGMT_STATUS_RD_DATA) (\<lambda>rd_data.
         ret (FPGA_OK, Some rd_data)))))"

definition fpgaHssiReset :: "'h opae \<Rightarrow> hssi_handle option \<Rightarrow> ('h world, 'r, fpga_result) body" where
  "fpgaHssiReset x hssi = (case hssi of
     None \<Rightarrow> ret FPGA_INVALID_PARAM
   | Some h \<Rightarrow>
       let wr_data = rst_reset_status 1 (rst_reset_async 1 0);
           wr_data' = rst_reset_status 0 (rst_reset_async 0 wr_data) in
       bnd (prMgmtWrite x (h_dfl h) PR_MGMT_RST wr_data) (\<lambda>_.
       bnd (prMgmtWrite x (h_dfl h) PR_MGMT_RST wr_data') (\<lambda>_.
       ret FPGA_OK)))"

definition fpgaHssiCtrlLoopback ::
  "'h opae \<Rightarrow> hssi_handle option \<Rightarrow> u32 \<Rightarrow> bool \<Rightarrow> ('h world, 'r, fpga_result) body" where
  "fpgaHssiCtrlLoopback x hssi channel_num loopback_en =
     (if hssi = None then ret FPGA_INVALID_PARAM
      else case snd (fpgaHssiFilterCsrByName x hssi ''PHY_PMA_SLOOP'' True) of
        None \<Rightarrow> ret FPGA_INVALID_PARAM
      | Some c \<Rightarrow>
          bnd (fpgaHssiWriteCsr64 x hssi (Some c) (if loopback_en then 0x3ff else 0x0)) (\<lambda>_.
          ret FPGA_OK))"

text \<open>The three status queries compare one register with the value that means yes.\<close>

definition fpgaHssiGetLoopbackStatus ::
  "'h opae \<Rightarrow> hssi_handle option \<Rightarrow> u32 \<Rightarrow> ('h world, 'r, fpga_result \<times> bool option) body" where
  "fpgaHssiGetLoopbackStatus x hssi channel_num =
     (if hssi = None then ret (FPGA_INVALID_PARAM, None)
      else case snd (fpgaHssiFilterCsrByName x hssi ''PHY_PMA_SLOOP'' True) of
        None \<Rightarrow> ret (FPGA_INVALID_PARAM, None)
      | Some c \<Rightarrow>
          bnd (fpgaHssiReadCsr64 x hssi (Some c)) (\<lambda>(_, val).
          ret (FPGA_OK, Some (val = Some 0x3ff))))"

definition fpgaHssiGetFreqLockStatus ::
  "'h opae \<Rightarrow> hssi_handle option \<Rightarrow> u32 \<Rightarrow> ('h world, 'r, fpga_result \<times> bool option) body" where
  "fpgaHssiGetFreqLockStatus x hssi channel_num =
     (if hssi = None then ret (FPGA_INVALID_PARAM, None)
      else case snd (fpgaHssiFilterCsrByName x hssi ''PHY_EIOFREQ_LOCKED'' True) of
        None \<Rightarrow> ret (FPGA_INVALID_PARAM, None)
      | Some c \<Rightarrow>
          bnd (fpgaHssiReadCsr64 x hssi (Some c)) (\<lambda>(_, val).
          ret (FPGA_OK, Some (val = Some 0xf))))"

definition fpgaHssiGetWordLockStatus ::
  "'h opae \<Rightarrow> hssi_handle option \<Rightarrow> u32 \<Rightarrow> ('h world, 'r, fpga_result \<times> bool option) body" where
  "fpgaHssiGetWordLockStatus x hssi channel_num =
     (if hssi = None then ret (FPGA_INVALID_PARAM, None)
      else case snd (fpgaHssiFilterCsrByName x hssi ''PHY_TX_PLL_LOCKED'' True) of
        None \<Rightarrow> ret (FPGA_INVALID_PARAM, None)
      | Some c \<Rightarrow>
          bnd (fpgaHssiReadCsr64 x hssi (Some c)) (\<lambda>(_, val).
          ret (FPGA_OK, Some (val = Some 0xf))))"

fun prMgmtWrites :: "'h opae \<Rightarrow> u64 \<Rightarrow> (pr_mgmt_cmd \<times> u64) list \<Rightarrow> ('h world, 'r, unit) body" where
  "prMgmtWrites x dfl [] = ret ()"
| "prMgmtWrites x dfl ((cmd, data) # ws) = bnd (prMgmtWrite x dfl cmd data) (\<lambda>_. prMgmtWrites x dfl ws)"

text \<open>Each parameter of the traffic generator is a data word followed by a write to its address.\<close>

definition traff_reg :: "u64 \<Rightarrow> u64 \<Rightarrow> (pr_mgmt_cmd \<times> u64) list" where
  "traff_reg a v = [(PR_MGMT_ETH_WR_DATA, v), (PR_MGMT_ETH_CTRL, eth_traff_addr a (eth_traff_wr 1 0))]"

definition fpgaHssiSendPacket ::
  "'h opae \<Rightarrow> hssi_handle option \<Rightarrow> u32 \<Rightarrow> u64 \<Rightarrow> ('h world, 'r, fpga_result) body" where
  "fpgaHssiSendPacket x hssi channel_num num_packets = (case hssi of
     None \<Rightarrow> ret FPGA_INVALID_PARAM
   | Some h \<Rightarrow>
       if channel_num > NUM_ETH_CHANNELS then ret FPGA_INVALID_PARAM
       else bnd (prMgmtWrites x (h_dfl h)
              (traff_reg 0x0 0xFFFFFFFF @ traff_reg 0x1 0xFFFF @ traff_reg 0x4 num_packets @
               traff_reg 0x5 1500 @ traff_reg 0x6 0 @ traff_reg 0x7 1 @ traff_reg 0x7 0)) (\<lambda>_.
            ret FPGA_OK))"

text \<open>
  The rows that are printed between the header lines. For a null handle the enumeration fails, its
  code is ignored, and the loop runs over variables that were never set.
\<close>

fun print_rows :: "'h opae \<Rightarrow> hssi_handle \<Rightarrow> hssi_csr_type_t \<Rightarrow> hssi_csr list
    \<Rightarrow> ('h world, 'r, (u32 \<times> string \<times> u64 \<times> string) list) body" where
  "print_rows x h type [] = ret []"
| "print_rows x h type (c # cs) =
     (if csr_type c = type then
        bnd (fpgaHssiReadCsr64 x (Some h) (Some c)) (\<lambda>(_, val).
        bnd (print_rows x h type cs) (\<lambda>rows.
        ret ((csr_offset c, csr_name c, the val, csr_desc c) # rows)))
      else print_rows x h type cs)"

definition fpgaHssiPrintChannelStats ::
  "'h opae \<Rightarrow> hssi_handle option \<Rightarrow> hssi_csr_type_t \<Rightarrow> u32
    \<Rightarrow> ('h world, 'r, fpga_result \<times> (u32 \<times> string \<times> u64 \<times> string) list) body" where
  "fpgaHssiPrintChannelStats x hssi type channel_num =
     (case (hssi, fpgaHssiEnumerateCsr hssi True True) of
        (Some h, (_, Some (csrs, count))) \<Rightarrow>
          bnd (print_rows x h type (take (unat count) csrs)) (\<lambda>rows. ret (FPGA_OK, rows))
      | _ \<Rightarrow> bnd (guardM (\<lambda>_. False)) (\<lambda>_. ret (FPGA_OK, [])))"

definition fpgaHssiClearChannelStats ::
  "'h opae \<Rightarrow> hssi_handle option \<Rightarrow> hssi_csr_type_t \<Rightarrow> u32 \<Rightarrow> ('h world, 'r, fpga_result) body" where
  "fpgaHssiClearChannelStats x hssi type channel_num =
     (if hssi = None then ret FPGA_INVALID_PARAM
      else if type = TX then
        (case snd (fpgaHssiFilterCsrByName x hssi ''CNTR_TX_CONFIG'' True) of
           None \<Rightarrow> ret FPGA_INVALID_PARAM
         | Some c \<Rightarrow> bnd (fpgaHssiWriteCsr64 x hssi (Some c) 1) (\<lambda>_. ret FPGA_OK))
      else if type = RX then
        (case snd (fpgaHssiFilterCsrByName x hssi ''CNTR_RX_CONFIG'' True) of
           None \<Rightarrow> ret FPGA_INVALID_PARAM
         | Some c \<Rightarrow> bnd (fpgaHssiWriteCsr64 x hssi (Some c) 1) (\<lambda>_. ret FPGA_OK))
      else ret FPGA_INVALID_PARAM)"

section \<open>The device behind the window\<close>

text \<open>
  One command of the management window of the RTL: a command word is acted on when one of its
  command bits rises, and the window is armed again when both are clear. The status port writes and
  reads the 32-bit registers of the Ethernet core; \<open>pr_core\<close> are those registers. \<open>pr_other\<close> stands
  for the read ports that the driver does not use.
\<close>

record pr_dev =
  pr_action :: bool
  pr_wr_data :: u32
  pr_addr :: u16
  pr_scratch :: u32
  pr_arst :: u32
  pr_writedata :: u32
  pr_readdata :: u32
  pr_traff_wdata :: u32
  pr_core :: "u16 \<Rightarrow> u32"
  pr_traff :: "u16 \<Rightarrow> u32"
  pr_other :: "u16 \<Rightarrow> u32"

definition pr_command :: "u32 \<Rightarrow> u16 \<Rightarrow> pr_dev \<Rightarrow> pr_dev" where
  "pr_command din addr d =
     (let a = take_bit 4 addr in
      if a = 0x0 then d\<lparr>pr_scratch := din\<rparr>
      else if a = 0x1 then d\<lparr>pr_arst := take_bit 2 din\<rparr>
      else if a = 0x2 then
        (let reg = ucast din :: u16;
             d1 = (if bit din 16 then d\<lparr>pr_core := (pr_core d)(reg := pr_writedata d)\<rparr> else d)
         in if bit din 17 then d1\<lparr>pr_readdata := pr_core d1 reg\<rparr> else d1)
      else if a = 0x3 then d\<lparr>pr_writedata := din\<rparr>
      else if a = 0xa then
        (if bit din 16 then d\<lparr>pr_traff := (pr_traff d)(ucast din := pr_traff_wdata d)\<rparr> else d)
      else if a = 0xb then d\<lparr>pr_traff_wdata := din\<rparr>
      else d)"

definition pr_store_ctrl :: "u64 \<Rightarrow> pr_dev \<Rightarrow> pr_dev" where
  "pr_store_ctrl v d =
     (let rd = bit v 17; wr = bit v 16; addr = ucast v in
      if \<not> pr_action d \<and> (rd \<or> wr) then
        (let d1 = d\<lparr>pr_action := True, pr_addr := addr\<rparr>
         in if wr then pr_command (pr_wr_data d1) addr d1 else d1)
      else if pr_action d \<and> \<not> rd \<and> \<not> wr then d\<lparr>pr_action := False\<rparr>
      else d)"

definition pr_rd_data :: "pr_dev \<Rightarrow> u64" where
  "pr_rd_data d =
     (let a = take_bit 4 (pr_addr d) in
      ucast (if a = 0x0 then pr_scratch d
        else if a = 0x1 then pr_arst d
        else if a = 0x3 then pr_writedata d
        else if a = 0x4 then pr_readdata d
        else if a = 0xb then pr_traff_wdata d
        else pr_other d a))"

text \<open>
  \<open>\<alpha>\<close> views the system state \<open>'h\<close> as such a device behind the window mapped at \<open>dfl\<close>: what is
  assumed of the hardware by the results on register accesses.
\<close>

definition pr_window :: "'h opae \<Rightarrow> u64 \<Rightarrow> ('h \<Rightarrow> pr_dev) \<Rightarrow> bool" where
  "pr_window x dfl \<alpha> \<longleftrightarrow>
     (\<forall>v h. \<alpha> (x_store64 x (dfl + dfl_eth_wr_data) v h) = (\<alpha> h)\<lparr>pr_wr_data := ucast v\<rparr>) \<and>
     (\<forall>v h. \<alpha> (x_store64 x (dfl + dfl_eth_ctrl_addr) v h) = pr_store_ctrl v (\<alpha> h)) \<and>
     (\<forall>h. fst (x_load64 x (dfl + dfl_eth_rd_data) h) = pr_rd_data (\<alpha> h)) \<and>
     (\<forall>h. \<alpha> (snd (x_load64 x (dfl + dfl_eth_rd_data) h)) = \<alpha> h) \<and>
     (\<forall>n h. \<alpha> (x_sleep x n h) = \<alpha> h)"

section \<open>Effect of the commands\<close>

text \<open>The world after a management command, whatever the hardware does with the stores.\<close>

definition after_write :: "'h opae \<Rightarrow> u64 \<Rightarrow> pr_mgmt_cmd \<Rightarrow> u64 \<Rightarrow> 'h world \<Rightarrow> 'h world" where
  "after_write x dfl cmd data w = w\<lparr>
     hw := x_store64 x (dfl + dfl_eth_ctrl_addr) 0 (x_store64 x (dfl + dfl_eth_ctrl_addr)
       (PR_WRITE_CMD OR cmd_code cmd) (x_store64 x (dfl + dfl_eth_wr_data) data (hw w))),
     evs := evs w @ [EvStore (dfl + dfl_eth_wr_data) data,
       EvStore (dfl + dfl_eth_ctrl_addr) (PR_WRITE_CMD OR cmd_code cmd),
       EvStore (dfl + dfl_eth_ctrl_addr) 0]\<rparr>"

definition after_read :: "'h opae \<Rightarrow> u64 \<Rightarrow> pr_mgmt_cmd \<Rightarrow> 'h world \<Rightarrow> u64 \<times> 'h world" where
  "after_read x dfl cmd w =
     (let h1 = x_sleep x 10 (x_store64 x (dfl + dfl_eth_ctrl_addr) (PR_READ_CMD OR cmd_code cmd) (hw w));
          (v, h2) = x_load64 x (dfl + dfl_eth_rd_data) h1
      in (v, w\<lparr>hw := x_store64 x (dfl + dfl_eth_ctrl_addr) 0 h2,
           evs := evs w @ [EvStore (dfl + dfl_eth_ctrl_addr) (PR_READ_CMD OR cmd_code cmd), EvSleep,
             EvLoad (dfl + dfl_eth_rd_data), EvStore (dfl + dfl_eth_ctrl_addr) 0]\<rparr>))"

lemma prMgmtWrite_run: "prMgmtWrite x dfl cmd data w = (Done (), after_write x dfl cmd data w)"
  by (simp add: prMgmtWrite_def run_defs x_defs xdo_def after_write_def)

lemma prMgmtRead_run:
  "prMgmtRead x dfl cmd w = (Done (fst (after_read x dfl cmd w)), snd (after_read x dfl cmd w))"
  by (simp add: prMgmtRead_def run_defs x_defs xdo_def xcall_def after_read_def Let_def case_prod_beta)

lemma code_bits:
  "bit (PR_WRITE_CMD OR cmd_code cmd) 16" "\<not> bit (PR_WRITE_CMD OR cmd_code cmd) 17"
  "bit (PR_READ_CMD OR cmd_code cmd) 17" "\<not> bit (PR_READ_CMD OR cmd_code cmd) 16"
  by (cases cmd; simp add: PR_WRITE_CMD_def PR_READ_CMD_def bit_simps)+

lemma code_addr:
  "(ucast (PR_WRITE_CMD OR cmd_code cmd) :: u16) = ucast (cmd_code cmd)"
  "(ucast (PR_READ_CMD OR cmd_code cmd) :: u16) = ucast (cmd_code cmd)"
  by (cases cmd; simp add: PR_WRITE_CMD_def PR_READ_CMD_def)+

lemma after_write_device:
  assumes "pr_window x dfl \<alpha>" and "\<not> pr_action (\<alpha> (hw w))"
  shows "\<alpha> (hw (after_write x dfl cmd data w)) = (pr_command (ucast data) (ucast (cmd_code cmd))
        ((\<alpha> (hw w))\<lparr>pr_wr_data := ucast data, pr_action := True, pr_addr := ucast (cmd_code cmd)\<rparr>))
          \<lparr>pr_action := False\<rparr>"
proof -
  have act: "pr_action (pr_command din addr d) = pr_action d" for din addr d
    by (simp add: pr_command_def Let_def)
  show ?thesis
    using assms
    by (simp add: after_write_def pr_window_def pr_store_ctrl_def Let_def code_bits code_addr act)
qed

lemma after_read_device:
  assumes "pr_window x dfl \<alpha>" and "\<not> pr_action (\<alpha> (hw w))"
  shows "fst (after_read x dfl cmd w) = pr_rd_data ((\<alpha> (hw w))\<lparr>pr_addr := ucast (cmd_code cmd)\<rparr>)"
    and "\<alpha> (hw (snd (after_read x dfl cmd w))) = (\<alpha> (hw w))\<lparr>pr_addr := ucast (cmd_code cmd)\<rparr>"
  using assms
  by (simp_all add: after_read_def pr_window_def pr_store_ctrl_def Let_def code_bits code_addr
      case_prod_beta pr_rd_data_def)

text \<open>The status command words: the register's offset with the write or the read bit.\<close>

lemma bit_set_field:
  "bit (set_field i n v reg) k \<longleftrightarrow> (if i \<le> k \<and> k < i + n then k < 64 \<and> bit v (k - i) else bit reg k)"
  by (auto simp: set_field_def bit_simps dest: bit_imp_le_length)

definition status_word :: "(u64 \<Rightarrow> u64 \<Rightarrow> u64) \<Rightarrow> hssi_csr \<Rightarrow> u64" where
  "status_word f r = f 1 (status_addr (ucast (csr_offset r)) 0)"

definition csr_addr :: "hssi_csr \<Rightarrow> u16" where
  "csr_addr r = ucast (csr_offset r)"

lemma status_words:
  "(ucast (ucast (status_word status_wr r) :: u32) :: u16) = csr_addr r"
  "bit (ucast (status_word status_wr r) :: u32) 16" "\<not> bit (ucast (status_word status_wr r) :: u32) 17"
  "(ucast (ucast (status_word status_rd r) :: u32) :: u16) = csr_addr r"
  "bit (ucast (status_word status_rd r) :: u32) 17" "\<not> bit (ucast (status_word status_rd r) :: u32) 16"
  by (auto simp: status_word_def csr_addr_def status_addr_def status_wr_def status_rd_def bit_set_field
      bit_unsigned_iff intro!: bit_word_eqI)

definition after_csr_write :: "'h opae \<Rightarrow> u64 \<Rightarrow> hssi_csr \<Rightarrow> u64 \<Rightarrow> 'h world \<Rightarrow> 'h world" where
  "after_csr_write x dfl r val w = after_write x dfl PR_MGMT_STATUS (status_word status_wr r)
     (after_write x dfl PR_MGMT_STATUS_WR_DATA val w)"

definition after_csr_read :: "'h opae \<Rightarrow> u64 \<Rightarrow> hssi_csr \<Rightarrow> 'h world \<Rightarrow> u64 \<times> 'h world" where
  "after_csr_read x dfl r w = after_read x dfl PR_MGMT_STATUS_RD_DATA
     (after_write x dfl PR_MGMT_STATUS (status_word status_rd r) w)"

lemma WriteCsr64_run:
  "fpgaHssiWriteCsr64 x (Some h) (Some r) val w = (Done FPGA_OK, after_csr_write x (h_dfl h) r val w)"
  by (simp add: fpgaHssiWriteCsr64_def run_defs prMgmtWrite_run after_csr_write_def status_word_def)

lemma ReadCsr64_run:
  "fpgaHssiReadCsr64 x (Some h) (Some r) w = (Done (FPGA_OK, Some (fst (after_csr_read x (h_dfl h) r w))),
     snd (after_csr_read x (h_dfl h) r w))"
  by (simp add: fpgaHssiReadCsr64_def run_defs prMgmtWrite_run prMgmtRead_run after_csr_read_def
      status_word_def)

lemma after_csr_write_device:
  assumes "pr_window x dfl \<alpha>" and "\<not> pr_action (\<alpha> (hw w))"
  shows "\<not> pr_action (\<alpha> (hw (after_csr_write x dfl r val w)))"
    and "pr_core (\<alpha> (hw (after_csr_write x dfl r val w))) = (pr_core (\<alpha> (hw w)))(csr_addr r := ucast val)"
proof -
  have "\<not> pr_action (\<alpha> (hw (after_write x dfl PR_MGMT_STATUS_WR_DATA val w)))"
    by (simp add: after_write_device [OF assms])
  from after_write_device [OF assms(1) this]
  show "\<not> pr_action (\<alpha> (hw (after_csr_write x dfl r val w)))"
    and "pr_core (\<alpha> (hw (after_csr_write x dfl r val w))) = (pr_core (\<alpha> (hw w)))(csr_addr r := ucast val)"
    by (simp_all add: after_csr_write_def after_write_device [OF assms] pr_command_def Let_def status_words)
qed

lemma after_csr_read_device:
  assumes "pr_window x dfl \<alpha>" and "\<not> pr_action (\<alpha> (hw w))"
  shows "\<not> pr_action (\<alpha> (hw (snd (after_csr_read x dfl r w))))"
    and "pr_core (\<alpha> (hw (snd (after_csr_read x dfl r w)))) = pr_core (\<alpha> (hw w))"
    and "fst (after_csr_read x dfl r w) = ucast (pr_core (\<alpha> (hw w)) (csr_addr r))"
proof -
  let ?w = "after_write x dfl PR_MGMT_STATUS (status_word status_rd r) w"
  have 1: "\<not> pr_action (\<alpha> (hw ?w))" by (simp add: after_write_device [OF assms])
  note r = after_read_device [OF assms(1) 1, of PR_MGMT_STATUS_RD_DATA]
  show "\<not> pr_action (\<alpha> (hw (snd (after_csr_read x dfl r w))))"
    and "pr_core (\<alpha> (hw (snd (after_csr_read x dfl r w)))) = pr_core (\<alpha> (hw w))"
    and "fst (after_csr_read x dfl r w) = ucast (pr_core (\<alpha> (hw w)) (csr_addr r))"
    by (simp_all add: after_csr_read_def r after_write_device [OF assms] pr_command_def Let_def
        status_words pr_rd_data_def)
qed


section \<open>Lookups\<close>

text \<open>The comparison function of the C library reports equality by an indicator of 0.\<close>

definition strcmp_ok :: "'h opae \<Rightarrow> bool" where
  "strcmp_ok x \<longleftrightarrow> (\<forall>a b. x_strcmp_s x a 256 b = 0 \<longleftrightarrow> a = b)"

lemma filter_by_name_find:
  "strcmp_ok x \<Longrightarrow> filter_by_name x name cs = find (\<lambda>c. csr_name c = name) cs"
  by (induction cs) (auto simp: strcmp_ok_def Let_def)

lemma filter_by_offset_find:
  "filter_by_offset off cs = find (\<lambda>c. ucast (csr_offset c) = off) cs"
  by (induction cs) auto

lemma find_unique:
  assumes "c \<in> set cs" and "\<And>d. d \<in> set cs \<Longrightarrow> f d = f c \<Longrightarrow> d = c"
  shows "find (\<lambda>d. f d = f c) cs = Some c"
  using assms
proof (induction cs)
  case (Cons d cs)
  then show ?case by (cases "f d = f c") (use Cons in auto)
qed simp

lemma u32_in_u64_inj: "(ucast (a :: u32) :: u64) = ucast b \<Longrightarrow> a = b"
proof (rule bit_word_eqI)
  fix n
  assume "(ucast a :: u64) = ucast b" "n < LENGTH(32)"
  then have "bit (ucast a :: u64) n = bit (ucast b :: u64) n" by simp
  then show "bit a n = bit b n" using \<open>n < LENGTH(32)\<close> by (simp add: bit_unsigned_iff)
qed

lemma csr_offset_inj:
  assumes "c \<in> set e40_csrs" and "d \<in> set e40_csrs" and "csr_offset c = csr_offset d"
  shows "c = d"
proof -
  have "distinct (map (unat \<circ> csr_offset) e40_csrs)"
    using offsets_increasing strict_sorted_iff by blast
  then have "inj_on (unat \<circ> csr_offset) (set e40_csrs)" by (simp add: distinct_map)
  then show ?thesis using assms by (simp add: inj_on_def)
qed

lemma csr_addr_inj:
  assumes "c \<in> set e40_csrs" and "d \<in> set e40_csrs" and "csr_addr c = csr_addr d"
  shows "c = d"
proof -
  have small: "unat (csr_offset e) = unat (csr_addr e)" if "e \<in> set e40_csrs" for e
    using offsets_bounded that by (auto simp: list_all_iff csr_addr_def unsigned_ucast_eq take_bit_nat_eq_self)
  then have "csr_offset c = csr_offset d" using assms by (simp add: word_unat_eq_iff)
  then show ?thesis using csr_offset_inj assms by simp
qed

text \<open>
  C12. In the register table of the 40G core, \<^verbatim>\<open>fpgaHssiFilterCsrByOffset\<close> finds exactly the entry
  with the given offset, and two different entries have different 16-bit addresses, so that a
  status command reaches the register it was built for.
\<close>

theorem hssi_lookup_by_offset:
  assumes "h_csrs h = e40_csrs" and "c \<in> set e40_csrs"
  shows "fpgaHssiFilterCsrByOffset (Some h) (ucast (csr_offset c)) True = (FPGA_OK, Some c)
    \<and> (\<forall>d \<in> set e40_csrs. csr_addr d = csr_addr c \<longrightarrow> d = c)"
proof -
  have "d = c" if "d \<in> set e40_csrs" "(ucast (csr_offset d) :: u64) = ucast (csr_offset c)" for d
    using csr_offset_inj that(1) assms(2) u32_in_u64_inj [OF that(2)] by blast
  then have "find (\<lambda>d. (ucast (csr_offset d) :: u64) = ucast (csr_offset c)) e40_csrs = Some c"
    using assms(2) by (intro find_unique)
  then show ?thesis
    using assms csr_addr_inj
    by (auto simp: fpgaHssiFilterCsrByOffset_def filter_by_offset_find)
qed

lemma name_found:
  assumes "strcmp_ok x" and "h_csrs h = e40_csrs" and "find (\<lambda>c. csr_name c = name) e40_csrs = Some c"
  shows "fpgaHssiFilterCsrByName x (Some h) name True = (FPGA_OK, Some c)"
  using assms by (simp add: fpgaHssiFilterCsrByName_def filter_by_name_find)



section \<open>Resources\<close>

text \<open>The number of MMIO mappings that are open according to the history.\<close>

definition mappings :: "hw_event list \<Rightarrow> int" where
  "mappings es = int (count_list es EvMap) - int (count_list es EvUnmap)"

lemma mappings_append [simp]: "mappings (es @ fs) = mappings es + mappings fs"
  by (simp add: mappings_def)

lemma mappings_simps [simp]:
  "mappings [] = 0" "mappings (EvMap # es) = 1 + mappings es" "mappings (EvUnmap # es) = mappings es - 1"
  "mappings (EvLoad a # es) = mappings es"
  by (simp_all add: mappings_def)

definition open_post :: "'h world \<Rightarrow> u64 \<Rightarrow> fpga_result \<times> hssi_handle option \<Rightarrow> 'h world \<Rightarrow> bool" where
  "open_post w fpga r w' \<longleftrightarrow> (case r of
     (FPGA_OK, Some h) \<Rightarrow> heap_blocks w' = heap_blocks w + 2 \<and> mappings (evs w') = mappings (evs w) + 1
       \<and> h_csrs h = e40_csrs \<and> h_fpga h = fpga
   | (res, None) \<Rightarrow> res \<noteq> FPGA_OK \<and> heap_blocks w' = heap_blocks w \<and> mappings (evs w') = mappings (evs w)
   | _ \<Rightarrow> False)"

lemma wp_fpgaHssiOpen:
  "wp (fpgaHssiOpen x afu_id fpga hssi) (\<lambda>y w'. (\<exists>r. (y = Done r \<or> y = Exit r) \<and> open_post w fpga r w')) w"
  by (auto simp: fpgaHssiOpen_def wp_rules x_defs open_post_def split: prod.split fpga_result.split)

text \<open>
  C15. \<^verbatim>\<open>fpgaHssiOpen\<close> does not leak: whatever the allocator and the driver answer, it returns, and
  unless it returns \<open>FPGA_OK\<close> it has released every heap block and mapping it acquired. When it
  succeeds, \<^verbatim>\<open>fpgaHssiClose\<close> on the handle releases exactly the two blocks and the one mapping
  that the handle owns.
\<close>

theorem hssi_open_close_balanced:
  "\<exists>r w'. call (fpgaHssiOpen x afu_id fpga hssi) w = (Done r :: (unit, _) outcome, w') \<and> open_post w fpga r w'
    \<and> (fst r = FPGA_OK \<longrightarrow> (\<exists>w''. fpgaHssiClose x (snd r) w' = (Done FPGA_OK :: (unit, _) outcome, w'')
         \<and> heap_blocks w'' = heap_blocks w \<and> mappings (evs w'') = mappings (evs w)))"
proof -
  obtain r w' where r: "call (fpgaHssiOpen x afu_id fpga hssi) w = (Done r :: (unit, _) outcome, w')"
    "open_post w fpga r w'"
    using wp_fpgaHssiOpen [of x afu_id fpga hssi w]
    by (cases "fpgaHssiOpen x afu_id fpga hssi w") (auto simp: wp_def call_def)
  moreover have "fst r = FPGA_OK \<longrightarrow> (\<exists>w''. fpgaHssiClose x (snd r) w' = (Done FPGA_OK :: (unit, _) outcome, w'')
         \<and> heap_blocks w'' = heap_blocks w \<and> mappings (evs w'') = mappings (evs w))"
    using r(2) by (auto simp: open_post_def fpgaHssiClose_def run_defs x_defs xdo_def
        split: prod.splits option.splits)
  ultimately show ?thesis by blast
qed

text \<open>
  C16. The swap loop of \<^verbatim>\<open>byte_reverse\<close> reverses the sixteen bytes of a GUID, so applying it twice
  restores them.
\<close>

theorem byte_reverse_rev:
  assumes "length guid = 16"
  shows "byte_reverse guid = rev guid \<and> byte_reverse (byte_reverse guid) = guid"
proof -
  have "byte_reverse (map f [0..<16]) = rev (map f [0..<16])" for f
    by (simp add: byte_reverse_def upt_rec)
  then have rev: "byte_reverse g = rev g" if "length g = 16" for g
    using that by (metis map_nth)
  show ?thesis using assms by (simp add: rev)
qed

section \<open>Examples\<close>

definition hssi_x :: "pr_dev opae" where
  "hssi_x = quiet\<lparr>
     x_store64 := (\<lambda>a v d. if a = 0x10000 + dfl_eth_wr_data then d\<lparr>pr_wr_data := ucast v\<rparr>
       else if a = 0x10000 + dfl_eth_ctrl_addr then pr_store_ctrl v d else d),
     x_load64 := (\<lambda>a d. (if a = 0x10000 + dfl_eth_rd_data then pr_rd_data d else 0, d))\<rparr>"

definition hssi_h0 :: hssi_handle where
  "hssi_h0 = \<lparr>h_fpga = 5, h_csrs = e40_csrs, h_dfl = 0x10000\<rparr>"

definition hssi_w0 :: "pr_dev world" where
  "hssi_w0 = \<lparr>hw = \<lparr>pr_action = False, pr_wr_data = 0, pr_addr = 0, pr_scratch = 0, pr_arst = 3,
      pr_writedata = 0, pr_readdata = 0, pr_traff_wdata = 0, pr_core = (\<lambda>_. 0), pr_traff = (\<lambda>_. 0),
      pr_other = (\<lambda>_. 0)\<rparr>, heap_blocks = 0, evs = []\<rparr>"

lemma hssi_x_window: "pr_window hssi_x (h_dfl hssi_h0) id"
  by (simp add: pr_window_def hssi_x_def hssi_h0_def quiet_def dfl_defs)

lemma hssi_x_strcmp: "strcmp_ok hssi_x"
  by (simp add: strcmp_ok_def hssi_x_def quiet_def)

lemma hssi_w0_idle: "\<not> pr_action (id (hw hssi_w0))"
  by (simp add: hssi_w0_def)


theorem hssi_lookup_by_offset_witness:
  "fpgaHssiFilterCsrByOffset (Some hssi_h0) (ucast (csr_offset (e40_csrs_3 ! 9))) True
     = (FPGA_OK, Some (e40_csrs_3 ! 9))"
  using hssi_lookup_by_offset [of hssi_h0, OF _ csr_128to255(4)] by (simp add: hssi_h0_def)



theorem hssi_open_close_balanced_witness:
  "\<exists>r w'. call (fpgaHssiOpen hssi_x ''id'' 5 True) hssi_w0 = (Done r :: (unit, _) outcome, w')
    \<and> open_post hssi_w0 5 r w'"
  using hssi_open_close_balanced [of hssi_x "''id''" 5 True hssi_w0] by blast

theorem byte_reverse_rev_witness:
  "byte_reverse [0, 1, 2, 3, 4, 5, 6, 7, 8, 9, 10, 11, 12, 13, 14, 15]
    = [15, 14, 13, 12, 11, 10, 9, 8, 7, 6, 5, 4, 3, 2, 1, 0]"
  using byte_reverse_rev [of "[0, 1, 2, 3, 4, 5, 6, 7, 8, 9, 10, 11, 12, 13, 14, 15]"] by simp

end
