(* ===== verification/Nic_Ccip.thy ===== *)
theory Nic_Ccip
  imports Connections Hssi
begin

text \<open>
  The base class of the CCI-P nics (\<^verbatim>\<open>nic.h\<close>, \<^verbatim>\<open>nic_ccip.h\<close>, \<^verbatim>\<open>nic_ccip.cc\<close>): the register map, the
  connection to the accelerator, initialisation, start and stop, the connection set-up protocol,
  the shared buffers and the performance counters. A method is a body over the object and the
  world; its early returns are exits with the returned code. The record of the object is extended
  by the derived classes in \<open>Nic_Modes\<close>, and all definitions here apply to every extension.
  Log messages are not modelled.
\<close>

section \<open>Register map\<close>

definition iRegMemTxAddr :: u64 where "iRegMemTxAddr = 0"
definition iRegMemRxAddr :: u64 where "iRegMemRxAddr = 8"
definition iRegNicStart :: u64 where "iRegNicStart = 16"
definition iRegNumOfFlows :: u64 where "iRegNumOfFlows = 24"
definition iRegNicInit :: u64 where "iRegNicInit = 32"
definition iRegNicStatus :: u64 where "iRegNicStatus = 40"
definition iRegCcipRps :: u64 where "iRegCcipRps = 48"
definition iRegGetPckCnt :: u64 where "iRegGetPckCnt = 56"
definition iRegPckCnt :: u64 where "iRegPckCnt = 64"
definition iRegNicMode :: u64 where "iRegNicMode = 72"
definition iRegCcipDmaTrg :: u64 where "iRegCcipDmaTrg = 80"
definition iRegRxQueueSize :: u64 where "iRegRxQueueSize = 88"
definition lRegTxBatchSize :: u64 where "lRegTxBatchSize = 96"
definition lRegRxBatchSize :: u64 where "lRegRxBatchSize = 104"
definition iRegPollingRate :: u64 where "iRegPollingRate = 112"
definition iRegConnSetupFrame :: u64 where "iRegConnSetupFrame = 120"
definition iRegConnStatus :: u64 where "iRegConnStatus = 128"
definition iRegLb :: u64 where "iRegLb = 136"
definition iRegPhyNetAddr :: u64 where "iRegPhyNetAddr = 144"
definition iRegIPv4NetAddr :: u64 where "iRegIPv4NetAddr = 152"
definition iRegNetDropCntRead :: u64 where "iRegNetDropCntRead = 160"
definition iRegNetDropCnt :: u64 where "iRegNetDropCnt = 168"
definition iRegTxQueueSize :: u64 where "iRegTxQueueSize = 176"
definition iRegDebug_0 :: u64 where "iRegDebug_0 = 184"
definition iMMIOSpaceStart :: u64 where "iMMIOSpaceStart = 256"

lemmas reg_defs = iRegMemTxAddr_def iRegMemRxAddr_def iRegNicStart_def iRegNumOfFlows_def
  iRegNicInit_def iRegNicStatus_def iRegCcipRps_def iRegGetPckCnt_def iRegPckCnt_def iRegNicMode_def
  iRegCcipDmaTrg_def iRegRxQueueSize_def lRegTxBatchSize_def lRegRxBatchSize_def iRegPollingRate_def
  iRegConnSetupFrame_def iRegConnStatus_def iRegLb_def iRegPhyNetAddr_def iRegIPv4NetAddr_def
  iRegNetDropCntRead_def iRegNetDropCnt_def iRegTxQueueSize_def iRegDebug_0_def iMMIOSpaceStart_def

definition iConstNicStart :: u64 where "iConstNicStart = 1"
definition iConstNicStop :: u64 where "iConstNicStop = 0"
definition iConstNicInit :: u64 where "iConstNicInit = 1"
definition iConstCcipMMIO :: u64 where "iConstCcipMMIO = 0"
definition iConstCcipPolling :: u64 where "iConstCcipPolling = 1"
definition iConstCcipDma :: u64 where "iConstCcipDma = 2"
definition iConstCcipQueuePolling :: u64 where "iConstCcipQueuePolling = 3"
definition iPhyNetDisabled :: u64 where "iPhyNetDisabled = 0"
definition iPhyNetEnabled :: u64 where "iPhyNetEnabled = 1"
definition iNumOfPckCnt :: nat where "iNumOfPckCnt = 5"
definition iNumOfNetworkCnt :: nat where "iNumOfNetworkCnt = 9"
definition mtu_cls :: u64 where "mtu_cls = 1"
definition mmio_cpu_nic_view :: u64 where "mmio_cpu_nic_view = 4"
definition NIC_INIT_DELAY_S :: nat where "NIC_INIT_DELAY_S = 1"
definition NIC_INIT_TIMEOUT :: nat where "NIC_INIT_TIMEOUT = 15"
definition NIC_PERF_DELAY_S :: nat where "NIC_PERF_DELAY_S = 2"
definition phy_net_channel :: u32 where "phy_net_channel = 0"

section \<open>Register layouts\<close>

record NicMode =
  ccip_mode :: u64
  phy_network_mode :: u64

definition mode_of_raw :: "u64 \<Rightarrow> NicMode" where
  "mode_of_raw raw = \<lparr>ccip_mode = take_bit 2 raw, phy_network_mode = take_bit 1 (drop_bit 2 raw)\<rparr>"

record NicHwStatus =
  st_nic_id :: u64
  st_ready :: bool
  st_running :: bool
  st_error :: bool
  st_err_rpcRxFifoOvf :: bool
  st_err_rpcTxFifoOvf :: bool
  st_err_ccip :: bool
  st_err_rpc :: bool

definition status_of_raw :: "u64 \<Rightarrow> NicHwStatus" where
  "status_of_raw raw = \<lparr>st_nic_id = take_bit 3 raw, st_ready = bit raw 3, st_running = bit raw 4,
     st_error = bit raw 5, st_err_rpcRxFifoOvf = bit raw 6, st_err_rpcTxFifoOvf = bit raw 7,
     st_err_ccip = bit raw 8, st_err_rpc = bit raw 9\<rparr>"

text \<open>Commands of the connection set-up frames and the codes of its status.\<close>

definition setUpConnId :: u8 where "setUpConnId = 0"
definition setUpOpen :: u8 where "setUpOpen = 1"
definition setUpDestIPv4 :: u8 where "setUpDestIPv4 = 2"
definition setUpDestPort :: u8 where "setUpDestPort = 3"
definition setUpClientFlowId :: u8 where "setUpClientFlowId = 4"
definition setUpEnable :: u8 where "setUpEnable = 5"
definition cOK :: u64 where "cOK = 0"
definition cAlreadyOpen :: u64 where "cAlreadyOpen = 1"
definition cIsClosed :: u64 where "cIsClosed = 2"
definition cIdWrong :: u64 where "cIdWrong = 3"
definition cClose :: u32 where "cClose = 0"
definition cOpen :: u32 where "cOpen = 1"

lemmas setup_defs = setUpConnId_def setUpOpen_def setUpDestIPv4_def setUpDestPort_def
  setUpClientFlowId_def setUpEnable_def cOpen_def cClose_def

text \<open>
  A set-up frame has five bytes: the data word and a byte with the command in its low three bits
  and zero padding above. The register write reads eight bytes from the frame's address, so the
  three bytes after the frame, \<open>tail\<close>, end up in the word as well.
\<close>

definition frame_word :: "u8 list \<Rightarrow> u32 \<Rightarrow> u8 \<Rightarrow> u64" where
  "frame_word tail data cmd = le_dec (le_enc 4 data @ [take_bit 3 cmd] @ tail)"

record ConnSetupStatus =
  cs_conn_id :: u32
  cs_valid :: bool
  cs_error_status :: u64

definition conn_status_of_raw :: "u64 \<Rightarrow> ConnSetupStatus" where
  "conn_status_of_raw raw = \<lparr>cs_conn_id = ucast raw, cs_valid = bit raw 32,
     cs_error_status = take_bit 2 (drop_bit 33 raw)\<rparr>"

section \<open>Object\<close>

record NicPerfMask =
  pm_performance :: bool
  pm_status :: bool
  pm_packet_counters :: bool
  pm_network_counters :: bool
  pm_debug_ports :: bool

record NicCCIP =
  base_nic_addr :: u64
  accel_handle :: u64
  hssi_h :: "hssi_handle option"
  connected :: bool
  initialized :: bool
  dp_configured :: bool
  started :: bool
  master_nic :: bool
  phy_network_en :: bool
  collect_perf :: bool
  perf_thread :: bool
  conn_manager :: ConnectionManager

text \<open>The constructor leaves the accelerator handle as it finds it, \<open>raw_handle\<close>.\<close>

definition mk_NicCCIP :: "u64 \<Rightarrow> u64 \<Rightarrow> u64 \<Rightarrow> bool \<Rightarrow> NicCCIP" where
  "mk_NicCCIP raw_handle base num_of_flows master = \<lparr>base_nic_addr = base, accel_handle = raw_handle,
     hssi_h = None, connected = False, initialized = False, dp_configured = False, started = False,
     master_nic = master, phy_network_en = False, collect_perf = False, perf_thread = False,
     conn_manager = mk_ConnectionManager (num_of_flows + 100)\<rparr>"

definition get_mtu_size_bytes :: u64 where
  "get_mtu_size_bytes = mtu_cls * cl_size_bytes"

type_synonym ('m, 'h, 'a) nic_method = "('m NicCCIP_scheme \<times> 'h world, int, 'a) body"

section \<open>Register access\<close>

definition nic_read :: "'h opae \<Rightarrow> u64 \<Rightarrow> ('m NicCCIP_scheme \<times> 'h world, 'r, fpga_result \<times> u64) body" where
  "nic_read x reg = bnd (get_obj (\<lambda>n. (accel_handle n, base_nic_addr n))) (\<lambda>(h, base).
     on_world (fpgaReadMMIO64 x h (base + reg)))"

definition nic_write :: "'h opae \<Rightarrow> u64 \<Rightarrow> u64 \<Rightarrow> ('m NicCCIP_scheme \<times> 'h world, 'r, fpga_result) body" where
  "nic_write x reg v = bnd (get_obj (\<lambda>n. (accel_handle n, base_nic_addr n))) (\<lambda>(h, base).
     on_world (fpgaWriteMMIO64 x h (base + reg) v))"

text \<open>The idiom of the configuration code: write a register, return 1 if the driver refuses.\<close>

definition nic_cfg :: "'h opae \<Rightarrow> u64 \<Rightarrow> u64 \<Rightarrow> ('m, 'h, unit) nic_method" where
  "nic_cfg x reg v = bnd (nic_write x reg v) (\<lambda>res. whenM (res \<noteq> FPGA_OK) (exit_with 1))"

text \<open>
  The status query returns 0 and fills the status, or returns 1; the second form is the idiom that
  passes a non-zero code on to the caller.
\<close>

definition get_nic_hw_status ::
  "'h opae \<Rightarrow> ('m NicCCIP_scheme \<times> 'h world, 'r, int + NicHwStatus) body" where
  "get_nic_hw_status x =
     bnd (assert_obj connected) (\<lambda>_.
     bnd (nic_read x iRegNicStatus) (\<lambda>(res, raw_status).
     ret (if res \<noteq> FPGA_OK then Inl 1 else Inr (status_of_raw raw_status))))"

definition read_status :: "'h opae \<Rightarrow> ('m, 'h, NicHwStatus) nic_method" where
  "read_status x = bnd (get_nic_hw_status x) (\<lambda>r. case r of Inl res \<Rightarrow> exit_with res | Inr st \<Rightarrow> ret st)"

definition expect :: "bool \<Rightarrow> ('s, 'r, unit) body" where
  "expect b = assertM (\<lambda>_. b)"

text \<open>
  The polling loops of the driver: a \<^verbatim>\<open>do\<close> loop that reads, sleeps, and repeats while the condition
  holds and fewer than \<open>NIC_INIT_TIMEOUT\<close> iterations are done. \<open>n\<close> is the number of iterations
  left after the current one.
\<close>

fun wait_status :: "'h opae \<Rightarrow> (NicHwStatus \<Rightarrow> bool) \<Rightarrow> nat \<Rightarrow> ('m, 'h, NicHwStatus) nic_method" where
  "wait_status x again 0 =
     bnd (read_status x) (\<lambda>st.
     bnd (on_world (sleep_s x NIC_INIT_DELAY_S)) (\<lambda>_.
     ret st))"
| "wait_status x again (Suc n) =
     bnd (read_status x) (\<lambda>st.
     bnd (on_world (sleep_s x NIC_INIT_DELAY_S)) (\<lambda>_.
     if again st then wait_status x again n else ret st))"

section \<open>Connecting to the accelerator\<close>

definition connect_to_accel ::
  "'h opae \<Rightarrow> string \<Rightarrow> int \<Rightarrow> ('h world, u64, u64) body" where
  "connect_to_accel x accel_uuid bus =
     bnd (xcall [] (x_GetProperties x)) (\<lambda>(res, filter).
     bnd (expect (res = FPGA_OK)) (\<lambda>_.
     bnd (xcall [] (x_SetObjectType x filter)) (\<lambda>res.
     bnd (expect (res = FPGA_OK)) (\<lambda>_.
     let guid = fst (x_uuid_parse x accel_uuid) in
     bnd (xcall [] (x_SetGUID x filter guid)) (\<lambda>res.
     bnd (expect (res = FPGA_OK)) (\<lambda>_.
     bnd (whenM (bus \<noteq> -1) (bnd (xcall [] (x_SetBus x filter bus)) (\<lambda>_. ret ()))) (\<lambda>_.
     bnd (xcall [] (x_Enumerate x filter)) (\<lambda>(res, accel_token, num_matches).
     bnd (expect (res = FPGA_OK)) (\<lambda>_.
     bnd (xcall [] (x_DestroyProperties x filter)) (\<lambda>res.
     bnd (expect (res = FPGA_OK)) (\<lambda>_.
     bnd (whenM (num_matches < 1) (exit_with 0)) (\<lambda>_.
     bnd (fpgaOpen x accel_token) (\<lambda>(res, handle).
     bnd (expect (res = FPGA_OK)) (\<lambda>_.
     bnd (xcall [] (x_DestroyToken x accel_token)) (\<lambda>res.
     bnd (expect (res = FPGA_OK)) (\<lambda>_.
     ret handle))))))))))))))))"

definition connect_to_nic :: "'h opae \<Rightarrow> string \<Rightarrow> int \<Rightarrow> ('m, 'h, int) nic_method" where
  "connect_to_nic x accel_uuid bus =
     bnd (assert_obj (\<lambda>n. \<not> connected n)) (\<lambda>_.
     bnd (on_world (call (connect_to_accel x accel_uuid bus))) (\<lambda>handle.
     bnd (upd_obj (\<lambda>n. n\<lparr>accel_handle := handle\<rparr>)) (\<lambda>_.
     bnd (whenM (handle = 0) (exit_with 1)) (\<lambda>_.
     bnd (upd_obj (\<lambda>n. n\<lparr>connected := True\<rparr>)) (\<lambda>_.
     ret 0)))))"

section \<open>Initialisation\<close>

definition initialize_phy_network :: "'h opae \<Rightarrow> string \<Rightarrow> u32 \<Rightarrow> ('m, 'h, int) nic_method" where
  "initialize_phy_network x afu_id channel =
     bnd (get_obj accel_handle) (\<lambda>fpga.
     bnd (on_world (call (fpgaHssiOpen x afu_id fpga True))) (\<lambda>(res, h).
     bnd (whenM (res = FPGA_OK) (upd_obj (\<lambda>n. n\<lparr>hssi_h := h\<rparr>))) (\<lambda>_.
     bnd (expect (res = FPGA_OK)) (\<lambda>_.
     bnd (get_obj hssi_h) (\<lambda>hssi.
     bnd (whenM (hssi = None) (exit_with 1)) (\<lambda>_.
     bnd (on_world (fpgaHssiReset x hssi)) (\<lambda>res.
     bnd (whenM (res \<noteq> FPGA_OK) (exit_with 1)) (\<lambda>_.
     bnd (on_world (fpgaHssiCtrlLoopback x hssi channel False)) (\<lambda>res.
     bnd (whenM (res \<noteq> FPGA_OK) (exit_with 1)) (\<lambda>_.
     bnd (on_world (fpgaHssiClearChannelStats x hssi TX channel)) (\<lambda>res.
     bnd (expect (res = FPGA_OK)) (\<lambda>_.
     bnd (on_world (fpgaHssiClearChannelStats x hssi RX channel)) (\<lambda>res.
     bnd (expect (res = FPGA_OK)) (\<lambda>_.
     ret 0))))))))))))))"

text \<open>
  The value of the physical-address register. The bytes are promoted to the 32-bit \<^verbatim>\<open>int\<close> before
  they are shifted, and the result is sign-extended to the 64 bits of the register.
\<close>

definition phy_addr_word :: "'h opae \<Rightarrow> PhyAddr \<Rightarrow> u64" where
  "phy_addr_word x phy = scast (ucast (phy_b5 phy) OR push_bit 8 (ucast (phy_b4 phy)) OR
     push_bit 16 (ucast (phy_b3 phy)) OR push_bit 24 (ucast (phy_b2 phy)) OR
     x_int_shl x (phy_b1 phy) 32 OR x_int_shl x (phy_b0 phy) 40 :: u32)"

text \<open>\<open>phy_build\<close> is true in a build with \<^verbatim>\<open>NIC_PHY_NETWORK\<close>.\<close>

definition check_network_mode :: "'h opae \<Rightarrow> bool \<Rightarrow> string \<Rightarrow> NicMode \<Rightarrow> ('m, 'h, unit) nic_method" where
  "check_network_mode x phy_build afu_id mode =
     (if phy_build then
        bnd (whenM (phy_network_mode mode \<noteq> iPhyNetEnabled) (exit_with 1)) (\<lambda>_.
        bnd (call (initialize_phy_network x afu_id phy_net_channel)) (\<lambda>res.
        bnd (whenM (res \<noteq> 0) (exit_with 1)) (\<lambda>_.
        upd_obj (\<lambda>n. n\<lparr>phy_network_en := True\<rparr>))))
      else
        bnd (whenM (phy_network_mode mode \<noteq> iPhyNetDisabled) (exit_with 1)) (\<lambda>_.
        upd_obj (\<lambda>n. n\<lparr>phy_network_en := False\<rparr>)))"

definition initialize_nic ::
  "'h opae \<Rightarrow> bool \<Rightarrow> string \<Rightarrow> PhyAddr \<Rightarrow> IPv4 \<Rightarrow> ('m, 'h, int) nic_method" where
  "initialize_nic x phy_build afu_id host_phy host_ipv4 =
     bnd (assert_obj connected) (\<lambda>_.
     bnd (assert_obj dp_configured) (\<lambda>_.
     bnd (read_status x) (\<lambda>st.
     bnd (expect (\<not> st_ready st)) (\<lambda>_.
     bnd (expect (\<not> st_running st)) (\<lambda>_.
     bnd (expect (\<not> st_error st)) (\<lambda>_.
     bnd (nic_read x iRegNicMode) (\<lambda>(res, raw_mode).
     bnd (whenM (res \<noteq> FPGA_OK) (exit_with 1)) (\<lambda>_.
     bnd (check_network_mode x phy_build afu_id (mode_of_raw raw_mode)) (\<lambda>_.
     bnd (nic_cfg x iRegPhyNetAddr (phy_addr_word x host_phy)) (\<lambda>_.
     bnd (nic_cfg x iRegIPv4NetAddr (ucast (get_addr_inv host_ipv4))) (\<lambda>_.
     bnd (nic_cfg x iRegNicInit iConstNicInit) (\<lambda>_.
     bnd (wait_status x (\<lambda>st. \<not> st_ready st) (NIC_INIT_TIMEOUT - 1)) (\<lambda>st.
     bnd (whenM (\<not> st_ready st) (exit_with 1)) (\<lambda>_.
     bnd (expect (st_ready st)) (\<lambda>_.
     bnd (expect (\<not> st_running st)) (\<lambda>_.
     bnd (expect (\<not> st_error st)) (\<lambda>_.
     bnd (upd_obj (\<lambda>n. n\<lparr>initialized := True\<rparr>)) (\<lambda>_.
     ret 0))))))))))))))))))"

section \<open>Start and stop\<close>

definition start_nic :: "'h opae \<Rightarrow> ('m, 'h, int) nic_method" where
  "start_nic x =
     bnd (assert_obj connected) (\<lambda>_.
     bnd (assert_obj initialized) (\<lambda>_.
     bnd (assert_obj dp_configured) (\<lambda>_.
     bnd (assert_obj (\<lambda>n. \<not> started n)) (\<lambda>_.
     bnd (read_status x) (\<lambda>st.
     bnd (expect (st_ready st)) (\<lambda>_.
     bnd (expect (\<not> st_running st)) (\<lambda>_.
     bnd (expect (\<not> st_error st)) (\<lambda>_.
     bnd (nic_cfg x iRegNicStart iConstNicStart) (\<lambda>_.
     bnd (wait_status x (\<lambda>st. \<not> st_running st) (NIC_INIT_TIMEOUT - 1)) (\<lambda>st.
     bnd (whenM (\<not> st_running st) (exit_with 1)) (\<lambda>_.
     bnd (expect (st_ready st)) (\<lambda>_.
     bnd (expect (st_running st)) (\<lambda>_.
     bnd (expect (\<not> st_error st)) (\<lambda>_.
     bnd (upd_obj (\<lambda>n. n\<lparr>started := True\<rparr>)) (\<lambda>_.
     ret 0)))))))))))))))"

text \<open>Assigning a new thread to a joinable \<^verbatim>\<open>std::thread\<close> terminates the program.\<close>

definition run_perf_thread :: "('m, 'h, int) nic_method" where
  "run_perf_thread =
     bnd (upd_obj (\<lambda>n. n\<lparr>collect_perf := True\<rparr>)) (\<lambda>_.
     bnd (assert_obj (\<lambda>n. \<not> perf_thread n)) (\<lambda>_.
     bnd (upd_obj (\<lambda>n. n\<lparr>perf_thread := True\<rparr>)) (\<lambda>_.
     ret 0)))"

definition stop_perf :: "('m, 'h, unit) nic_method" where
  "stop_perf =
     bnd (get_obj collect_perf) (\<lambda>running.
     whenM running
       (bnd (upd_obj (\<lambda>n. n\<lparr>collect_perf := False\<rparr>)) (\<lambda>_.
        bnd (assert_obj perf_thread) (\<lambda>_.
        upd_obj (\<lambda>n. n\<lparr>perf_thread := False\<rparr>)))))"

definition stop_nic :: "'h opae \<Rightarrow> ('m, 'h, int) nic_method" where
  "stop_nic x =
     bnd (assert_obj started) (\<lambda>_.
     bnd (read_status x) (\<lambda>st.
     bnd (expect (st_ready st)) (\<lambda>_.
     bnd (expect (st_running st)) (\<lambda>_.
     bnd stop_perf (\<lambda>_.
     bnd (nic_cfg x iRegNicStart iConstNicStop) (\<lambda>_.
     bnd (wait_status x (\<lambda>st. st_running st) (NIC_INIT_TIMEOUT - 1)) (\<lambda>st.
     bnd (whenM (st_running st) (exit_with 1)) (\<lambda>_.
     bnd (expect (st_ready st)) (\<lambda>_.
     bnd (expect (\<not> st_running st)) (\<lambda>_.
     bnd (upd_obj (\<lambda>n. n\<lparr>started := False\<rparr>)) (\<lambda>_.
     ret 0)))))))))))"

definition check_hw_errors :: "'h opae \<Rightarrow> ('m, 'h, int) nic_method" where
  "check_hw_errors x = bnd (read_status x) (\<lambda>st. ret (if st_error st then 1 else 0))"

section \<open>Connection set-up\<close>

definition send_frame :: "'h opae \<Rightarrow> u32 \<Rightarrow> u8 \<Rightarrow> ('m, 'h, unit) nic_method" where
  "send_frame x data cmd =
     bnd (on_world (gets (\<lambda>w. x_frame_tail x (hw w)))) (\<lambda>tail.
     nic_cfg x iRegConnSetupFrame (frame_word tail data cmd))"

definition conn_done :: "ConnectionId \<Rightarrow> ConnSetupStatus \<Rightarrow> bool" where
  "conn_done cid st \<longleftrightarrow> cs_valid st \<and> cs_conn_id st = cid"

definition read_conn_status :: "'h opae \<Rightarrow> ('m, 'h, ConnSetupStatus) nic_method" where
  "read_conn_status x =
     bnd (nic_read x iRegConnStatus) (\<lambda>(res, raw_status).
     bnd (whenM (res \<noteq> FPGA_OK) (exit_with 1)) (\<lambda>_.
     ret (conn_status_of_raw raw_status)))"

fun wait_conn :: "'h opae \<Rightarrow> ConnectionId \<Rightarrow> nat \<Rightarrow> ('m, 'h, ConnSetupStatus) nic_method" where
  "wait_conn x cid 0 =
     bnd (read_conn_status x) (\<lambda>st.
     bnd (on_world (sleep_s x NIC_INIT_DELAY_S)) (\<lambda>_.
     ret st))"
| "wait_conn x cid (Suc n) =
     bnd (read_conn_status x) (\<lambda>st.
     bnd (on_world (sleep_s x NIC_INIT_DELAY_S)) (\<lambda>_.
     if \<not> conn_done cid st then wait_conn x cid n else ret st))"

text \<open>Every status but \<open>cOK\<close> is an error; the log messages distinguish them.\<close>

definition register_connection ::
  "'h opae \<Rightarrow> ConnectionId \<Rightarrow> IPv4 \<Rightarrow> ConnectionFlowId \<Rightarrow> ('m, 'h, int) nic_method" where
  "register_connection x cid dest_addr c_flow_id =
     bnd (assert_obj connected) (\<lambda>_.
     bnd (send_frame x cid setUpConnId) (\<lambda>_.
     bnd (send_frame x cOpen setUpOpen) (\<lambda>_.
     bnd (send_frame x (get_addr dest_addr) setUpDestIPv4) (\<lambda>_.
     bnd (send_frame x (ucast (get_port dest_addr)) setUpDestPort) (\<lambda>_.
     bnd (send_frame x (ucast c_flow_id) setUpClientFlowId) (\<lambda>_.
     bnd (send_frame x 1 setUpEnable) (\<lambda>_.
     bnd (wait_conn x cid (NIC_INIT_TIMEOUT - 1)) (\<lambda>st.
     bnd (whenM (\<not> conn_done cid st) (exit_with 1)) (\<lambda>_.
     if cs_error_status st = cAlreadyOpen then ret 1
     else if cs_error_status st = cOK then ret 0
     else ret 1)))))))))"

definition remove_connection :: "'h opae \<Rightarrow> ConnectionId \<Rightarrow> ('m, 'h, int) nic_method" where
  "remove_connection x cid =
     bnd (assert_obj connected) (\<lambda>_.
     bnd (send_frame x cid setUpConnId) (\<lambda>_.
     bnd (send_frame x cClose setUpOpen) (\<lambda>_.
     bnd (send_frame x 1 setUpEnable) (\<lambda>_.
     bnd (wait_conn x cid (NIC_INIT_TIMEOUT - 1)) (\<lambda>st.
     bnd (whenM (\<not> conn_done cid st) (exit_with 1)) (\<lambda>_.
     if cs_error_status st = cIsClosed then ret 1
     else if cs_error_status st = cOK then ret 0
     else ret 1))))))"

text \<open>An operation of the connection manager that is a member of the nic.\<close>

definition on_conn_manager ::
  "(ConnectionManager \<Rightarrow> ('r, 'a) outcome \<times> ConnectionManager)
    \<Rightarrow> ('m NicCCIP_scheme \<times> 'h world, 'r, 'a) body" where
  "on_conn_manager f = (\<lambda>(n, w). case f (conn_manager n) of (y, cm) \<Rightarrow> (y, (n\<lparr>conn_manager := cm\<rparr>, w)))"

text \<open>The id is returned through a reference, also when the call fails later.\<close>

definition nic_open_connection ::
  "'h opae \<Rightarrow> ConnectionId \<Rightarrow> IPv4 \<Rightarrow> ConnectionFlowId
    \<Rightarrow> ('m NicCCIP_scheme \<times> 'h world, int \<times> ConnectionId, int \<times> ConnectionId) body" where
  "nic_open_connection x cid0 dest_addr c_flow_id =
     bnd (on_conn_manager (cm_open_connection cid0 dest_addr c_flow_id)) (\<lambda>(res, cid).
     bnd (whenM (res \<noteq> 0) (exit_with (1, cid))) (\<lambda>_.
     bnd (call (register_connection x cid dest_addr c_flow_id)) (\<lambda>res.
     bnd (whenM (res \<noteq> 0) (exit_with (1, cid))) (\<lambda>_.
     ret (0, cid)))))"

definition nic_add_connection ::
  "'h opae \<Rightarrow> ConnectionId \<Rightarrow> IPv4 \<Rightarrow> ConnectionFlowId \<Rightarrow> ('m, 'h, int) nic_method" where
  "nic_add_connection x cid dest_addr c_flow_id =
     bnd (on_conn_manager (cm_add_connection cid dest_addr c_flow_id)) (\<lambda>res.
     bnd (whenM (res \<noteq> 0) (exit_with 1)) (\<lambda>_.
     bnd (call (register_connection x cid dest_addr c_flow_id)) (\<lambda>res.
     bnd (whenM (res \<noteq> 0) (exit_with 1)) (\<lambda>_.
     ret 0))))"

definition nic_close_connection :: "'h opae \<Rightarrow> ConnectionId \<Rightarrow> ('m, 'h, int) nic_method" where
  "nic_close_connection x cid =
     bnd (call (remove_connection x cid)) (\<lambda>res.
     bnd (whenM (res \<noteq> 0) (exit_with 1)) (\<lambda>_.
     bnd (on_conn_manager (\<lambda>cm. case cm_close_connection cid cm of (r, cm') \<Rightarrow> (Done r, cm'))) (\<lambda>res.
     bnd (whenM (res \<noteq> 0) (exit_with 1)) (\<lambda>_.
     ret 0))))"

text \<open>The argument is a 32-bit \<^verbatim>\<open>int\<close> that is read as 64 bits.\<close>

definition set_lb :: "'h opae \<Rightarrow> u32 \<Rightarrow> ('m NicCCIP_scheme \<times> 'h world, 'r, unit) body" where
  "set_lb x lb =
     bnd (on_world (gets (\<lambda>w. x_lb_tail x (hw w)))) (\<lambda>tail.
     bnd (nic_write x iRegLb (ucast lb OR push_bit 32 (ucast tail))) (\<lambda>_.
     ret ()))"

section \<open>Counters\<close>

text \<open>All fields of the status are single digits.\<close>

definition digit :: "nat \<Rightarrow> string" where
  "digit n = [char_of (48 + n)]"

definition flag :: "bool \<Rightarrow> string" where
  "flag b = (if b then ''1'' else ''0'')"

definition newline :: string where
  "newline = [CHR 0x0A]"

definition dump_nic_hw_status :: "NicHwStatus \<Rightarrow> string" where
  "dump_nic_hw_status st =
     '' Nic hw status dump >> '' @ newline @
     ''  nic_id= '' @ digit (unat (st_nic_id st)) @ newline @
     ''  ready= '' @ flag (st_ready st) @ newline @
     ''  running= '' @ flag (st_running st) @ newline @
     ''  error= '' @ flag (st_error st) @ newline @
     ''  err_rpcRxFifoOvf= '' @ flag (st_err_rpcRxFifoOvf st) @ newline @
     ''  err_rpcTxFifoOvf= '' @ flag (st_err_rpcTxFifoOvf st) @ newline @
     ''  err_ccip= '' @ flag (st_err_ccip st) @ newline @
     ''  err_rpc= '' @ flag (st_err_rpc st) @ newline"

definition dump_hssi_stat :: "'h opae \<Rightarrow> u32 \<Rightarrow> ('m NicCCIP_scheme \<times> 'h world, 'r, unit) body" where
  "dump_hssi_stat x channel =
     bnd (get_obj hssi_h) (\<lambda>hssi.
     whenM (hssi \<noteq> None)
       (bnd (on_world (fpgaHssiPrintChannelStats x hssi PHY channel)) (\<lambda>(res, _).
        bnd (expect (res = FPGA_OK)) (\<lambda>_.
        bnd (on_world (fpgaHssiPrintChannelStats x hssi TX channel)) (\<lambda>(res, _).
        bnd (expect (res = FPGA_OK)) (\<lambda>_.
        bnd (on_world (fpgaHssiPrintChannelStats x hssi RX channel)) (\<lambda>(res, _).
        expect (res = FPGA_OK))))))))"

definition get_perf :: "'h opae \<Rightarrow> ('m NicCCIP_scheme \<times> 'h world, 'r, unit) body" where
  "get_perf x =
     bnd (assert_obj connected) (\<lambda>_.
     bnd (nic_read x iRegCcipRps) (\<lambda>_.
     ret ()))"

definition get_status :: "'h opae \<Rightarrow> ('m NicCCIP_scheme \<times> 'h world, 'r, unit) body" where
  "get_status x =
     bnd (assert_obj connected) (\<lambda>_.
     bnd (get_nic_hw_status x) (\<lambda>_.
     ret ()))"

text \<open>
  One counter: select it, give the device time, read it. A failed access is logged; the value then
  stays at 0.
\<close>

definition read_counter ::
  "'h opae \<Rightarrow> u64 \<Rightarrow> u64 \<Rightarrow> nat \<Rightarrow> ('m NicCCIP_scheme \<times> 'h world, 'r, u64) body" where
  "read_counter x sel_reg cnt_reg cnt_id =
     bnd (nic_write x sel_reg (of_nat cnt_id)) (\<lambda>_.
     bnd (on_world (delay_us x 1000)) (\<lambda>_.
     bnd (nic_read x cnt_reg) (\<lambda>(res, v).
     ret (if res = FPGA_OK then v else 0))))"

fun read_counters ::
  "'h opae \<Rightarrow> u64 \<Rightarrow> u64 \<Rightarrow> nat list \<Rightarrow> ('m NicCCIP_scheme \<times> 'h world, 'r, u64 list) body" where
  "read_counters x sel_reg cnt_reg [] = ret []"
| "read_counters x sel_reg cnt_reg (i # is) =
     bnd (read_counter x sel_reg cnt_reg i) (\<lambda>v.
     bnd (read_counters x sel_reg cnt_reg is) (\<lambda>vs.
     ret (v # vs)))"

text \<open>The results are the vector that is handed to the callback and the values that are logged.\<close>

definition get_packet_counters :: "'h opae \<Rightarrow> ('m NicCCIP_scheme \<times> 'h world, 'r, u64 list) body" where
  "get_packet_counters x =
     bnd (assert_obj connected) (\<lambda>_.
     read_counters x iRegGetPckCnt iRegPckCnt [0..<iNumOfPckCnt])"

definition get_network_counters :: "'h opae \<Rightarrow> ('m NicCCIP_scheme \<times> 'h world, 'r, u64 list) body" where
  "get_network_counters x =
     bnd (assert_obj connected) (\<lambda>_.
     bnd (get_obj phy_network_en) (\<lambda>en.
     if en then read_counters x iRegNetDropCntRead iRegNetDropCnt [0..<iNumOfNetworkCnt] else ret []))"

definition get_debug_ports :: "'h opae \<Rightarrow> ('m NicCCIP_scheme \<times> 'h world, 'r, unit) body" where
  "get_debug_ports x = bnd (nic_read x iRegDebug_0) (\<lambda>_. ret ())"

text \<open>
  The performance thread: one iteration of its loop, which runs while \<open>collect_perf\<close> is set. The
  result is the vector for the callback, if the mask asks for it.
\<close>

definition nic_perf_iter ::
  "'h opae \<Rightarrow> NicPerfMask \<Rightarrow> ('m NicCCIP_scheme \<times> 'h world, 'r, u64 list option) body" where
  "nic_perf_iter x pmask =
     bnd (whenM (pm_performance pmask) (get_perf x)) (\<lambda>_.
     bnd (whenM (pm_status pmask) (get_status x)) (\<lambda>_.
     bnd (if pm_packet_counters pmask then bnd (get_packet_counters x) (\<lambda>cs. ret (Some cs)) else ret None) (\<lambda>cs.
     bnd (whenM (pm_network_counters pmask) (bnd (get_network_counters x) (\<lambda>_. ret ()))) (\<lambda>_.
     bnd (whenM (pm_debug_ports pmask) (get_debug_ports x)) (\<lambda>_.
     bnd (on_world (sleep_s x NIC_PERF_DELAY_S)) (\<lambda>_.
     ret cs))))))"

section \<open>Shared buffers\<close>

definition get_page_size :: "'h opae \<Rightarrow> u64" where
  "get_page_size x = (if enable_hugepages then hugepage_size else x_getpagesize x)"

text \<open>A remainder modulo 0 is undefined.\<close>

definition round_up_to_pagesize :: "'h opae \<Rightarrow> u64 \<Rightarrow> ('s, u64, u64) body" where
  "round_up_to_pagesize x val =
     (let page_size_bytes = get_page_size x in
      bnd (guardM (\<lambda>_. page_size_bytes \<noteq> 0)) (\<lambda>_.
      let remainder = val mod page_size_bytes in
      bnd (whenM (remainder = 0) (exit_with val)) (\<lambda>_.
      let res = val + page_size_bytes - remainder in
      bnd (expect (res mod page_size_bytes = 0)) (\<lambda>_.
      ret res))))"

text \<open>The loop over the pages \<open>i\<close>, \<open>i + 1\<close>, ...; \<open>n\<close> pages are left. Its result is the workspace id.\<close>

fun prepare_pages ::
  "'h opae \<Rightarrow> u64 \<Rightarrow> u64 \<Rightarrow> u64 \<Rightarrow> u64 \<Rightarrow> nat \<Rightarrow> u64 \<Rightarrow> ('h world, u64 option, u64) body" where
  "prepare_pages x fpga page_size buf i 0 wsid = ret wsid"
| "prepare_pages x fpga page_size buf i (Suc n) wsid =
     bnd (fpgaPrepareBuffer x fpga page_size (buf + i * page_size)) (\<lambda>(res, wsid').
     bnd (whenM (res \<noteq> FPGA_OK) (exit_with None)) (\<lambda>_.
     prepare_pages x fpga page_size buf (i + 1) n wsid'))"

text \<open>
  The result is the pointer with the workspace id and the device's view of the address that are
  stored through \<^verbatim>\<open>wsid\<close> and \<^verbatim>\<open>io_addr\<close>; \<open>wsid0\<close> and \<open>io0\<close> are what they held before.
\<close>

definition alloc_buffer ::
  "'h opae \<Rightarrow> u64 \<Rightarrow> u64 \<Rightarrow> u64 \<Rightarrow> u64 \<Rightarrow> u64
    \<Rightarrow> ('h world, u64 \<times> u64 \<times> u64, u64 \<times> u64 \<times> u64) body" where
  "alloc_buffer x fpga sz wsid0 io0 llc_anti_aliasing =
     bnd (call (round_up_to_pagesize x sz)) (\<lambda>mem_size.
     let page_size = get_page_size x; mem_pages = mem_size div page_size in
     bnd (whenM (mem_pages > 1) (exit_with (0, wsid0, io0))) (\<lambda>_.
     bnd (xcall [] (x_mmap x mem_size enable_hugepages)) (\<lambda>buf.
     bnd (whenM (buf = 0) (exit_with (0, wsid0, io0))) (\<lambda>_.
     bnd (call (bnd (prepare_pages x fpga page_size buf 0 (unat mem_pages) wsid0) (\<lambda>w. ret (Some w)))) (\<lambda>prepared.
     case prepared of
       None \<Rightarrow> exit_with (0, wsid0, io0)
     | Some wsid \<Rightarrow>
         bnd (fpgaGetIOAddress x fpga wsid) (\<lambda>(res, io_addr).
         bnd (expect (res = FPGA_OK)) (\<lambda>_.
         let aa_offset_bytes = llc_anti_aliasing * llc_anti_aliasing_offset in
         bnd (whenM (sz + aa_offset_bytes > mem_size) (exit_with (0, wsid, io_addr))) (\<lambda>_.
         ret (buf + aa_offset_bytes, wsid, io_addr + aa_offset_bytes)))))))))"

section \<open>Destructor\<close>

text \<open>After its body the members are destroyed; a thread that is still joinable terminates the program.\<close>

definition NicCCIP_dtor :: "'h opae \<Rightarrow> ('m, 'h, unit) nic_method" where
  "NicCCIP_dtor x =
     bnd (get_obj started) (\<lambda>st.
     bnd (whenM st (bnd (call (stop_nic x)) (\<lambda>_. ret ()))) (\<lambda>_.
     bnd (get_obj hssi_h) (\<lambda>hssi.
     bnd (whenM (hssi \<noteq> None) (bnd (on_world (fpgaHssiClose x hssi)) (\<lambda>_. ret ()))) (\<lambda>_.
     bnd (get_obj (\<lambda>n. connected n \<and> master_nic n)) (\<lambda>close.
     bnd (get_obj accel_handle) (\<lambda>h.
     bnd (whenM close (on_world (fpgaClose x h))) (\<lambda>_.
     assert_obj (\<lambda>n. \<not> perf_thread n))))))))"

section \<open>Bodies that leave the object alone\<close>

definition keeps :: "('n \<times> 'h world, 'r, 'a) body \<Rightarrow> bool" where
  "keeps m \<longleftrightarrow> (\<forall>n w. fst (snd (m (n, w))) = n)"

named_theorems keeps_rules

lemma keeps_ret [keeps_rules]: "keeps (ret a)"
  by (simp add: keeps_def ret_def)

lemma keeps_exit_with [keeps_rules]: "keeps (exit_with a)"
  by (simp add: keeps_def exit_with_def)

lemma keeps_assertM [keeps_rules]: "keeps (assertM p)"
  by (simp add: keeps_def assertM_def)

lemma keeps_guardM [keeps_rules]: "keeps (guardM p)"
  by (simp add: keeps_def guardM_def)

lemma keeps_gets [keeps_rules]: "keeps (gets f)"
  by (simp add: keeps_def gets_def)

lemma keeps_get_obj [keeps_rules]: "keeps (get_obj f)"
  by (simp add: get_obj_def keeps_gets)

lemma keeps_assert_obj [keeps_rules]: "keeps (assert_obj f)"
  by (simp add: assert_obj_def keeps_assertM)

lemma keeps_expect [keeps_rules]: "keeps (expect b)"
  by (simp add: expect_def keeps_assertM)

lemma keeps_on_world [keeps_rules]: "keeps (on_world m)"
  by (simp add: keeps_def on_world_def split: prod.split)

lemma keeps_bnd [keeps_rules]:
  assumes "keeps m" and "\<And>a. keeps (f a)"
  shows "keeps (bnd m f)"
proof -
  have "fst (snd (bnd m f (n, w))) = n" for n w
  proof -
    obtain y w' where "m (n, w) = (y, (n, w'))"
      using assms(1) by (metis keeps_def prod.collapse)
    then show ?thesis using assms(2) by (cases y) (simp_all add: bnd_def keeps_def)
  qed
  then show ?thesis by (simp add: keeps_def)
qed

lemma keeps_whenM [keeps_rules]: "keeps m \<Longrightarrow> keeps (whenM b m)"
  by (simp add: whenM_def keeps_ret)

lemma keeps_call [keeps_rules]: "keeps m \<Longrightarrow> keeps (call m)"
  by (simp add: keeps_def call_def split: prod.split outcome.split) (metis fst_conv snd_conv)

lemma keeps_if [keeps_rules]: "keeps m \<Longrightarrow> keeps m' \<Longrightarrow> keeps (if b then m else m')"
  by simp

lemma keeps_prod [keeps_rules]: "(\<And>a b. keeps (f a b)) \<Longrightarrow> keeps (case p of (a, b) \<Rightarrow> f a b)"
  by (simp split: prod.split)

lemma keeps_sum [keeps_rules]:
  "(\<And>a. keeps (f a)) \<Longrightarrow> (\<And>b. keeps (g b)) \<Longrightarrow> keeps (case s of Inl a \<Rightarrow> f a | Inr b \<Rightarrow> g b)"
  by (simp split: sum.split)

lemma keeps_nic_read [keeps_rules]: "keeps (nic_read x reg)"
  unfolding nic_read_def by (intro keeps_rules)

lemma keeps_nic_write [keeps_rules]: "keeps (nic_write x reg v)"
  unfolding nic_write_def by (intro keeps_rules)

lemma keeps_nic_cfg [keeps_rules]: "keeps (nic_cfg x reg v)"
  unfolding nic_cfg_def by (intro keeps_rules)

lemma keeps_get_nic_hw_status [keeps_rules]: "keeps (get_nic_hw_status x)"
  unfolding get_nic_hw_status_def by (intro keeps_rules)

lemma keeps_read_status [keeps_rules]: "keeps (read_status x)"
  unfolding read_status_def by (intro keeps_rules)

lemma keeps_wait_status [keeps_rules]: "keeps (wait_status x again n)"
  by (induction n) (auto intro!: keeps_rules)

lemma keeps_send_frame [keeps_rules]: "keeps (send_frame x data cmd)"
  unfolding send_frame_def by (intro keeps_rules)

lemma keeps_read_conn_status [keeps_rules]: "keeps (read_conn_status x)"
  unfolding read_conn_status_def by (intro keeps_rules)

lemma keeps_wait_conn [keeps_rules]: "keeps (wait_conn x cid n)"
  by (induction n) (auto intro!: keeps_rules)

lemma keeps_register_connection [keeps_rules]: "keeps (register_connection x cid ip flow)"
  unfolding register_connection_def by (intro keeps_rules)

lemma keeps_remove_connection [keeps_rules]: "keeps (remove_connection x cid)"
  unfolding remove_connection_def by (intro keeps_rules)

lemma keeps_check_hw_errors [keeps_rules]: "keeps (check_hw_errors x)"
  unfolding check_hw_errors_def by (intro keeps_rules)

lemma keeps_set_lb [keeps_rules]: "keeps (set_lb x lb)"
  unfolding set_lb_def by (intro keeps_rules)

lemma keeps_read_counters [keeps_rules]: "keeps (read_counters x a b is)"
  by (induction "is") (auto simp: read_counter_def intro!: keeps_rules)

lemma keeps_nic_perf_iter [keeps_rules]: "keeps (nic_perf_iter x pmask)"
  unfolding nic_perf_iter_def get_perf_def get_status_def get_packet_counters_def
    get_network_counters_def get_debug_ports_def
  by (intro keeps_rules)

lemma wp_keeps:
  assumes "keeps m" and "\<And>y w'. Q y (n, w')"
  shows "wp m Q (n, w)"
proof -
  have "snd (m (n, w)) = (n, snd (snd (m (n, w))))"
    using assms(1) by (metis keeps_def prod.collapse)
  then show ?thesis using assms(2) by (metis wp_iff)
qed

end
