(* ===== verification/Hw_Conn.thy ===== *)
theory Hw_Conn
  imports Nic_Ccip
begin

text \<open>
  The connection manager of the hardware (\<^verbatim>\<open>rpc.sv\<close>, \<^verbatim>\<open>connection_manager.sv\<close>) and the register
  file's side of it (\<^verbatim>\<open>nic.sv\<close>), one clock cycle at a time. All registers of a cycle are computed from
  the values before it, as the non-blocking assignments do. The state is the one after reset. The
  clock domains of the register file and of the RPC unit are one here: the queue of set-up frames
  between them is kept, and a frame may stay in it for any number of cycles.
\<close>

section \<open>Registers\<close>

type_synonym CTAddr = "4 word"
type_synonym FlowId = "4 word"

datatype ConnCtlState = cCtlIdle | cCtlOpenCheck | cCtlOpen | cCtlCloseCheck | cCtlClose

record ConnectionTableEntry =
  te_dest_ip :: u32
  te_dest_port :: u16
  te_client_flow_id :: FlowId
  te_status :: bool

record ConnectionControlIf =
  cc_conn_id :: u8
  cc_dest_ip :: u32
  cc_dest_port :: u16
  cc_client_flow_id :: FlowId
  cc_open :: bool
  cc_enable :: bool

type_synonym hw_frame = "u32 \<times> 3 word"

record conn_hw =
  frame_fifo :: "hw_frame list"
  c_ctl_if :: ConnectionControlIf
  setup_vector :: "bool list"
  conn_setup_parsing_error :: bool
  ct_initialized :: bool
  ct_init :: bool
  ct_init_addr :: CTAddr
  c_tbl :: "CTAddr \<Rightarrow> ConnectionTableEntry"
  c_tbl_r1 :: "CTAddr \<Rightarrow> ConnectionTableEntry"
  c_tbl_valid :: "CTAddr \<Rightarrow> bool"
  c_st_tbl_rd_data :: bool
  c_ctl_state :: ConnCtlState
  c_ctl_status_out :: ConnSetupStatus
  iRegConnStatus_hw :: ConnSetupStatus

definition LCONN_TBL_SIZE :: nat where "LCONN_TBL_SIZE = 4"

definition no_status :: ConnSetupStatus where
  "no_status = \<lparr>cs_conn_id = 0, cs_valid = False, cs_error_status = cOK\<rparr>"

definition closed_entry :: ConnectionTableEntry where
  "closed_entry = \<lparr>te_dest_ip = 0, te_dest_port = 0, te_client_flow_id = 0, te_status = False\<rparr>"

section \<open>Parsing of set-up frames\<close>

text \<open>
  A frame for the register of a field sets the field and its bit of the vector; the frame that
  enables the operation checks the vector. The loop that clears the vector stops before the last bit.
\<close>

definition clear_vector :: "bool list \<Rightarrow> bool list" where
  "clear_vector v = v[0 := False, 1 := False, 2 := False, 3 := False]"

definition parse_frame ::
  "hw_frame option \<Rightarrow> ConnectionControlIf \<Rightarrow> bool list \<Rightarrow> bool
    \<Rightarrow> ConnectionControlIf \<times> bool list \<times> bool" where
  "parse_frame frame c v err =
     (let c = c\<lparr>cc_enable := False\<rparr> in
      case frame of
        None \<Rightarrow> (c, v, err)
      | Some (data, cmd) \<Rightarrow>
          if cmd = 0 then (c\<lparr>cc_conn_id := ucast data\<rparr>, v[0 := True], err)
          else if cmd = 1 then (c\<lparr>cc_open := bit data 0\<rparr>, v[1 := True], err)
          else if cmd = 2 then (c\<lparr>cc_dest_ip := data\<rparr>, v[2 := True], err)
          else if cmd = 3 then (c\<lparr>cc_dest_port := ucast data\<rparr>, v[3 := True], err)
          else if cmd = 4 then (c\<lparr>cc_client_flow_id := ucast data\<rparr>, v[4 := True], err)
          else if cmd = 5 then
            if cc_open c then
              if \<not> (v ! 0 \<and> v ! 1 \<and> v ! 2 \<and> v ! 3 \<and> v ! 4) then (c, v, True)
              else (c\<lparr>cc_enable := True\<rparr>, clear_vector v, err)
            else
              if \<not> v ! 0 then (c, v, True)
              else (c\<lparr>cc_enable := True\<rparr>, clear_vector v, err)
          else (c, v, True))"

section \<open>Connection set-up\<close>

text \<open>
  The combinational part: the read address of the status table, the write to the tables (if any)
  and the next state of the machine.
\<close>

definition ctl_comb ::
  "conn_hw \<Rightarrow> CTAddr \<times> (CTAddr \<times> ConnectionTableEntry) option \<times> ConnCtlState" where
  "ctl_comb s =
     (let c = c_ctl_if s in
      case c_ctl_state s of
        cCtlIdle \<Rightarrow>
          if ct_initialized s \<and> cc_enable c then
            if unat (cc_conn_id c) \<ge> 2 ^ LCONN_TBL_SIZE then (0, None, cCtlIdle)
            else (ucast (cc_conn_id c), None, if cc_open c then cCtlOpenCheck else cCtlCloseCheck)
          else (0, None, cCtlIdle)
      | cCtlOpenCheck \<Rightarrow>
          if c_st_tbl_rd_data s then (0, None, cCtlIdle)
          else (0, Some (ucast (cc_conn_id c), \<lparr>te_dest_ip = cc_dest_ip c, te_dest_port = cc_dest_port c,
                 te_client_flow_id = cc_client_flow_id c, te_status = True\<rparr>), cCtlOpen)
      | cCtlCloseCheck \<Rightarrow>
          if \<not> c_st_tbl_rd_data s then (0, None, cCtlIdle)
          else (0, Some (ucast (cc_conn_id c), closed_entry), cCtlClose)
      | cCtlOpen \<Rightarrow> (0, None, cCtlIdle)
      | cCtlClose \<Rightarrow> (0, None, cCtlIdle))"

definition ctl_status :: "conn_hw \<Rightarrow> ConnSetupStatus" where
  "ctl_status s =
     (let c = c_ctl_if s; report = (\<lambda>e. \<lparr>cs_conn_id = ucast (cc_conn_id c), cs_valid = True, cs_error_status = e\<rparr>) in
      case c_ctl_state s of
        cCtlIdle \<Rightarrow>
          if ct_initialized s \<and> cc_enable c \<and> unat (cc_conn_id c) \<ge> 2 ^ LCONN_TBL_SIZE then report cIdWrong
          else no_status
      | cCtlOpenCheck \<Rightarrow> if c_st_tbl_rd_data s then report cAlreadyOpen else no_status
      | cCtlCloseCheck \<Rightarrow> if \<not> c_st_tbl_rd_data s then report cIsClosed else no_status
      | cCtlOpen \<Rightarrow> report cOK
      | cCtlClose \<Rightarrow> report cOK)"

text \<open>Initialisation of the tables: one entry per cycle.\<close>

definition init_next :: "bool \<Rightarrow> conn_hw \<Rightarrow> bool \<times> CTAddr \<times> bool" where
  "init_next initialize s =
     (if ct_init s then
        if unat (ct_init_addr s) = 2 ^ LCONN_TBL_SIZE - 1 then (False, 0, True)
        else (True, ct_init_addr s + 1, ct_initialized s)
      else (initialize, ct_init_addr s, ct_initialized s))"

text \<open>
  What a table is written in this cycle: the initialisation takes precedence over the set-up
  machine. A read sees the table as it was before the write of the same cycle.
\<close>

definition tbl_write :: "conn_hw \<Rightarrow> (CTAddr \<times> ConnectionTableEntry) option" where
  "tbl_write s = (if ct_init s then Some (ct_init_addr s, closed_entry) else fst (snd (ctl_comb s)))"

definition upd_tbl :: "(CTAddr \<times> 'e) option \<Rightarrow> (CTAddr \<Rightarrow> 'e) \<Rightarrow> CTAddr \<Rightarrow> 'e" where
  "upd_tbl wr t = (case wr of None \<Rightarrow> t | Some (a, e) \<Rightarrow> t(a := e))"

definition hw_cycle :: "bool \<Rightarrow> conn_hw \<Rightarrow> conn_hw" where
  "hw_cycle initialize s =
     (let (c, v, err) = parse_frame (case frame_fifo s of [] \<Rightarrow> None | f # _ \<Rightarrow> Some f)
            (c_ctl_if s) (setup_vector s) (conn_setup_parsing_error s);
          (rd, _, nxt) = ctl_comb s;
          (ini, ini_addr, inited) = init_next initialize s;
          wr = tbl_write s
      in s\<lparr>frame_fifo := tl (frame_fifo s), c_ctl_if := c, setup_vector := v, conn_setup_parsing_error := err,
           ct_initialized := inited, ct_init := ini, ct_init_addr := ini_addr,
           c_tbl := upd_tbl wr (c_tbl s), c_tbl_r1 := upd_tbl wr (c_tbl_r1 s),
           c_tbl_valid := upd_tbl (map_option (apsnd te_status) wr) (c_tbl_valid s),
           c_st_tbl_rd_data := c_tbl_valid s rd, c_ctl_state := nxt, c_ctl_status_out := ctl_status s,
           iRegConnStatus_hw :=
             (if cs_valid (c_ctl_status_out s) then c_ctl_status_out s else iRegConnStatus_hw s)\<rparr>)"

section \<open>Register file\<close>

text \<open>A write to the set-up register appends a frame; a read of the status register clears it.\<close>

definition frame_of :: "u64 \<Rightarrow> hw_frame" where
  "frame_of v = (ucast v, ucast (drop_bit 32 v))"

definition push_frame :: "u64 \<Rightarrow> conn_hw \<Rightarrow> conn_hw" where
  "push_frame v s = s\<lparr>frame_fifo := frame_fifo s @ [frame_of v]\<rparr>"

definition raw_of_status :: "ConnSetupStatus \<Rightarrow> u64" where
  "raw_of_status st = ucast (cs_conn_id st) OR push_bit 32 (of_bool (cs_valid st))
     OR push_bit 33 (take_bit 2 (cs_error_status st))"

definition read_status_reg :: "conn_hw \<Rightarrow> u64 \<times> conn_hw" where
  "read_status_reg s = (raw_of_status (iRegConnStatus_hw s), s\<lparr>iRegConnStatus_hw := no_status\<rparr>)"

section \<open>Idle hardware\<close>

abbreviation ticks :: "nat \<Rightarrow> conn_hw \<Rightarrow> conn_hw" where
  "ticks k \<equiv> hw_cycle False ^^ k"

definition quiet_hw :: "conn_hw \<Rightarrow> bool" where
  "quiet_hw s \<longleftrightarrow> frame_fifo s = [] \<and> \<not> cc_enable (c_ctl_if s) \<and> ct_initialized s \<and> \<not> ct_init s
     \<and> c_ctl_state s = cCtlIdle \<and> c_ctl_status_out s = no_status
     \<and> c_st_tbl_rd_data s = c_tbl_valid s 0 \<and> length (setup_vector s) = 5"

text \<open>The two copies of the connection table agree with each other and with the status table.\<close>

definition tbls_ok :: "conn_hw \<Rightarrow> bool" where
  "tbls_ok s \<longleftrightarrow> c_tbl_r1 s = c_tbl s \<and> (\<forall>a. c_tbl_valid s a = te_status (c_tbl s a))"

definition hw_conns :: "conn_hw \<Rightarrow> CTAddr \<rightharpoonup> u32 \<times> u16 \<times> FlowId" where
  "hw_conns s a = (if te_status (c_tbl s a)
     then Some (te_dest_ip (c_tbl s a), te_dest_port (c_tbl s a), te_client_flow_id (c_tbl s a)) else None)"

lemmas fsm_defs = ctl_comb_def ctl_status_def init_next_def tbl_write_def upd_tbl_def

abbreviation head_frame :: "conn_hw \<Rightarrow> hw_frame option" where
  "head_frame s \<equiv> (case frame_fifo s of [] \<Rightarrow> None | f # _ \<Rightarrow> Some f)"

definition parsed :: "hw_frame option \<Rightarrow> conn_hw \<Rightarrow> conn_hw" where
  "parsed f s = (case parse_frame f (c_ctl_if s) (setup_vector s) (conn_setup_parsing_error s) of
     (c, v, err) \<Rightarrow> s\<lparr>c_ctl_if := c, setup_vector := v, conn_setup_parsing_error := err\<rparr>)"

lemma parsed_None: "parsed None s = s\<lparr>c_ctl_if := (c_ctl_if s)\<lparr>cc_enable := False\<rparr>\<rparr>"
  by (simp add: parsed_def parse_frame_def)

lemma cycle_idle:
  assumes "c_ctl_state s = cCtlIdle" and "\<not> cc_enable (c_ctl_if s)" and "\<not> ct_init s"
    and "c_ctl_status_out s = no_status"
  shows "hw_cycle False s = (parsed (head_frame s) s)\<lparr>frame_fifo := tl (frame_fifo s),
    c_st_tbl_rd_data := c_tbl_valid s 0\<rparr>"
proof -
  obtain c v e where p: "parse_frame (head_frame s) (c_ctl_if s) (setup_vector s) (conn_setup_parsing_error s) = (c, v, e)"
    by (metis surj_pair)
  show ?thesis
    unfolding hw_cycle_def parsed_def p using assms
    by (cases s) (simp add: Let_def fsm_defs no_status_def)
qed

lemma quiet_cycle: "quiet_hw s \<Longrightarrow> hw_cycle False s = s"
  by (cases s) (simp add: quiet_hw_def cycle_idle parsed_None)

lemma quiet_ticks: "quiet_hw s \<Longrightarrow> ticks k s = s"
  by (induction k) (simp_all add: quiet_cycle)

text \<open>A frame that sets a register.\<close>

definition sets_register :: "hw_frame \<Rightarrow> bool" where
  "sets_register f \<longleftrightarrow> snd f \<in> {0, 1, 2, 3, 4}"

lemma parsed_register:
  assumes "sets_register f"
  shows "\<not> cc_enable (c_ctl_if (parsed (Some f) s))"
    and "length (setup_vector (parsed (Some f) s)) = length (setup_vector s)"
  using assms by (cases f; auto simp: sets_register_def parsed_def parse_frame_def Let_def)+

lemma parsed_same [simp]:
  "frame_fifo (parsed f s) = frame_fifo s" "ct_initialized (parsed f s) = ct_initialized s"
  "ct_init (parsed f s) = ct_init s" "c_tbl (parsed f s) = c_tbl s" "c_tbl_r1 (parsed f s) = c_tbl_r1 s"
  "c_tbl_valid (parsed f s) = c_tbl_valid s" "c_st_tbl_rd_data (parsed f s) = c_st_tbl_rd_data s"
  "c_ctl_state (parsed f s) = c_ctl_state s" "c_ctl_status_out (parsed f s) = c_ctl_status_out s"
  "iRegConnStatus_hw (parsed f s) = iRegConnStatus_hw s" "ct_init_addr (parsed f s) = ct_init_addr s"
  by (simp_all add: parsed_def split: prod.split)

lemma parsed_fifo: "parsed f (s\<lparr>frame_fifo := fs\<rparr>) = (parsed f s)\<lparr>frame_fifo := fs\<rparr>"
  by (simp add: parsed_def split: prod.split)

text \<open>Idle hardware that has taken \<open>j\<close> of the frames \<open>fs\<close>, and has the others in its queue.\<close>

definition fed :: "hw_frame list \<Rightarrow> nat \<Rightarrow> conn_hw \<Rightarrow> conn_hw" where
  "fed fs j s = (fold (\<lambda>f. parsed (Some f)) (take j fs) s)\<lparr>frame_fifo := drop j fs\<rparr>"

lemma quiet_parsed: "quiet_hw s \<Longrightarrow> sets_register f \<Longrightarrow> quiet_hw (parsed (Some f) s)"
  by (simp add: quiet_hw_def parsed_register)

lemma quiet_fold: "quiet_hw s \<Longrightarrow> list_all sets_register fs \<Longrightarrow> quiet_hw (fold (\<lambda>f. parsed (Some f)) fs s)"
  by (induction fs arbitrary: s) (auto intro: quiet_parsed)

lemma quiet_status: "iRegConnStatus_hw (fold (\<lambda>f. parsed (Some f)) fs s) = iRegConnStatus_hw s"
  by (induction fs arbitrary: s) auto

lemma cycle_fed:
  assumes "quiet_hw s" and "list_all sets_register (take j fs)"
  shows "hw_cycle False (fed fs j s) = fed fs (if j < length fs then Suc j else j) s"
proof -
  let ?s = "fold (\<lambda>f. parsed (Some f)) (take j fs) s"
  have q: "quiet_hw ?s" by (rule quiet_fold [OF assms])
  show ?thesis
  proof (cases "j < length fs")
    case True
    then have d: "drop j fs = fs ! j # drop (Suc j) fs" by (rule Cons_nth_drop_Suc [symmetric])
    have t: "take (Suc j) fs = take j fs @ [fs ! j]" using True by (rule take_Suc_conv_app_nth)
    have "hw_cycle False (fed fs j s) = (parsed (Some (fs ! j)) ?s)\<lparr>frame_fifo := drop (Suc j) fs\<rparr>"
      using q unfolding fed_def d
      by (subst cycle_idle) (auto simp: quiet_hw_def parsed_fifo)
    then show ?thesis using True by (simp add: fed_def t)
  next
    case False
    then have "fed fs j s = ?s" using q by (simp add: fed_def quiet_hw_def)
    then show ?thesis using False q by (simp add: quiet_cycle)
  qed
qed

lemma push_fed: "j \<le> length fs \<Longrightarrow> push_frame v (fed fs j s) = fed (fs @ [frame_of v]) j s"
  by (simp add: push_frame_def fed_def)

lemma ticks_fed_upto:
  assumes "quiet_hw s" and "list_all sets_register fs" and "j + k \<le> Suc (length fs)"
  shows "ticks k (fed (fs @ [f]) j s) = fed (fs @ [f]) (j + k) s"
  using assms(3)
proof (induction k)
  case (Suc k)
  then have "list_all sets_register (take (j + k) (fs @ [f]))"
    using assms(2) by (auto simp: list_all_iff dest: in_set_takeD)
  then show ?case using Suc cycle_fed [OF assms(1), of "j + k" "fs @ [f]"] by simp
qed simp

lemma ticks_fed:
  assumes "quiet_hw s" and "list_all sets_register fs" and "j \<le> length fs"
  shows "\<exists>j' \<le> length fs. ticks k (fed fs j s) = fed fs j' s"
proof (induction k)
  case (Suc k)
  then obtain j' where j': "j' \<le> length fs" "ticks k (fed fs j s) = fed fs j' s" by blast
  have "list_all sets_register (take j' fs)" using assms(2) by (auto simp: list_all_iff dest: in_set_takeD)
  then have "ticks (Suc k) (fed fs j s) = fed fs (if j' < length fs then Suc j' else j') s"
    using cycle_fed [OF assms(1)] j'(2) by simp
  then show ?case using j'(1) by (metis Suc_leI)
qed (use assms(3) in auto)

section \<open>One operation\<close>

text \<open>
  The hardware \<open>settles\<close> in \<open>F\<close>: within sixteen cycles it is in the state \<open>F\<close> and stays there, and
  before that the status register is empty.
\<close>

definition settles :: "conn_hw \<Rightarrow> conn_hw \<Rightarrow> bool" where
  "settles s F \<longleftrightarrow> (\<exists>d \<le> 16. (\<forall>k < d. iRegConnStatus_hw (ticks k s) = no_status) \<and> (\<forall>k \<ge> d. ticks k s = F))"

text \<open>The outcome of an operation: its status and the write to the tables.\<close>

definition op_error :: "conn_hw \<Rightarrow> u64" where
  "op_error s = (let c = c_ctl_if s; a = ucast (cc_conn_id c) in
     if unat (cc_conn_id c) \<ge> 2 ^ LCONN_TBL_SIZE then cIdWrong
     else if cc_open c then if c_tbl_valid s a then cAlreadyOpen else cOK
     else if c_tbl_valid s a then cOK else cIsClosed)"

definition op_write :: "conn_hw \<Rightarrow> (CTAddr \<times> ConnectionTableEntry) option" where
  "op_write s = (let c = c_ctl_if s in
     if op_error s \<noteq> cOK then None
     else Some (ucast (cc_conn_id c), if cc_open c then \<lparr>te_dest_ip = cc_dest_ip c, te_dest_port = cc_dest_port c,
       te_client_flow_id = cc_client_flow_id c, te_status = True\<rparr> else closed_entry))"

definition op_result :: "conn_hw \<Rightarrow> conn_hw" where
  "op_result s = (let wr = op_write s; valid' = upd_tbl (map_option (apsnd te_status) wr) (c_tbl_valid s) in
     s\<lparr>c_ctl_if := (c_ctl_if s)\<lparr>cc_enable := False\<rparr>, c_tbl := upd_tbl wr (c_tbl s),
       c_tbl_r1 := upd_tbl wr (c_tbl_r1 s), c_tbl_valid := valid', c_st_tbl_rd_data := valid' 0,
       iRegConnStatus_hw := \<lparr>cs_conn_id = ucast (cc_conn_id (c_ctl_if s)), cs_valid = True,
         cs_error_status = op_error s\<rparr>\<rparr>)"

definition enabled_hw :: "conn_hw \<Rightarrow> bool" where
  "enabled_hw s \<longleftrightarrow> frame_fifo s = [] \<and> cc_enable (c_ctl_if s) \<and> ct_initialized s \<and> \<not> ct_init s
     \<and> c_ctl_state s = cCtlIdle \<and> c_ctl_status_out s = no_status \<and> length (setup_vector s) = 5"

lemma cycle_no_frame:
  assumes "frame_fifo s = []" and "\<not> ct_init s"
  shows "hw_cycle False s = s\<lparr>c_ctl_if := (c_ctl_if s)\<lparr>cc_enable := False\<rparr>,
     c_tbl := upd_tbl (fst (snd (ctl_comb s))) (c_tbl s), c_tbl_r1 := upd_tbl (fst (snd (ctl_comb s))) (c_tbl_r1 s),
     c_tbl_valid := upd_tbl (map_option (apsnd te_status) (fst (snd (ctl_comb s)))) (c_tbl_valid s),
     c_st_tbl_rd_data := c_tbl_valid s (fst (ctl_comb s)), c_ctl_state := snd (snd (ctl_comb s)),
     c_ctl_status_out := ctl_status s,
     iRegConnStatus_hw := (if cs_valid (c_ctl_status_out s) then c_ctl_status_out s else iRegConnStatus_hw s)\<rparr>"
  using assms by (cases s) (simp add: hw_cycle_def parse_frame_def init_next_def tbl_write_def Let_def split: prod.split)

lemma quiet_op_result: "enabled_hw s \<Longrightarrow> quiet_hw (op_result s)"
  by (simp add: enabled_hw_def quiet_hw_def op_result_def Let_def)

text \<open>The machine, cycle by cycle: \<open>report\<close> is the status it sends at the end.\<close>

abbreviation report :: "conn_hw \<Rightarrow> u64 \<Rightarrow> ConnSetupStatus" where
  "report s e \<equiv> \<lparr>cs_conn_id = ucast (cc_conn_id (c_ctl_if s)), cs_valid = True, cs_error_status = e\<rparr>"

abbreviation disabled :: "conn_hw \<Rightarrow> ConnectionControlIf" where
  "disabled s \<equiv> (c_ctl_if s)\<lparr>cc_enable := False\<rparr>"

lemma cycle_report:
  assumes "frame_fifo s = []" and "\<not> ct_init s" and "c_ctl_state s = cCtlIdle" and "\<not> cc_enable (c_ctl_if s)"
    and "cs_valid (c_ctl_status_out s)"
  shows "hw_cycle False s = s\<lparr>c_st_tbl_rd_data := c_tbl_valid s 0, c_ctl_status_out := no_status,
     iRegConnStatus_hw := c_ctl_status_out s\<rparr>"
  using assms by (cases s) (simp add: cycle_no_frame ctl_comb_def ctl_status_def upd_tbl_def Let_def)

lemma cycle_wrong_id:
  assumes "enabled_hw s" and "unat (cc_conn_id (c_ctl_if s)) \<ge> 2 ^ LCONN_TBL_SIZE"
  shows "hw_cycle False s = s\<lparr>c_ctl_if := disabled s, c_st_tbl_rd_data := c_tbl_valid s 0,
    c_ctl_status_out := report s cIdWrong\<rparr>"
  using assms
  by (cases s) (simp add: enabled_hw_def cycle_no_frame ctl_comb_def ctl_status_def upd_tbl_def Let_def no_status_def)

lemma cycle_check:
  assumes "enabled_hw s" and "\<not> unat (cc_conn_id (c_ctl_if s)) \<ge> 2 ^ LCONN_TBL_SIZE"
  shows "hw_cycle False s = s\<lparr>c_ctl_if := disabled s, c_st_tbl_rd_data := c_tbl_valid s (ucast (cc_conn_id (c_ctl_if s))),
    c_ctl_state := (if cc_open (c_ctl_if s) then cCtlOpenCheck else cCtlCloseCheck)\<rparr>"
  using assms
  by (cases s) (simp add: enabled_hw_def cycle_no_frame ctl_comb_def ctl_status_def upd_tbl_def Let_def no_status_def)

lemma cycle_refuse:
  assumes "frame_fifo s = []" and "\<not> ct_init s" and "\<not> cc_enable (c_ctl_if s)" and "c_ctl_status_out s = no_status"
    and "c_ctl_state s = cCtlOpenCheck \<and> c_st_tbl_rd_data s \<and> e = cAlreadyOpen
      \<or> c_ctl_state s = cCtlCloseCheck \<and> \<not> c_st_tbl_rd_data s \<and> e = cIsClosed"
  shows "hw_cycle False s = s\<lparr>c_st_tbl_rd_data := c_tbl_valid s 0, c_ctl_state := cCtlIdle, c_ctl_status_out := report s e\<rparr>"
  using assms
  by (cases s) (auto simp add: cycle_no_frame ctl_comb_def ctl_status_def upd_tbl_def Let_def no_status_def)

lemma cycle_write:
  assumes "frame_fifo s = []" and "\<not> ct_init s" and "\<not> cc_enable (c_ctl_if s)" and "c_ctl_status_out s = no_status"
    and "c_ctl_state s = cCtlOpenCheck \<and> \<not> c_st_tbl_rd_data s \<and> nxt = cCtlOpen
        \<and> e = \<lparr>te_dest_ip = cc_dest_ip (c_ctl_if s), te_dest_port = cc_dest_port (c_ctl_if s),
             te_client_flow_id = cc_client_flow_id (c_ctl_if s), te_status = True\<rparr>
      \<or> c_ctl_state s = cCtlCloseCheck \<and> c_st_tbl_rd_data s \<and> nxt = cCtlClose \<and> e = closed_entry"
  shows "hw_cycle False s = s\<lparr>c_tbl := (c_tbl s)(ucast (cc_conn_id (c_ctl_if s)) := e),
     c_tbl_r1 := (c_tbl_r1 s)(ucast (cc_conn_id (c_ctl_if s)) := e),
     c_tbl_valid := (c_tbl_valid s)(ucast (cc_conn_id (c_ctl_if s)) := te_status e),
     c_st_tbl_rd_data := c_tbl_valid s 0, c_ctl_state := nxt\<rparr>"
  using assms
  by (cases s) (auto simp add: cycle_no_frame ctl_comb_def ctl_status_def upd_tbl_def Let_def no_status_def)

lemma cycle_written:
  assumes "frame_fifo s = []" and "\<not> ct_init s" and "\<not> cc_enable (c_ctl_if s)" and "c_ctl_status_out s = no_status"
    and "c_ctl_state s = cCtlOpen \<or> c_ctl_state s = cCtlClose"
  shows "hw_cycle False s = s\<lparr>c_st_tbl_rd_data := c_tbl_valid s 0, c_ctl_state := cCtlIdle,
    c_ctl_status_out := report s cOK\<rparr>"
  using assms
  by (cases s) (auto simp add: cycle_no_frame ctl_comb_def ctl_status_def upd_tbl_def Let_def no_status_def)

lemmas op_defs = op_result_def op_write_def op_error_def upd_tbl_def Let_def cOK_def cAlreadyOpen_def
  cIsClosed_def cIdWrong_def

lemma next_tick:
  "ticks 2 s = hw_cycle False (ticks 1 s)" "ticks 3 s = hw_cycle False (ticks 2 s)"
  "ticks 4 s = hw_cycle False (ticks 3 s)"
  by (simp_all add: eval_nat_numeral)

lemma ticks_wrong_id:
  assumes "enabled_hw s" and "unat (cc_conn_id (c_ctl_if s)) \<ge> 2 ^ LCONN_TBL_SIZE"
  shows "iRegConnStatus_hw (ticks 1 s) = iRegConnStatus_hw s" and "ticks 2 s = op_result s"
proof -
  have 1: "ticks 1 s = s\<lparr>c_ctl_if := disabled s, c_st_tbl_rd_data := c_tbl_valid s 0,
    c_ctl_status_out := report s cIdWrong\<rparr>" using cycle_wrong_id [OF assms] by simp
  show "ticks 2 s = op_result s"
    unfolding next_tick 1 using assms by (subst cycle_report) (auto simp: enabled_hw_def op_defs)
  show "iRegConnStatus_hw (ticks 1 s) = iRegConnStatus_hw s" unfolding 1 by simp
qed

lemma ticks_refused:
  assumes "enabled_hw s" and "\<not> unat (cc_conn_id (c_ctl_if s)) \<ge> 2 ^ LCONN_TBL_SIZE"
    and "cc_open (c_ctl_if s) = c_tbl_valid s (ucast (cc_conn_id (c_ctl_if s)))"
  shows "iRegConnStatus_hw (ticks 1 s) = iRegConnStatus_hw s" and "iRegConnStatus_hw (ticks 2 s) = iRegConnStatus_hw s"
    and "ticks 3 s = op_result s"
proof -
  let ?c = "c_ctl_if s"
  let ?err = "if cc_open ?c then cAlreadyOpen else cIsClosed"
  have 1: "ticks 1 s = s\<lparr>c_ctl_if := disabled s, c_st_tbl_rd_data := c_tbl_valid s (ucast (cc_conn_id ?c)),
    c_ctl_state := (if cc_open ?c then cCtlOpenCheck else cCtlCloseCheck)\<rparr>"
    using cycle_check [OF assms(1,2)] by simp
  have 2: "ticks 2 s = s\<lparr>c_ctl_if := disabled s, c_st_tbl_rd_data := c_tbl_valid s 0,
    c_ctl_status_out := report s ?err\<rparr>"
    unfolding next_tick(1) 1 using assms by (subst cycle_refuse [where e = ?err]) (auto simp: enabled_hw_def)
  show "ticks 3 s = op_result s"
    unfolding next_tick(2) 2 using assms by (subst cycle_report) (auto simp: enabled_hw_def op_defs)
  show "iRegConnStatus_hw (ticks 1 s) = iRegConnStatus_hw s" and "iRegConnStatus_hw (ticks 2 s) = iRegConnStatus_hw s"
    unfolding 1 2 by simp_all
qed

lemma ticks_accepted:
  assumes "enabled_hw s" and "\<not> unat (cc_conn_id (c_ctl_if s)) \<ge> 2 ^ LCONN_TBL_SIZE"
    and "cc_open (c_ctl_if s) \<noteq> c_tbl_valid s (ucast (cc_conn_id (c_ctl_if s)))"
  shows "iRegConnStatus_hw (ticks 1 s) = iRegConnStatus_hw s" and "iRegConnStatus_hw (ticks 2 s) = iRegConnStatus_hw s"
    and "iRegConnStatus_hw (ticks 3 s) = iRegConnStatus_hw s" and "ticks 4 s = op_result s"
proof -
  let ?c = "c_ctl_if s" and ?a = "ucast (cc_conn_id (c_ctl_if s)) :: CTAddr"
  let ?e = "if cc_open ?c then \<lparr>te_dest_ip = cc_dest_ip ?c, te_dest_port = cc_dest_port ?c,
    te_client_flow_id = cc_client_flow_id ?c, te_status = True\<rparr> else closed_entry"
  have 1: "ticks 1 s = s\<lparr>c_ctl_if := disabled s, c_st_tbl_rd_data := c_tbl_valid s ?a,
    c_ctl_state := (if cc_open ?c then cCtlOpenCheck else cCtlCloseCheck)\<rparr>"
    using cycle_check [OF assms(1,2)] by simp
  have 2: "ticks 2 s = s\<lparr>c_ctl_if := disabled s, c_tbl := (c_tbl s)(?a := ?e), c_tbl_r1 := (c_tbl_r1 s)(?a := ?e),
    c_tbl_valid := (c_tbl_valid s)(?a := te_status ?e), c_st_tbl_rd_data := c_tbl_valid s 0,
    c_ctl_state := (if cc_open ?c then cCtlOpen else cCtlClose)\<rparr>"
    unfolding next_tick(1) 1 using assms
    by (subst cycle_write [where e = ?e and nxt = "if cc_open ?c then cCtlOpen else cCtlClose"])
      (auto simp: enabled_hw_def)
  have 3: "ticks 3 s = s\<lparr>c_ctl_if := disabled s, c_tbl := (c_tbl s)(?a := ?e), c_tbl_r1 := (c_tbl_r1 s)(?a := ?e),
    c_tbl_valid := (c_tbl_valid s)(?a := te_status ?e), c_st_tbl_rd_data := ((c_tbl_valid s)(?a := te_status ?e)) 0,
    c_ctl_status_out := report s cOK\<rparr>"
    unfolding next_tick(2) 2 using assms by (subst cycle_written) (auto simp: enabled_hw_def)
  show "ticks 4 s = op_result s"
    unfolding next_tick(3) 3 using assms by (subst cycle_report) (auto simp: enabled_hw_def op_defs closed_entry_def)
  show "iRegConnStatus_hw (ticks 1 s) = iRegConnStatus_hw s" and "iRegConnStatus_hw (ticks 2 s) = iRegConnStatus_hw s"
    and "iRegConnStatus_hw (ticks 3 s) = iRegConnStatus_hw s"
    unfolding 1 2 3 by simp_all
qed

lemma enabled_ticks:
  assumes "enabled_hw s"
  shows "\<exists>d \<le> 4. (\<forall>k < d. iRegConnStatus_hw (ticks k s) = iRegConnStatus_hw s) \<and> ticks d s = op_result s"
proof -
  consider "unat (cc_conn_id (c_ctl_if s)) \<ge> 2 ^ LCONN_TBL_SIZE"
    | "\<not> unat (cc_conn_id (c_ctl_if s)) \<ge> 2 ^ LCONN_TBL_SIZE" "cc_open (c_ctl_if s) = c_tbl_valid s (ucast (cc_conn_id (c_ctl_if s)))"
    | "\<not> unat (cc_conn_id (c_ctl_if s)) \<ge> 2 ^ LCONN_TBL_SIZE" "cc_open (c_ctl_if s) \<noteq> c_tbl_valid s (ucast (cc_conn_id (c_ctl_if s)))"
    by blast
  then show ?thesis
  proof cases
    case 1
    then show ?thesis using ticks_wrong_id [OF assms] by (intro exI [of _ 2]) (auto simp: less_2_cases_iff)
  next
    case 2
    then show ?thesis using ticks_refused [OF assms] by (intro exI [of _ 3]) (auto simp: less_Suc_eq eval_nat_numeral)
  next
    case 3
    then show ?thesis using ticks_accepted [OF assms] by (intro exI [of _ 4]) (auto simp: less_Suc_eq eval_nat_numeral)
  qed
qed

lemma settlesI:
  assumes "d \<le> 16" and "\<And>k. k < d \<Longrightarrow> iRegConnStatus_hw (ticks k s) = no_status" and "ticks d s = F" and "quiet_hw F"
  shows "settles s F"
proof -
  have "ticks k s = F" if "d \<le> k" for k
    using assms(3,4) quiet_ticks [of F "k - d"] that by (metis funpow_add comp_apply le_add_diff_inverse2)
  then show ?thesis using assms(1,2) unfolding settles_def by blast
qed

lemma settles_ticks: "settles s F \<Longrightarrow> settles (ticks k s) F"
proof -
  assume "settles s F"
  then obtain d where d: "d \<le> 16" "\<forall>k < d. iRegConnStatus_hw (ticks k s) = no_status" "\<forall>k \<ge> d. ticks k s = F"
    by (auto simp: settles_def)
  have t: "ticks j (ticks k s) = ticks (j + k) s" for j by (simp add: funpow_add)
  show ?thesis unfolding settles_def t using d by (intro exI [of _ "d - k"]) auto
qed

lemma settles_now: "settles s F \<Longrightarrow> iRegConnStatus_hw s = no_status \<or> s = F"
  unfolding settles_def by (metis funpow_0 gr_zeroI order_refl)

lemma settles_later: "settles s F \<Longrightarrow> 16 \<le> k \<Longrightarrow> ticks k s = F"
  by (auto simp: settles_def)

lemma op_settles:
  assumes "quiet_hw s" and "iRegConnStatus_hw s = no_status" and "list_all sets_register fs" and "length fs \<le> 5"
    and "j \<le> length fs" and "enabled_hw (parsed (Some f) (fold (\<lambda>f. parsed (Some f)) fs s))"
  shows "settles (fed (fs @ [f]) j s) (op_result (parsed (Some f) (fold (\<lambda>f. parsed (Some f)) fs s)))"
proof -
  let ?A = "parsed (Some f) (fold (\<lambda>f. parsed (Some f)) fs s)" and ?s = "fed (fs @ [f]) j s"
  define m where "m = Suc (length fs) - j"
  obtain d where d: "d \<le> 4" "\<forall>k < d. iRegConnStatus_hw (ticks k ?A) = iRegConnStatus_hw ?A" "ticks d ?A = op_result ?A"
    using enabled_ticks [OF assms(6)] by blast
  have A: "ticks m ?s = ?A"
    using ticks_fed_upto [OF assms(1,3), of j m f] assms(5,6) by (simp add: m_def fed_def enabled_hw_def)
  have early: "iRegConnStatus_hw (ticks k ?s) = no_status" if "k \<le> m" for k
    using ticks_fed_upto [OF assms(1,3), of j k f] that assms(2,5)
    by (simp add: m_def fed_def quiet_status)
  have "iRegConnStatus_hw (ticks k ?s) = no_status" if "k < d + m" for k
  proof (cases "k \<le> m")
    case False
    then have "ticks k ?s = ticks (k - m) ?A" using A by (metis funpow_add comp_apply le_add_diff_inverse2 nat_le_linear)
    then show ?thesis using d(2) that False early [of m] A by simp
  qed (rule early)
  moreover have "ticks (d + m) ?s = op_result ?A" using A d(3) by (simp add: funpow_add)
  ultimately show ?thesis
    using d(1) assms(4) by (intro settlesI [where d = "d + m"] quiet_op_result assms(6)) (auto simp: m_def)
qed

section \<open>Opening and closing\<close>

definition open_frames :: "u32 \<Rightarrow> u32 \<Rightarrow> u16 \<Rightarrow> u16 \<Rightarrow> hw_frame list" where
  "open_frames cid ip port flow = [(cid, 0), (1, 1), (ip, 2), (ucast port, 3), (ucast flow, 4)]"

definition close_frames :: "u32 \<Rightarrow> hw_frame list" where
  "close_frames cid = [(cid, 0), (0, 1)]"

definition enable_frame :: hw_frame where
  "enable_frame = (1, 5)"

abbreviation parse_all :: "hw_frame list \<Rightarrow> conn_hw \<Rightarrow> conn_hw" where
  "parse_all fs s \<equiv> fold (\<lambda>f. parsed (Some f)) fs s"

lemma open_frames_register: "list_all sets_register (open_frames cid ip port flow)" "length (open_frames cid ip port flow) = 5"
  by (simp_all add: open_frames_def sets_register_def)

lemma close_frames_register: "list_all sets_register (close_frames cid)" "length (close_frames cid) = 2"
  by (simp_all add: close_frames_def sets_register_def)

lemma parse_all_tables:
  "c_tbl (parse_all fs s) = c_tbl s" "c_tbl_r1 (parse_all fs s) = c_tbl_r1 s" "c_tbl_valid (parse_all fs s) = c_tbl_valid s"
  by (induction fs arbitrary: s) auto

lemma vector_cases: "length v = 5 \<Longrightarrow> \<exists>a b c d e. v = [a, b, c, d, e]"
  by (auto simp: numeral_eq_Suc length_Suc_conv)

lemma open_enabled:
  assumes "quiet_hw s"
  shows "enabled_hw (parsed (Some enable_frame) (parse_all (open_frames cid ip port flow) s))"
    and "c_ctl_if (parsed (Some enable_frame) (parse_all (open_frames cid ip port flow) s))
      = \<lparr>cc_conn_id = ucast cid, cc_dest_ip = ip, cc_dest_port = port,
         cc_client_flow_id = ucast flow, cc_open = True, cc_enable = True\<rparr>"
proof -
  have "length (setup_vector s) = 5" using assms by (simp add: quiet_hw_def)
  then obtain a b c d e where v: "setup_vector s = [a, b, c, d, e]" using vector_cases by blast
  have port: "ucast (ucast port :: u32) = port" by (rule bit_word_eqI) (auto simp: bit_simps)
  have flow: "ucast (ucast flow :: u32) = (ucast flow :: FlowId)" by (rule bit_word_eqI) (auto simp: bit_simps)
  have "parsed (Some enable_frame) (parse_all (open_frames cid ip port flow) s)
    = s\<lparr>c_ctl_if := \<lparr>cc_conn_id = ucast cid, cc_dest_ip = ip, cc_dest_port = port,
         cc_client_flow_id = ucast flow, cc_open = True, cc_enable = True\<rparr>,
        setup_vector := [False, False, False, False, True]\<rparr>"
    by (cases s; cases "c_ctl_if s")
      (use v in \<open>simp add: open_frames_def enable_frame_def parsed_def parse_frame_def clear_vector_def port flow\<close>)
  then show "enabled_hw (parsed (Some enable_frame) (parse_all (open_frames cid ip port flow) s))"
    and "c_ctl_if (parsed (Some enable_frame) (parse_all (open_frames cid ip port flow) s))
      = \<lparr>cc_conn_id = ucast cid, cc_dest_ip = ip, cc_dest_port = port,
         cc_client_flow_id = ucast flow, cc_open = True, cc_enable = True\<rparr>"
    using assms by (simp_all add: enabled_hw_def quiet_hw_def)
qed

lemma close_enabled:
  assumes "quiet_hw s"
  shows "enabled_hw (parsed (Some enable_frame) (parse_all (close_frames cid) s))"
    and "c_ctl_if (parsed (Some enable_frame) (parse_all (close_frames cid) s))
      = (c_ctl_if s)\<lparr>cc_conn_id := ucast cid, cc_open := False, cc_enable := True\<rparr>"
proof -
  have "length (setup_vector s) = 5" using assms by (simp add: quiet_hw_def)
  then obtain a b c d e where v: "setup_vector s = [a, b, c, d, e]" using vector_cases by blast
  have "parsed (Some enable_frame) (parse_all (close_frames cid) s)
    = s\<lparr>c_ctl_if := (c_ctl_if s)\<lparr>cc_conn_id := ucast cid, cc_open := False, cc_enable := True\<rparr>,
        setup_vector := [False, False, False, False, e]\<rparr>"
    by (cases s; cases "c_ctl_if s")
      (use v in \<open>simp add: close_frames_def enable_frame_def parsed_def parse_frame_def clear_vector_def\<close>)
  then show "enabled_hw (parsed (Some enable_frame) (parse_all (close_frames cid) s))"
    and "c_ctl_if (parsed (Some enable_frame) (parse_all (close_frames cid) s))
      = (c_ctl_if s)\<lparr>cc_conn_id := ucast cid, cc_open := False, cc_enable := True\<rparr>"
    using assms by (simp_all add: enabled_hw_def quiet_hw_def)
qed

text \<open>What an operation does to the table of connections, as a software developer sees it.\<close>

definition hw_open :: "u32 \<Rightarrow> u32 \<times> u16 \<times> FlowId \<Rightarrow> (CTAddr \<rightharpoonup> u32 \<times> u16 \<times> FlowId)
    \<Rightarrow> u64 \<times> (CTAddr \<rightharpoonup> u32 \<times> u16 \<times> FlowId)" where
  "hw_open cid e t = (if unat (ucast cid :: u8) \<ge> 16 then (cIdWrong, t)
     else if t (ucast cid) \<noteq> None then (cAlreadyOpen, t) else (cOK, t(ucast cid \<mapsto> e)))"

definition hw_close :: "u32 \<Rightarrow> (CTAddr \<rightharpoonup> u32 \<times> u16 \<times> FlowId)
    \<Rightarrow> u64 \<times> (CTAddr \<rightharpoonup> u32 \<times> u16 \<times> FlowId)" where
  "hw_close cid t = (if unat (ucast cid :: u8) \<ge> 16 then (cIdWrong, t)
     else if t (ucast cid) = None then (cIsClosed, t) else (cOK, t(ucast cid := None)))"

lemma ucast_addr: "ucast (ucast cid :: u8) = (ucast (cid :: u32) :: CTAddr)"
  by (rule bit_word_eqI) (auto simp: bit_simps)

lemma op_open:
  fixes cid ip :: u32 and port flow :: u16
  assumes "quiet_hw s" and "tbls_ok s"
  defines "F \<equiv> op_result (parsed (Some enable_frame) (parse_all (open_frames cid ip port flow) s))"
  shows "quiet_hw F" and "tbls_ok F"
    and "(cs_error_status (iRegConnStatus_hw F), hw_conns F) = hw_open cid (ip, port, ucast flow) (hw_conns s)"
    and "cs_valid (iRegConnStatus_hw F)" and "cs_conn_id (iRegConnStatus_hw F) = ucast (ucast cid :: u8)"
proof -
  note e = open_enabled [OF assms(1), of cid ip port flow]
  show "quiet_hw F" unfolding F_def by (rule quiet_op_result [OF e(1)])
  show "tbls_ok F" and "(cs_error_status (iRegConnStatus_hw F), hw_conns F) = hw_open cid (ip, port, ucast flow) (hw_conns s)"
    and "cs_valid (iRegConnStatus_hw F)" and "cs_conn_id (iRegConnStatus_hw F) = ucast (ucast cid :: u8)"
    using assms(2) unfolding F_def
    by (auto simp: op_defs e(2) parse_all_tables tbls_ok_def hw_conns_def hw_open_def LCONN_TBL_SIZE_def ucast_addr
        fun_eq_iff)
qed

lemma op_close:
  fixes cid :: u32
  assumes "quiet_hw s" and "tbls_ok s"
  defines "F \<equiv> op_result (parsed (Some enable_frame) (parse_all (close_frames cid) s))"
  shows "quiet_hw F" and "tbls_ok F"
    and "(cs_error_status (iRegConnStatus_hw F), hw_conns F) = hw_close cid (hw_conns s)"
    and "cs_valid (iRegConnStatus_hw F)" and "cs_conn_id (iRegConnStatus_hw F) = ucast (ucast cid :: u8)"
proof -
  note e = close_enabled [OF assms(1), of cid]
  show "quiet_hw F" unfolding F_def by (rule quiet_op_result [OF e(1)])
  show "tbls_ok F" and "(cs_error_status (iRegConnStatus_hw F), hw_conns F) = hw_close cid (hw_conns s)"
    and "cs_valid (iRegConnStatus_hw F)" and "cs_conn_id (iRegConnStatus_hw F) = ucast (ucast cid :: u8)"
    using assms(2) unfolding F_def
    by (auto simp: op_defs e(2) parse_all_tables tbls_ok_def hw_conns_def hw_close_def LCONN_TBL_SIZE_def ucast_addr
        fun_eq_iff closed_entry_def)
qed

section \<open>Initialisation\<close>

definition reset_hw :: "conn_hw \<Rightarrow> bool" where
  "reset_hw s \<longleftrightarrow> frame_fifo s = [] \<and> \<not> cc_enable (c_ctl_if s) \<and> \<not> ct_init s \<and> ct_init_addr s = 0
     \<and> c_ctl_state s = cCtlIdle \<and> c_ctl_status_out s = no_status \<and> length (setup_vector s) = 5"

definition initing :: "nat \<Rightarrow> conn_hw \<Rightarrow> bool" where
  "initing k s \<longleftrightarrow> frame_fifo s = [] \<and> \<not> cc_enable (c_ctl_if s) \<and> ct_init s \<and> ct_init_addr s = of_nat k
     \<and> c_ctl_state s = cCtlIdle \<and> c_ctl_status_out s = no_status \<and> length (setup_vector s) = 5
     \<and> (\<forall>a. unat a < k \<longrightarrow> c_tbl s a = closed_entry \<and> c_tbl_r1 s a = closed_entry \<and> \<not> c_tbl_valid s a)"

lemma cycle_init:
  assumes "initing k s"
  shows "hw_cycle False s = s\<lparr>ct_init := fst (init_next False s), ct_init_addr := fst (snd (init_next False s)),
    ct_initialized := snd (snd (init_next False s)),
    c_tbl := (c_tbl s)(of_nat k := closed_entry), c_tbl_r1 := (c_tbl_r1 s)(of_nat k := closed_entry),
    c_tbl_valid := (c_tbl_valid s)(of_nat k := False), c_st_tbl_rd_data := c_tbl_valid s 0\<rparr>"
  using assms
  by (cases s) (simp add: initing_def hw_cycle_def parse_frame_def ctl_comb_def ctl_status_def tbl_write_def
      upd_tbl_def Let_def no_status_def closed_entry_def split: prod.split)

lemma init_step:
  assumes "initing k s" and "k < 15"
  shows "initing (Suc k) (hw_cycle False s)"
proof -
  have "unat (of_nat k :: CTAddr) = k" using assms(2) by (simp add: unat_of_nat take_bit_nat_eq_self)
  moreover have "a = of_nat k" if "unat a < Suc k" "\<not> unat a < k" for a :: CTAddr
    using that by (metis less_antisym of_nat_unat ucast_id)
  ultimately show ?thesis
    using assms unfolding cycle_init [OF assms(1)]
    by (auto simp: initing_def init_next_def LCONN_TBL_SIZE_def)
qed

lemma init_run: "initing 0 s \<Longrightarrow> k \<le> 15 \<Longrightarrow> initing k (ticks k s)"
proof (induction k)
  case (Suc k)
  then show ?case using init_step [of k "ticks k s"] by simp
qed simp

lemma init_all:
  assumes "reset_hw s"
  shows "quiet_hw (ticks 16 (hw_cycle True s))" and "tbls_ok (ticks 16 (hw_cycle True s))"
    and "hw_conns (ticks 16 (hw_cycle True s)) = Map.empty"
proof -
  let ?s = "ticks 15 (hw_cycle True s)"
  have "initing 0 (hw_cycle True s)"
    using assms by (cases s) (simp add: reset_hw_def initing_def hw_cycle_def parse_frame_def ctl_comb_def
        ctl_status_def tbl_write_def init_next_def Let_def no_status_def split: prod.split)
  then have i: "initing 15 ?s" by (rule init_run) simp
  have c: "ticks 16 (hw_cycle True s) = hw_cycle False ?s" by (simp add: eval_nat_numeral)
  have all: "unat a < 15 \<or> a = 15" for a :: CTAddr
  proof -
    have "unat a < 2 ^ LENGTH(4)" by (rule unsigned_less)
    then show ?thesis by (auto simp: word_unat_eq_iff)
  qed
  have t: "c_tbl (hw_cycle False ?s) a = closed_entry" "c_tbl_r1 (hw_cycle False ?s) a = closed_entry"
    "\<not> c_tbl_valid (hw_cycle False ?s) a" for a
    using all [of a] i unfolding cycle_init [OF i] by (auto simp: initing_def)
  show "quiet_hw (ticks 16 (hw_cycle True s))"
    using i unfolding c cycle_init [OF i]
    by (simp add: quiet_hw_def initing_def init_next_def LCONN_TBL_SIZE_def)
  show "tbls_ok (ticks 16 (hw_cycle True s))"
    unfolding c tbls_ok_def using t by (auto simp: closed_entry_def)
  show "hw_conns (ticks 16 (hw_cycle True s)) = Map.empty"
    unfolding c hw_conns_def using t by (auto simp: closed_entry_def)
qed

section \<open>Path of the RPCs\<close>

text \<open>
  A packet from the CPU is looked up in the first copy of the table and leaves with the destination
  found there; one from the network is looked up in the second copy and leaves with the flow. The
  defaults of the read addresses are assigned through the wrong loop variable, so without a packet
  in range the address of the last look-up stays.
\<close>

record rpc_path =
  rd_addr0 :: CTAddr
  rd_addr1 :: CTAddr
  rd_data0 :: ConnectionTableEntry
  rd_data1 :: ConnectionTableEntry
  rpc_in_1d :: "RpcPckt option"
  rpc_net_in_1d :: "RpcPckt option"
  rpc_net_out :: "(RpcPckt \<times> u32 \<times> u16) option"
  rpc_out :: "(RpcPckt \<times> FlowId) option"
  rpc_path_error :: bool

definition in_range :: "RpcPckt \<Rightarrow> bool" where
  "in_range r \<longleftrightarrow> unat (c_id (hdr r)) < 2 ^ LCONN_TBL_SIZE"

definition lookup_addr :: "RpcPckt option \<Rightarrow> CTAddr \<Rightarrow> CTAddr" where
  "lookup_addr r a = (case r of None \<Rightarrow> a | Some r \<Rightarrow> if in_range r then ucast (c_id (hdr r)) else a)"

definition path_cycle :: "conn_hw \<Rightarrow> RpcPckt option \<Rightarrow> RpcPckt option \<Rightarrow> rpc_path \<Rightarrow> rpc_path" where
  "path_cycle s rin nin p = \<lparr>
     rd_addr0 = lookup_addr rin (rd_addr0 p), rd_addr1 = lookup_addr nin (rd_addr1 p),
     rd_data0 = c_tbl s (lookup_addr rin (rd_addr0 p)), rd_data1 = c_tbl_r1 s (lookup_addr nin (rd_addr1 p)),
     rpc_in_1d = rin, rpc_net_in_1d = nin,
     rpc_net_out = (case rpc_in_1d p of
         Some r \<Rightarrow> if te_status (rd_data0 p) then Some (r, te_dest_ip (rd_data0 p), te_dest_port (rd_data0 p)) else None
       | None \<Rightarrow> None),
     rpc_out = (case rpc_net_in_1d p of
         Some r \<Rightarrow> if te_status (rd_data1 p) then Some (r, te_client_flow_id (rd_data1 p)) else None
       | None \<Rightarrow> None),
     rpc_path_error = (rpc_path_error p
       \<or> (\<exists>r. rin = Some r \<and> \<not> in_range r) \<or> (rpc_in_1d p \<noteq> None \<and> \<not> te_status (rd_data0 p))
       \<or> (\<exists>r. nin = Some r \<and> \<not> in_range r) \<or> (rpc_net_in_1d p \<noteq> None \<and> \<not> te_status (rd_data1 p)))\<rparr>"

section \<open>Properties\<close>

text \<open>Writes to the set-up register, each followed by some cycles.\<close>

definition hw_writes :: "(u64 \<times> nat) list \<Rightarrow> conn_hw \<Rightarrow> conn_hw" where
  "hw_writes vks s = fold (\<lambda>(v, k) s. ticks k (push_frame v s)) vks s"

lemma hw_writes_fed:
  assumes "quiet_hw s" and "list_all sets_register (map (\<lambda>vk. frame_of (fst vk)) vks)"
  shows "\<exists>j \<le> length vks. hw_writes vks s = fed (map (\<lambda>vk. frame_of (fst vk)) vks) j s"
  using assms(2)
proof (induction vks rule: rev_induct)
  case Nil
  show ?case using assms(1) by (simp add: hw_writes_def fed_def quiet_hw_def)
next
  case (snoc vk vks)
  then obtain j where j: "j \<le> length vks" "hw_writes vks s = fed (map (\<lambda>vk. frame_of (fst vk)) vks) j s" by auto
  have "hw_writes (vks @ [vk]) s = ticks (snd vk) (fed (map (\<lambda>vk. frame_of (fst vk)) (vks @ [vk])) j s)"
    using push_fed [of j "map (\<lambda>vk. frame_of (fst vk)) vks" "fst vk" s] j by (simp add: hw_writes_def case_prod_beta)
  then show ?case
    using ticks_fed [OF assms(1) snoc.prems, of j "snd vk"] j(1) by auto
qed

lemma hw_writes_settles:
  assumes "quiet_hw s" and "iRegConnStatus_hw s = no_status" and "map (\<lambda>vk. frame_of (fst vk)) vks = fs @ [f]"
    and "list_all sets_register fs" and "length fs \<le> 5" and "enabled_hw (parsed (Some f) (parse_all fs s))"
  shows "settles (hw_writes vks s) (op_result (parsed (Some f) (parse_all fs s)))"
proof -
  obtain us u where vks: "vks = us @ [u]" using assms(3) by (cases vks rule: rev_cases) auto
  then have us: "map (\<lambda>vk. frame_of (fst vk)) us = fs" "frame_of (fst u) = f" using assms(3) by auto
  obtain j where j: "j \<le> length us" "hw_writes us s = fed fs j s"
    using hw_writes_fed [OF assms(1), of us] assms(4) us by auto
  have "length us = length fs" using us(1) by (metis length_map)
  moreover have "hw_writes vks s = ticks (snd u) (fed (fs @ [f]) j s)"
    using push_fed [of j fs "fst u" s] j us calculation by (simp add: vks hw_writes_def case_prod_beta)
  ultimately show ?thesis
    using op_settles [OF assms(1,2,4,5) _ assms(6)] j(1) by (simp add: settles_ticks)
qed

text \<open>
  C24. The set-up machine of the hardware: if the six frames of an open reach an idle connection
  manager one by one, with any number of cycles between them, then at most sixteen cycles after the
  last one it is idle again, both copies of its table agree, and the status register and the table
  are what the atomic operation \<open>hw_open\<close> says: the id is out of range, or the connection is open
  already, or it is open now with the address, port and flow of the frames. The same holds for the
  three frames of a close.
\<close>

theorem hw_setup_atomic:
  assumes "quiet_hw s" and "tbls_ok s" and "iRegConnStatus_hw s = no_status" and "16 \<le> k"
  shows "(map (\<lambda>vk. frame_of (fst vk)) vks = open_frames cid ip port flow @ [enable_frame] \<longrightarrow>
      (let F = ticks k (hw_writes vks s) in quiet_hw F \<and> tbls_ok F
        \<and> cs_valid (iRegConnStatus_hw F) \<and> cs_conn_id (iRegConnStatus_hw F) = ucast (ucast cid :: u8)
        \<and> (cs_error_status (iRegConnStatus_hw F), hw_conns F) = hw_open cid (ip, port, ucast flow) (hw_conns s)))
    \<and> (map (\<lambda>vk. frame_of (fst vk)) vks = close_frames cid @ [enable_frame] \<longrightarrow>
      (let F = ticks k (hw_writes vks s) in quiet_hw F \<and> tbls_ok F
        \<and> cs_valid (iRegConnStatus_hw F) \<and> cs_conn_id (iRegConnStatus_hw F) = ucast (ucast cid :: u8)
        \<and> (cs_error_status (iRegConnStatus_hw F), hw_conns F) = hw_close cid (hw_conns s)))"
proof (intro conjI impI)
  assume v: "map (\<lambda>vk. frame_of (fst vk)) vks = open_frames cid ip port flow @ [enable_frame]"
  have "ticks k (hw_writes vks s) = op_result (parsed (Some enable_frame) (parse_all (open_frames cid ip port flow) s))"
    by (rule settles_later [OF hw_writes_settles [OF assms(1,3) v _ _ open_enabled(1)] assms(4)])
      (simp_all add: open_frames_register assms(1))
  then show "let F = ticks k (hw_writes vks s) in quiet_hw F \<and> tbls_ok F
        \<and> cs_valid (iRegConnStatus_hw F) \<and> cs_conn_id (iRegConnStatus_hw F) = ucast (ucast cid :: u8)
        \<and> (cs_error_status (iRegConnStatus_hw F), hw_conns F) = hw_open cid (ip, port, ucast flow) (hw_conns s)"
    using op_open [OF assms(1,2), of cid ip port flow] by (simp only: Let_def simp_thms)
next
  assume v: "map (\<lambda>vk. frame_of (fst vk)) vks = close_frames cid @ [enable_frame]"
  have "ticks k (hw_writes vks s) = op_result (parsed (Some enable_frame) (parse_all (close_frames cid) s))"
    by (rule settles_later [OF hw_writes_settles [OF assms(1,3) v _ _ close_enabled(1)] assms(4)])
      (simp_all add: close_frames_register assms(1))
  then show "let F = ticks k (hw_writes vks s) in quiet_hw F \<and> tbls_ok F
        \<and> cs_valid (iRegConnStatus_hw F) \<and> cs_conn_id (iRegConnStatus_hw F) = ucast (ucast cid :: u8)
        \<and> (cs_error_status (iRegConnStatus_hw F), hw_conns F) = hw_close cid (hw_conns s)"
    using op_close [OF assms(1,2), of cid] by (simp only: Let_def simp_thms)
qed

text \<open>
  C25. Initialisation of the hardware tables: whatever the memories held after reset, sixteen cycles
  after the initialisation pulse the connection manager is idle and no connection is open.
\<close>

theorem hw_init_clears:
  assumes "reset_hw s"
  shows "quiet_hw (ticks 16 (hw_cycle True s)) \<and> tbls_ok (ticks 16 (hw_cycle True s))
    \<and> hw_conns (ticks 16 (hw_cycle True s)) = Map.empty"
  using init_all [OF assms] by blast

text \<open>
  C26. Routing: two cycles after a packet whose connection id is in range enters the RPC unit it
  leaves towards the address and port its connection has in the table, or, from the network, towards
  the client flow of its connection; a packet of a closed connection is dropped and reported. A packet
  from the CPU whose id is out of range is reported too, but it is not dropped: it leaves towards the
  destination of the connection that was looked up before it, if that one is open.
\<close>

theorem hw_routing:
  assumes "tbls_ok s"
  shows "(in_range r \<longrightarrow>
      (let p' = path_cycle s2 rin nin' (path_cycle s (Some r) nin p) in
       case hw_conns s (ucast (c_id (hdr r))) of
         Some (ip, port, flow) \<Rightarrow> rpc_net_out p' = Some (r, ip, port)
       | None \<Rightarrow> rpc_net_out p' = None \<and> rpc_path_error p'))
    \<and> (in_range r \<longrightarrow>
      (let p' = path_cycle s2 rin' nin' (path_cycle s rin (Some r) p) in
       case hw_conns s (ucast (c_id (hdr r))) of
         Some (ip, port, flow) \<Rightarrow> rpc_out p' = Some (r, flow)
       | None \<Rightarrow> rpc_out p' = None \<and> rpc_path_error p'))
    \<and> (\<not> in_range r \<longrightarrow>
      (let p' = path_cycle s2 rin nin' (path_cycle s (Some r) nin p) in
       rpc_path_error p' \<and> rpc_net_out p' =
         (case hw_conns s (rd_addr0 p) of Some (ip, port, flow) \<Rightarrow> Some (r, ip, port) | None \<Rightarrow> None)))"
  using assms by (simp add: path_cycle_def lookup_addr_def hw_conns_def tbls_ok_def)

section \<open>Examples\<close>

definition hw_reset :: conn_hw where
  "hw_reset = \<lparr>frame_fifo = [], c_ctl_if = \<lparr>cc_conn_id = 0, cc_dest_ip = 0, cc_dest_port = 0, cc_client_flow_id = 0,
     cc_open = False, cc_enable = False\<rparr>, setup_vector = replicate 5 False, conn_setup_parsing_error = False,
     ct_initialized = False, ct_init = False, ct_init_addr = 0,
     c_tbl = (\<lambda>_. closed_entry\<lparr>te_status := True\<rparr>), c_tbl_r1 = (\<lambda>_. closed_entry), c_tbl_valid = (\<lambda>a. a = 3),
     c_st_tbl_rd_data = False, c_ctl_state = cCtlIdle, c_ctl_status_out = no_status, iRegConnStatus_hw = no_status\<rparr>"

definition hw_idle :: conn_hw where
  "hw_idle = hw_reset\<lparr>ct_initialized := True, c_tbl := (\<lambda>_. closed_entry), c_tbl_valid := (\<lambda>_. False)\<rparr>"

lemma hw_idle: "quiet_hw hw_idle" "tbls_ok hw_idle" "iRegConnStatus_hw hw_idle = no_status" "hw_conns hw_idle = Map.empty"
  by (simp_all add: hw_idle_def hw_reset_def quiet_hw_def tbls_ok_def hw_conns_def closed_entry_def fun_eq_iff)

theorem hw_init_clears_witness:
  "reset_hw hw_reset \<and> hw_conns hw_reset 5 \<noteq> None \<and> hw_conns (ticks 16 (hw_cycle True hw_reset)) = Map.empty"
proof -
  have r: "reset_hw hw_reset" by (simp add: reset_hw_def hw_reset_def)
  have "hw_conns hw_reset 5 \<noteq> None" by (simp add: hw_conns_def hw_reset_def)
  then show ?thesis using hw_init_clears [OF r] r by blast
qed

theorem hw_setup_atomic_witness:
  "hw_conns (ticks 20 (hw_writes [(0x000000003, 0), (0x100000001, 2), (0x20100007f, 0), (0x300000c40, 0),
      (0x400000001, 1), (0x500000001, 0)] hw_idle)) 3 = Some (0x0100007f, 0xc40, 1)"
proof -
  let ?vks = "[(0x000000003, 0), (0x100000001, 2), (0x20100007f, 0), (0x300000c40, 0), (0x400000001, 1), (0x500000001, 0)]
    :: (u64 \<times> nat) list"
  have "map (\<lambda>vk. frame_of (fst vk)) ?vks = open_frames 3 0x0100007f 0xc40 1 @ [enable_frame]"
    by (simp add: frame_of_def open_frames_def enable_frame_def)
  then have "(cs_error_status (iRegConnStatus_hw (ticks 20 (hw_writes ?vks hw_idle))), hw_conns (ticks 20 (hw_writes ?vks hw_idle)))
      = hw_open 3 (0x0100007f, 0xc40, ucast (1 :: u16)) (hw_conns hw_idle)"
    using conjunct1 [OF hw_setup_atomic [OF hw_idle(1-3), of 20 ?vks 3 "0x0100007f" "0xc40" 1]] by (simp add: Let_def)
  then show ?thesis by (simp add: hw_open_def hw_idle(4))
qed

definition hw_one :: conn_hw where
  "hw_one = hw_idle\<lparr>c_tbl := (\<lambda>_. closed_entry)(2 := \<lparr>te_dest_ip = 9, te_dest_port = 8, te_client_flow_id = 7, te_status = True\<rparr>),
     c_tbl_r1 := (\<lambda>_. closed_entry)(2 := \<lparr>te_dest_ip = 9, te_dest_port = 8, te_client_flow_id = 7, te_status = True\<rparr>),
     c_tbl_valid := (\<lambda>a. a = 2)\<rparr>"

definition pckt_of_conn :: "u8 \<Rightarrow> RpcPckt" where
  "pckt_of_conn cid = \<lparr>hdr = \<lparr>ctl = \<lparr>req_type = False, update_flag = False, valid = True\<rparr>, rpc_id = 1, n_of_frames = 1,
     frame_id = 0, fn_id = 0, argl = 0, c_id = cid\<rparr>, argv = replicate 52 0\<rparr>"

definition path_after_2 :: rpc_path where
  "path_after_2 = \<lparr>rd_addr0 = 2, rd_addr1 = 0, rd_data0 = closed_entry, rd_data1 = closed_entry, rpc_in_1d = None,
     rpc_net_in_1d = None, rpc_net_out = None, rpc_out = None, rpc_path_error = False\<rparr>"

theorem hw_routing_witness:
  "\<not> in_range (pckt_of_conn 200)
    \<and> rpc_net_out (path_cycle hw_one None None (path_cycle hw_one (Some (pckt_of_conn 200)) None path_after_2))
      = Some (pckt_of_conn 200, 9, 8)"
proof -
  have ok: "tbls_ok hw_one" by (auto simp: tbls_ok_def hw_one_def closed_entry_def)
  have range: "\<not> in_range (pckt_of_conn 200)" by (simp add: in_range_def LCONN_TBL_SIZE_def pckt_of_conn_def)
  have two: "hw_conns hw_one (rd_addr0 path_after_2) = Some (9, 8, 7)" by (simp add: hw_conns_def hw_one_def path_after_2_def)
  show ?thesis
    using hw_routing [OF ok, where r = "pckt_of_conn 200" and ?s2.0 = hw_one and rin = None and nin = None and nin' = None
        and p = path_after_2] range two
    by (simp add: Let_def)
qed

end
