(* ===== verification/Queues.thy ===== *)
theory Queues
  imports Rpc_Defs
begin

text \<open>
  The transmit and receive rings of a flow (\<^verbatim>\<open>tx_queue.h\<close>, \<^verbatim>\<open>tx_queue.cc\<close>, \<^verbatim>\<open>rx_queue.h\<close>,
  \<^verbatim>\<open>rx_queue.cc\<close>). Both advance one position through an array that belongs to the queue, update
  the slot they leave and wrap at the depth; the locale \<open>ring\<close> states this contract and derives
  where the position is and what a slot holds after any number of calls. It is interpreted on both
  queues. A pointer is a 64-bit address with 0 for \<^verbatim>\<open>nullptr\<close>; the arrays the queues allocate are
  lists, \<open>None\<close> while the member is null.
\<close>

section \<open>Rings\<close>

text \<open>The arguments of those calls, in a sequence that starts at position \<open>p\<close>, that hit slot \<open>i\<close>.\<close>

fun visits :: "nat \<Rightarrow> nat \<Rightarrow> nat \<Rightarrow> 'x list \<Rightarrow> 'x list" where
  "visits c p i [] = []"
| "visits c p i (x # xs) = (if p mod c = i then x # visits c (Suc p) i xs else visits c (Suc p) i xs)"

lemma visits_append: "visits c p i (xs @ ys) = visits c p i xs @ visits c (p + length xs) i ys"
  by (induction xs arbitrary: p) auto

lemma visits_mod: "visits c (p mod c) i xs = visits c p i xs"
proof (induction xs arbitrary: p)
  case (Cons x xs)
  show ?case using Cons [of "Suc p"] Cons [of "Suc (p mod c)"] by (simp add: mod_Suc_eq)
qed simp

lemma visits_none: "(\<And>j. j < length xs \<Longrightarrow> (p + j) mod c \<noteq> i) \<Longrightarrow> visits c p i xs = []"
proof (induction xs arbitrary: p)
  case (Cons x xs)
  have "(Suc p + j) mod c \<noteq> i" if "j < length xs" for j
    using Cons.prems [of "Suc j"] that by simp
  then have "visits c (Suc p) i xs = []" by (rule Cons.IH)
  then show ?case using Cons.prems [of 0] by simp
qed simp

lemma mod_other_in_lap:
  assumes "0 < j" and "j < c"
  shows "(p + j) mod c \<noteq> p mod (c::nat)"
proof
  assume "(p + j) mod c = p mod c"
  then have "c dvd (p + j) - p" by (metis le_add1 mod_eq_dvd_iff_nat)
  then show False using assms by (simp add: nat_dvd_not_less)
qed

text \<open>One full lap that starts at the slot hits it once, with its first call.\<close>

lemma visits_lap:
  assumes "length ys = c" and "0 < c"
  shows "visits c p (p mod c) ys = [hd ys]"
proof (cases ys)
  case Nil
  then show ?thesis using assms by simp
next
  case (Cons y zs)
  have "visits c (Suc p) (p mod c) zs = []"
    using assms Cons mod_other_in_lap [of "Suc _" c p] by (intro visits_none) simp
  then show ?thesis using Cons by simp
qed

lemma visits_first_lap: "length xs < c \<Longrightarrow> visits c 0 (length xs) xs = []"
  by (rule visits_none) simp

lemma visits_last_lap:
  assumes "c \<le> length xs" and "0 < c"
  shows "visits c 0 (length xs mod c) xs
    = visits c 0 (length xs mod c) (take (length xs - c) xs) @ [xs ! (length xs - c)]"
proof -
  let ?k = "length xs - c"
  have "?k mod c = length xs mod c" using assms(1) by (metis le_mod_geq)
  moreover have "visits c ?k (?k mod c) (drop ?k xs) = [hd (drop ?k xs)]"
    using assms by (intro visits_lap) auto
  moreover have "hd (drop ?k xs) = xs ! ?k"
    using assms by (simp add: hd_drop_conv_nth)
  moreover have "visits c 0 (length xs mod c) xs = visits c 0 (length xs mod c) (take ?k xs)
      @ visits c ?k (length xs mod c) (drop ?k xs)"
    using visits_append [of c 0 "length xs mod c" "take ?k xs" "drop ?k xs"] by simp
  ultimately show ?thesis by simp
qed

lemma length_visits_laps:
  "0 < c \<Longrightarrow> length (visits c 0 (length xs mod c) xs) = length xs div c"
proof (induction "length xs" arbitrary: xs rule: less_induct)
  case less
  show ?case
  proof (cases "length xs < c")
    case True
    then show ?thesis by (simp add: visits_first_lap)
  next
    case False
    let ?ys = "take (length xs - c) xs"
    have "length ?ys mod c = length xs mod c" using False by (simp add: le_mod_geq)
    moreover have "length ?ys < length xs" using False less.prems by simp
    ultimately have "length (visits c 0 (length xs mod c) ?ys) = length ?ys div c"
      using less.hyps [of ?ys] less.prems by simp
    then show ?thesis
      using False less.prems by (simp add: visits_last_lap le_div_geq not_less)
  qed
qed

text \<open>
  The contract of a ring: \<open>pos\<close> is the current position, \<open>slot\<close> the word kept for a position, and
  \<open>advance x\<close> the call that finishes the current position with argument \<open>x\<close>.
\<close>

locale ring =
  fixes invar :: "'q \<Rightarrow> bool"
    and pos :: "'q \<Rightarrow> nat"
    and cap :: "'q \<Rightarrow> nat"
    and slot :: "'q \<Rightarrow> nat \<Rightarrow> 'v"
    and upd :: "'x \<Rightarrow> 'v \<Rightarrow> 'v"
    and advance :: "'x \<Rightarrow> 'q \<Rightarrow> 'q"
  assumes pos_less: "invar q \<Longrightarrow> pos q < cap q"
    and invar_advance: "invar q \<Longrightarrow> invar (advance x q)"
    and cap_advance: "invar q \<Longrightarrow> cap (advance x q) = cap q"
    and pos_advance: "invar q \<Longrightarrow> pos (advance x q) = Suc (pos q) mod cap q"
    and slot_advance: "invar q \<Longrightarrow> i < cap q \<Longrightarrow>
      slot (advance x q) i = (if i = pos q then upd x (slot q i) else slot q i)"
begin

lemma invar_run: "invar q \<Longrightarrow> invar (fold advance xs q)"
  by (induction xs arbitrary: q) (auto simp: invar_advance)

lemma cap_run: "invar q \<Longrightarrow> cap (fold advance xs q) = cap q"
  by (induction xs arbitrary: q) (auto simp: invar_advance cap_advance)

lemma pos_run: "invar q \<Longrightarrow> pos (fold advance xs q) = (pos q + length xs) mod cap q"
proof (induction xs arbitrary: q)
  case Nil
  then show ?case by (simp add: pos_less)
next
  case (Cons x xs)
  then show ?case
    by (simp add: invar_advance cap_advance pos_advance mod_add_left_eq)
qed

lemma slot_run:
  "invar q \<Longrightarrow> i < cap q \<Longrightarrow> slot (fold advance xs q) i = fold upd (visits (cap q) (pos q) i xs) (slot q i)"
proof (induction xs arbitrary: q)
  case (Cons x xs)
  have "visits (cap q) (Suc (pos q) mod cap q) i xs = visits (cap q) (Suc (pos q)) i xs"
    by (rule visits_mod)
  then show ?case
    using Cons pos_less [of q] by (auto simp: invar_advance cap_advance pos_advance slot_advance)
qed simp

text \<open>What the next call finds: the slot of the current position.\<close>

lemma current_run:
  assumes "invar q" and "pos q = 0"
  shows "slot (fold advance xs q) (pos (fold advance xs q))
    = fold upd (visits (cap q) 0 (length xs mod cap q) xs) (slot q (length xs mod cap q))"
proof -
  have "0 < cap q" using pos_less [OF assms(1)] by simp
  then show ?thesis using assms by (simp add: pos_run slot_run)
qed

end

section \<open>Transmit queue\<close>

record TxQueue =
  tx_flow_buff :: u64
  tx_bucket_size :: u64
  tx_l_depth :: u64
  tx_depth :: u64
  tx_q :: u64
  tx_q_head :: u64
  tx_q_tail :: u64
  change_bit_set :: "u8 list option"
  tx_cq :: u64

text \<open>
  \<^verbatim>\<open>1 << l\<close> is a shift of the 32-bit \<^verbatim>\<open>int\<close> 1; assigned to a \<^verbatim>\<open>size_t\<close> it is sign-extended. A
  shift by 32 or more has no defined result.
\<close>

definition int_one_shl :: "u64 \<Rightarrow> u64 option" where
  "int_one_shl l = (if unat l < 32 then Some (scast (push_bit (unat l) 1 :: u32)) else None)"

definition TxQueue_default :: TxQueue where
  "TxQueue_default = \<lparr>tx_flow_buff = 0, tx_bucket_size = 0, tx_l_depth = 0, tx_depth = 0, tx_q = 0,
     tx_q_head = 0, tx_q_tail = 0, change_bit_set = None, tx_cq = 0\<rparr>"

definition mk_TxQueue :: "u64 \<Rightarrow> u64 \<Rightarrow> u64 \<Rightarrow> TxQueue option" where
  "mk_TxQueue buff bucket_size_bytes l_depth =
     (case int_one_shl l_depth of
        None \<Rightarrow> None
      | Some d \<Rightarrow> Some \<lparr>tx_flow_buff = buff, tx_bucket_size = bucket_size_bytes, tx_l_depth = l_depth,
          tx_depth = d, tx_q = buff, tx_q_head = 0, tx_q_tail = 0, change_bit_set = None,
          tx_cq = buff + bucket_size_bytes * l_depth\<rparr>)"

text \<open>
  \<^verbatim>\<open>delete[]\<close> of an array that \<^verbatim>\<open>aligned_alloc\<close> returned is not defined by the standard.
\<close>

definition TxQueue_dtor :: "TxQueue \<Rightarrow> (unit, unit) outcome" where
  "TxQueue_dtor q = (case change_bit_set q of None \<Rightarrow> Done () | Some _ \<Rightarrow> Undef)"

text \<open>
  \<open>page_size\<close> is what \<^verbatim>\<open>getpagesize\<close> returns and \<open>aligned_alloc a n\<close> says whether the C library
  serves a request of \<open>n\<close> bytes with alignment \<open>a\<close>.
\<close>

definition TxQueue_init ::
  "nat \<Rightarrow> (nat \<Rightarrow> nat \<Rightarrow> bool) \<Rightarrow> TxQueue \<Rightarrow> ('r, unit) outcome \<times> TxQueue" where
  "TxQueue_init page_size aligned_alloc q =
     (if page_size \<noteq> 4096 then (Abort, q)
      else if aligned_alloc 4096 (unat (tx_depth q))
        then (Done (), q\<lparr>change_bit_set := Some (replicate (unat (tx_depth q)) 1)\<rparr>)
      else if tx_depth q = 0 then (Done (), q\<lparr>change_bit_set := None\<rparr>)
      else (Undef, q\<lparr>change_bit_set := None\<rparr>))"

text \<open>The result pairs the slot's address with the change bit returned through the reference.\<close>

definition get_write_ptr :: "TxQueue \<Rightarrow> ('r, u64 \<times> u8) outcome \<times> TxQueue" where
  "get_write_ptr q =
     (if tx_q q = 0 then (Abort, q)
      else case change_bit_set q of
        None \<Rightarrow> (Abort, q)
      | Some bits \<Rightarrow>
          if \<not> unat (tx_q_head q) < length bits then (Undef, q)
          else
            let change_bit = bits ! unat (tx_q_head q);
                ptr = tx_q q + tx_q_head q * tx_bucket_size q;
                bits' = bits[unat (tx_q_head q) := change_bit XOR 1];
                head = tx_q_head q + 1
            in (Done (ptr, change_bit),
                q\<lparr>change_bit_set := Some bits', tx_q_head := (if head = tx_depth q then 0 else head)\<rparr>))"

section \<open>Receive queue\<close>

record RxQueue =
  rx_flow_buff :: u64
  rx_bucket_size :: u64
  rx_depth :: u64
  rx_l_depth :: u64
  rx_q :: u64
  rx_q_tail :: u64
  rpc_id_set :: "u32 list option"

definition RxQueue_default :: RxQueue where
  "RxQueue_default = \<lparr>rx_flow_buff = 0, rx_bucket_size = 0, rx_depth = 0, rx_l_depth = 0, rx_q = 0,
     rx_q_tail = 0, rpc_id_set = None\<rparr>"

definition mk_RxQueue :: "u64 \<Rightarrow> u64 \<Rightarrow> u64 \<Rightarrow> RxQueue option" where
  "mk_RxQueue buff bucket_size_bytes l_depth =
     (case int_one_shl l_depth of
        None \<Rightarrow> None
      | Some d \<Rightarrow> Some \<lparr>rx_flow_buff = buff, rx_bucket_size = bucket_size_bytes, rx_depth = d,
          rx_l_depth = l_depth, rx_q = buff, rx_q_tail = 0, rpc_id_set = None\<rparr>)"

definition RxQueue_dtor :: "RxQueue \<Rightarrow> (unit, unit) outcome" where
  "RxQueue_dtor q = (case rpc_id_set q of None \<Rightarrow> Done () | Some _ \<Rightarrow> Undef)"

text \<open>
  The byte count of the request wraps for the one depth, \<open>l_depth = 31\<close>, whose sign extension is
  that large; the initialisation loop then writes past the array.
\<close>

definition RxQueue_init ::
  "nat \<Rightarrow> (nat \<Rightarrow> nat \<Rightarrow> bool) \<Rightarrow> RxQueue \<Rightarrow> ('r, unit) outcome \<times> RxQueue" where
  "RxQueue_init page_size aligned_alloc q =
     (if page_size \<noteq> 4096 then (Abort, q)
      else if aligned_alloc page_size (unat (rx_depth q * 4))
        then if unat (rx_depth q * 4) < 4 * unat (rx_depth q) then (Undef, q)
        else (Done (), q\<lparr>rpc_id_set := Some (replicate (unat (rx_depth q)) (- 1))\<rparr>)
      else if rx_depth q = 0 then (Done (), q\<lparr>rpc_id_set := None\<rparr>)
      else (Undef, q\<lparr>rpc_id_set := None\<rparr>))"

definition get_read_ptr :: "RxQueue \<Rightarrow> ('r, u64 \<times> u32) outcome" where
  "get_read_ptr q =
     (case rpc_id_set q of
        None \<Rightarrow> Abort
      | Some ids \<Rightarrow>
          if rx_q q = 0 then Abort
          else if \<not> unat (rx_q_tail q) < length ids then Undef
          else Done (rx_q q + rx_q_tail q * rx_bucket_size q, ids ! unat (rx_q_tail q)))"

definition update_rpc_id :: "u32 \<Rightarrow> RxQueue \<Rightarrow> ('r, unit) outcome \<times> RxQueue" where
  "update_rpc_id new_id q =
     (case rpc_id_set q of
        None \<Rightarrow> (Abort, q)
      | Some ids \<Rightarrow>
          if rx_q q = 0 then (Abort, q)
          else if \<not> unat (rx_q_tail q) < length ids then (Undef, q)
          else
            let tail = rx_q_tail q + 1
            in (Done (), q\<lparr>rpc_id_set := Some (ids[unat (rx_q_tail q) := new_id]),
                  rx_q_tail := (if tail = rx_depth q then 0 else tail)\<rparr>))"

section \<open>Invariants and the ring contract\<close>

definition tx_wf :: "TxQueue \<Rightarrow> bool" where
  "tx_wf q \<longleftrightarrow> tx_q q \<noteq> 0 \<and> unat (tx_q_head q) < unat (tx_depth q) \<and>
     (case change_bit_set q of None \<Rightarrow> False | Some bits \<Rightarrow> length bits = unat (tx_depth q))"

definition rx_wf :: "RxQueue \<Rightarrow> bool" where
  "rx_wf q \<longleftrightarrow> rx_q q \<noteq> 0 \<and> unat (rx_q_tail q) < unat (rx_depth q) \<and>
     (case rpc_id_set q of None \<Rightarrow> False | Some ids \<Rightarrow> length ids = unat (rx_depth q))"

definition tx_slot :: "TxQueue \<Rightarrow> nat \<Rightarrow> u8" where
  "tx_slot q i = the (change_bit_set q) ! i"

definition rx_slot :: "RxQueue \<Rightarrow> nat \<Rightarrow> u32" where
  "rx_slot q i = the (rpc_id_set q) ! i"

definition tx_advance :: "unit \<Rightarrow> TxQueue \<Rightarrow> TxQueue" where
  "tx_advance _ q = snd (get_write_ptr q :: (unit, _) outcome \<times> _)"

definition rx_advance :: "u32 \<Rightarrow> RxQueue \<Rightarrow> RxQueue" where
  "rx_advance x q = snd (update_rpc_id x q :: (unit, _) outcome \<times> _)"

text \<open>The wrap of an index by comparison is the successor modulo the depth.\<close>

lemma unat_wrap_suc:
  assumes "unat h < unat (d :: u64)"
  shows "unat (if h + 1 = d then 0 else h + 1) = Suc (unat h) mod unat d"
proof -
  have "unat h + 1 < 2 ^ 64" using assms unat_u64_less [of d] by simp
  then have u: "unat (h + 1) = Suc (unat h)" by (subst unat_word_ariths) simp
  show ?thesis
  proof (cases "h + 1 = d")
    case True
    then show ?thesis using u by auto
  next
    case False
    then have "unat (h + 1) \<noteq> unat d" by (simp add: word_unat_eq_iff)
    then show ?thesis using False u assms by simp
  qed
qed

lemma get_write_ptr_wf:
  assumes "tx_wf q"
  shows "get_write_ptr q = (Done (tx_q q + tx_q_head q * tx_bucket_size q, tx_slot q (unat (tx_q_head q))),
    q\<lparr>change_bit_set := Some ((the (change_bit_set q))[unat (tx_q_head q) :=
         tx_slot q (unat (tx_q_head q)) XOR 1]),
      tx_q_head := (if tx_q_head q + 1 = tx_depth q then 0 else tx_q_head q + 1)\<rparr>)"
  using assms by (auto simp: tx_wf_def get_write_ptr_def tx_slot_def Let_def split: option.splits)

lemma update_rpc_id_wf:
  assumes "rx_wf q"
  shows "update_rpc_id x q = (Done (),
    q\<lparr>rpc_id_set := Some ((the (rpc_id_set q))[unat (rx_q_tail q) := x]),
      rx_q_tail := (if rx_q_tail q + 1 = rx_depth q then 0 else rx_q_tail q + 1)\<rparr>)"
  using assms by (auto simp: rx_wf_def update_rpc_id_def Let_def split: option.splits)

lemma get_read_ptr_wf:
  assumes "rx_wf q"
  shows "get_read_ptr q = Done (rx_q q + rx_q_tail q * rx_bucket_size q, rx_slot q (unat (rx_q_tail q)))"
  using assms by (auto simp: rx_wf_def get_read_ptr_def rx_slot_def split: option.splits)

lemma wrap_less: "unat h < unat (d :: u64) \<Longrightarrow> unat (if h + 1 = d then 0 else h + 1) < unat d"
  by (simp only: unat_wrap_suc mod_less_divisor)

interpretation txq: ring tx_wf "\<lambda>q. unat (tx_q_head q)" "\<lambda>q. unat (tx_depth q)" tx_slot
  "\<lambda>_ b. b XOR 1" tx_advance
proof (unfold_locales, goal_cases)
  case (1 q)
  then show ?case by (simp add: tx_wf_def)
next
  case (2 q x)
  moreover from 2 have "unat (tx_q_head q) < unat (tx_depth q)" by (simp add: tx_wf_def)
  ultimately show ?case
    using wrap_less [of "tx_q_head q" "tx_depth q"]
    by (auto simp: tx_advance_def get_write_ptr_wf tx_wf_def split: option.splits)
next
  case (3 q x)
  then show ?case by (simp add: tx_advance_def get_write_ptr_wf)
next
  case (4 q x)
  moreover from 4 have "unat (tx_q_head q) < unat (tx_depth q)" by (simp add: tx_wf_def)
  ultimately show ?case
    using unat_wrap_suc [of "tx_q_head q" "tx_depth q"]
    by (simp add: tx_advance_def get_write_ptr_wf)
next
  case (5 q i x)
  then show ?case
    by (auto simp: tx_advance_def get_write_ptr_wf tx_slot_def tx_wf_def nth_list_update
        split: option.splits)
qed

interpretation rxq: ring rx_wf "\<lambda>q. unat (rx_q_tail q)" "\<lambda>q. unat (rx_depth q)" rx_slot
  "\<lambda>x _. x" rx_advance
proof (unfold_locales, goal_cases)
  case (1 q)
  then show ?case by (simp add: rx_wf_def)
next
  case (2 q x)
  moreover from 2 have "unat (rx_q_tail q) < unat (rx_depth q)" by (simp add: rx_wf_def)
  ultimately show ?case
    using wrap_less [of "rx_q_tail q" "rx_depth q"]
    by (auto simp: rx_advance_def update_rpc_id_wf rx_wf_def split: option.splits)
next
  case (3 q x)
  then show ?case by (simp add: rx_advance_def update_rpc_id_wf)
next
  case (4 q x)
  moreover from 4 have "unat (rx_q_tail q) < unat (rx_depth q)" by (simp add: rx_wf_def)
  ultimately show ?case
    using unat_wrap_suc [of "rx_q_tail q" "rx_depth q"]
    by (simp add: rx_advance_def update_rpc_id_wf)
next
  case (5 q i x)
  then show ?case
    by (auto simp: rx_advance_def update_rpc_id_wf rx_slot_def rx_wf_def nth_list_update
        split: option.splits)
qed

section \<open>Behaviour of a fresh queue\<close>

lemma int_one_shl_small: "unat l < 31 \<Longrightarrow> int_one_shl l = Some (2 ^ unat l)"
proof -
  assume l: "unat l < 31"
  have "scast (push_bit (unat l) 1 :: u32) = (push_bit (unat l) 1 :: u64)"
    using l by (intro bit_word_eqI) (auto simp: bit_simps min_def)
  then show ?thesis using l by (simp add: int_one_shl_def push_bit_eq_mult)
qed

text \<open>A queue that its constructor and \<^verbatim>\<open>init\<close> have set up on a buffer.\<close>

definition fresh_tx :: "u64 \<Rightarrow> u64 \<Rightarrow> u64 \<Rightarrow> TxQueue \<Rightarrow> bool" where
  "fresh_tx buff bucket l q \<longleftrightarrow> buff \<noteq> 0 \<and> unat l < 31 \<and>
     (\<exists>q0 aligned_alloc. mk_TxQueue buff bucket l = Some q0
        \<and> TxQueue_init 4096 aligned_alloc q0 = (Done () :: (unit, unit) outcome, q))"

definition fresh_rx :: "u64 \<Rightarrow> u64 \<Rightarrow> u64 \<Rightarrow> RxQueue \<Rightarrow> bool" where
  "fresh_rx buff bucket l q \<longleftrightarrow> buff \<noteq> 0 \<and> unat l < 31 \<and>
     (\<exists>q0 aligned_alloc. mk_RxQueue buff bucket l = Some q0
        \<and> RxQueue_init 4096 aligned_alloc q0 = (Done () :: (unit, unit) outcome, q))"

lemma fresh_txD:
  assumes "fresh_tx buff bucket l q"
  shows "tx_wf q" and "tx_q q = buff" and "tx_bucket_size q = bucket" and "tx_q_head q = 0"
    and "tx_depth q = 2 ^ unat l" and "unat (tx_depth q) = 2 ^ unat l"
    and "i < 2 ^ unat l \<Longrightarrow> tx_slot q i = 1"
  using assms unat_two_power_u64 [of "unat l"]
  by (auto simp: fresh_tx_def mk_TxQueue_def TxQueue_init_def int_one_shl_small tx_wf_def tx_slot_def
      split: if_splits)

lemma fresh_rxD:
  assumes "fresh_rx buff bucket l q"
  shows "rx_wf q" and "rx_q q = buff" and "rx_bucket_size q = bucket" and "rx_q_tail q = 0"
    and "rx_depth q = 2 ^ unat l" and "unat (rx_depth q) = 2 ^ unat l"
    and "i < 2 ^ unat l \<Longrightarrow> rx_slot q i = - 1"
  using assms unat_two_power_u64 [of "unat l"]
  by (auto simp: fresh_rx_def mk_RxQueue_def RxQueue_init_def int_one_shl_small rx_wf_def rx_slot_def
      split: if_splits)

lemma tx_advance_consts:
  assumes "tx_wf q"
  shows "tx_q (tx_advance u q) = tx_q q \<and> tx_bucket_size (tx_advance u q) = tx_bucket_size q"
  using assms by (simp add: tx_advance_def get_write_ptr_wf)

lemma rx_advance_consts:
  assumes "rx_wf q"
  shows "rx_q (rx_advance x q) = rx_q q \<and> rx_bucket_size (rx_advance x q) = rx_bucket_size q"
  using assms by (simp add: rx_advance_def update_rpc_id_wf)

lemma tx_run_consts:
  "tx_wf q \<Longrightarrow> tx_q (fold tx_advance us q) = tx_q q \<and> tx_bucket_size (fold tx_advance us q) = tx_bucket_size q"
  by (induction us arbitrary: q) (auto simp: tx_advance_consts txq.invar_advance)

lemma rx_run_consts:
  "rx_wf q \<Longrightarrow> rx_q (fold rx_advance xs q) = rx_q q \<and> rx_bucket_size (fold rx_advance xs q) = rx_bucket_size q"
  by (induction xs arbitrary: q) (auto simp: rx_advance_consts rxq.invar_advance)

lemma fold_flip: "fold (\<lambda>_ b. b XOR 1) us (b :: u8) = (if even (length us) then b else b XOR 1)"
  by (induction us arbitrary: b) (auto simp: xor.assoc)

lemma fold_last: "fold (\<lambda>x _. x) xs v = (if xs = [] then v else last xs)"
  by (induction xs arbitrary: v) auto

lemma tx_call_result:
  assumes "fresh_tx buff bucket l q"
  shows "fst (get_write_ptr ((tx_advance () ^^ n) q))
    = Done (buff + of_nat (n mod 2 ^ unat l) * bucket, of_bool (even (n div 2 ^ unat l)))"
proof -
  let ?us = "replicate n ()" and ?d = "2 ^ unat l :: nat"
  let ?q = "fold tx_advance ?us q"
  note f = fresh_txD [OF assms]
  have wf: "tx_wf ?q" using f(1) by (rule txq.invar_run)
  have head: "unat (tx_q_head ?q) = n mod ?d"
    using txq.pos_run [OF f(1), of ?us] f(4,6) by simp
  have "tx_slot ?q (unat (tx_q_head ?q)) = of_bool (even (n div ?d))"
    using txq.current_run [OF f(1), of ?us] f(4,6) f(7) [of "n mod ?d"]
      length_visits_laps [of ?d ?us]
    by (auto simp: fold_flip)
  moreover have "tx_q_head ?q = of_nat (n mod ?d)"
    unfolding head [symmetric] by simp
  ultimately show ?thesis
    using wf tx_run_consts [OF f(1), of ?us] f(2,3) by (simp add: get_write_ptr_wf)
qed

text \<open>
  C1. The call number \<open>n\<close> of \<^verbatim>\<open>get_write_ptr\<close> on a freshly initialised transmit queue of depth
  \<open>2 ^ l\<close> returns slot \<open>n mod 2 ^ l\<close> of the buffer, and hands out change bit 1 on every even lap
  around the ring and 0 on every odd one: the device sees the flag of a slot alternate.
\<close>

theorem tx_nth_write:
  assumes "fresh_tx buff bucket l q"
  shows "fst (get_write_ptr ((tx_advance () ^^ n) q))
    = Done (buff + of_nat (n mod 2 ^ unat l) * bucket, of_bool (even (n div 2 ^ unat l)))"
  using assms by (rule tx_call_result)

lemma rx_read_result:
  assumes "fresh_rx buff bucket l q"
  shows "get_read_ptr (fold rx_advance xs q)
    = Done (buff + of_nat (length xs mod 2 ^ unat l) * bucket,
        if length xs < 2 ^ unat l then - 1 else xs ! (length xs - 2 ^ unat l))"
proof -
  let ?d = "2 ^ unat l :: nat" and ?q = "fold rx_advance xs q"
  note f = fresh_rxD [OF assms]
  have wf: "rx_wf ?q" using f(1) by (rule rxq.invar_run)
  have tail: "unat (rx_q_tail ?q) = length xs mod ?d"
    using rxq.pos_run [OF f(1), of xs] f(4,6) by simp
  have "rx_slot ?q (unat (rx_q_tail ?q)) = (if length xs < ?d then - 1 else xs ! (length xs - ?d))"
    using rxq.current_run [OF f(1), of xs] f(4,6) f(7) [of "length xs mod ?d"]
      visits_first_lap [of xs ?d] visits_last_lap [of ?d xs]
    by (auto simp: fold_last)
  moreover have "rx_q_tail ?q = of_nat (length xs mod ?d)"
    unfolding tail [symmetric] by simp
  ultimately show ?thesis
    using wf rx_run_consts [OF f(1), of xs] f(2,3) by (simp add: get_read_ptr_wf)
qed

text \<open>
  C2. On a freshly initialised receive queue of depth \<open>2 ^ l\<close>, after the RPC ids \<open>xs\<close> have been
  consumed, \<^verbatim>\<open>get_read_ptr\<close> returns slot \<open>length xs mod 2 ^ l\<close> together with the id that was
  consumed from that very slot one lap ago, and with 0xFFFFFFFF in the first lap.
\<close>

theorem rx_nth_read:
  assumes "fresh_rx buff bucket l q"
  shows "get_read_ptr (fold rx_advance xs q)
    = Done (buff + of_nat (length xs mod 2 ^ unat l) * bucket,
        if length xs < 2 ^ unat l then - 1 else xs ! (length xs - 2 ^ unat l))"
  using assms by (rule rx_read_result)

section \<open>Packets in the ring\<close>

text \<open>A client stores a packet in the slot that \<^verbatim>\<open>get_write_ptr\<close> hands out.\<close>

definition tx_send :: "RpcPckt \<Rightarrow> memory \<times> TxQueue \<Rightarrow> memory \<times> TxQueue" where
  "tx_send p mq = (case mq of (m, q) \<Rightarrow>
     (case get_write_ptr q :: (unit, u64 \<times> u8) outcome \<times> TxQueue of
        (Done (ptr, change_bit), q') \<Rightarrow>
          (write_pckt m ptr 0 (p\<lparr>hdr := hdr p\<lparr>ctl := ctl (hdr p)\<lparr>update_flag := bit change_bit 0\<rparr>\<rparr>\<rparr>), q')
      | (_, q') \<Rightarrow> (m, q')))"

text \<open>Two different slots of a ring of cache lines never overlap, at whatever address it starts.\<close>

lemma slot_gap:
  assumes "i < 2 ^ 31" and "i' < 2 ^ 31" and "i \<noteq> i'"
  shows "64 \<le> unat (of_nat i' * 64 - of_nat i * 64 :: u64)"
    and "unat (of_nat i' * 64 - of_nat i * 64 :: u64) + 64 \<le> 2 ^ 64"
proof -
  have "64 \<le> unat (of_nat i' * 64 - of_nat i * 64 :: u64)
    \<and> unat (of_nat i' * 64 - of_nat i * 64 :: u64) + 64 \<le> 2 ^ 64"
  proof (cases "i < i'")
    case True
    then have "(of_nat i' * 64 - of_nat i * 64 :: u64) = of_nat ((i' - i) * 64)"
      by (simp add: of_nat_diff algebra_simps)
    moreover have "64 \<le> (i' - i) * 64" "(i' - i) * 64 \<le> 2 ^ 37" using True assms by auto
    ultimately show ?thesis using unat_u64_of_nat [of "(i' - i) * 64"] by simp
  next
    case False
    let ?k = "(i - i') * 64"
    have k: "64 \<le> ?k" "?k \<le> 2 ^ 37" using False assms by auto
    have u: "unat (of_nat (2 ^ 64 - ?k) :: u64) = 2 ^ 64 - ?k"
      using k by (intro unat_u64_of_nat) simp
    have "(of_nat (2 ^ 64 - ?k) :: u64) = - of_nat ?k"
      using k by (simp add: of_nat_diff)
    moreover have "- of_nat ?k = (of_nat i' * 64 - of_nat i * 64 :: u64)"
      using False by (simp add: of_nat_diff algebra_simps)
    ultimately have "unat (of_nat i' * 64 - of_nat i * 64 :: u64) = 2 ^ 64 - ?k"
      using u by metis
    then show ?thesis using k by simp (use k in linarith)
  qed
  then show "64 \<le> unat (of_nat i' * 64 - of_nat i * 64 :: u64)"
    and "unat (of_nat i' * 64 - of_nat i * 64 :: u64) + 64 \<le> 2 ^ 64" by blast+
qed

lemma read_write_other_slot:
  assumes "pckt_wf p" and "i < 2 ^ 31" and "i' < 2 ^ 31" and "i \<noteq> i'"
  shows "read_pckt (write_pckt m (buff + of_nat i * 64) pad p) (buff + of_nat i' * 64)
    = read_pckt m (buff + of_nat i' * 64)"
  using assms slot_gap [of i i'] by (intro read_write_pckt_other) (simp_all add: cfg_defs)

text \<open>What the client stores, with the flag of the lap the slot is in.\<close>

definition stamped :: "nat \<Rightarrow> nat \<Rightarrow> RpcPckt \<Rightarrow> RpcPckt" where
  "stamped d n p = p\<lparr>hdr := hdr p\<lparr>ctl := ctl (hdr p)\<lparr>update_flag := even (n div d)\<rparr>\<rparr>\<rparr>"

lemma pckt_wf_stamped [simp]: "pckt_wf (stamped d n p) = pckt_wf p"
  by (simp add: pckt_wf_def stamped_def)

lemma tx_send_nth:
  assumes "fresh_tx buff 64 l q"
  shows "tx_send p (m, (tx_advance () ^^ n) q)
    = (write_pckt m (buff + of_nat (n mod 2 ^ unat l) * 64) 0 (stamped (2 ^ unat l) n p),
       (tx_advance () ^^ Suc n) q)"
proof -
  let ?q = "(tx_advance () ^^ n) q"
  have "tx_wf ?q"
    using txq.invar_run [OF fresh_txD(1) [OF assms], of "replicate n ()"] by simp
  then obtain r where r: "get_write_ptr ?q = (Done r :: (unit, _) outcome, tx_advance () ?q)"
    using get_write_ptr_wf [of ?q] by (simp add: tx_advance_def get_write_ptr_wf)
  moreover have "fst (get_write_ptr ?q) = (Done (buff + of_nat (n mod 2 ^ unat l) * 64,
      of_bool (even (n div 2 ^ unat l))) :: (unit, _) outcome)"
    by (rule tx_call_result [OF assms])
  ultimately show ?thesis by (simp add: tx_send_def stamped_def)
qed

lemma tx_send_run:
  assumes "fresh_tx buff 64 l q" and "\<And>p. p \<in> set ps \<Longrightarrow> pckt_wf p" and "length ps \<le> 2 ^ unat l"
    and "j < length ps"
  shows "snd (fold tx_send ps (m, (tx_advance () ^^ k) q)) = (tx_advance () ^^ (k + length ps)) q
    \<and> read_pckt (fst (fold tx_send ps (m, (tx_advance () ^^ k) q))) (buff + of_nat ((k + j) mod 2 ^ unat l) * 64)
      = stamped (2 ^ unat l) (k + j) (ps ! j)"
  using assms(2-)
proof (induction ps arbitrary: j rule: rev_induct)
  case Nil
  then show ?case by simp
next
  case (snoc p ps)
  let ?d = "2 ^ unat l :: nat" and ?s = "fold tx_send ps (m, (tx_advance () ^^ k) q)"
  have wf: "pckt_wf p" using snoc.prems(1) by simp
  have l: "?d \<le> 2 ^ 30" using assms(1) by (intro power_increasing) (simp_all add: fresh_tx_def)
  have q: "snd ?s = (tx_advance () ^^ (k + length ps)) q"
    using snoc.IH [of 0] snoc.prems by (cases ps) auto
  have step: "fold tx_send (ps @ [p]) (m, (tx_advance () ^^ k) q)
      = (write_pckt (fst ?s) (buff + of_nat ((k + length ps) mod ?d) * 64) 0 (stamped ?d (k + length ps) p),
         (tx_advance () ^^ Suc (k + length ps)) q)"
  proof -
    have "?s = (fst ?s, (tx_advance () ^^ (k + length ps)) q)" using q by (simp add: prod_eq_iff)
    then have "tx_send p ?s = tx_send p (fst ?s, (tx_advance () ^^ (k + length ps)) q)" by (rule arg_cong)
    then show ?thesis by (simp only: fold_append fold_simps comp_apply tx_send_nth [OF assms(1)])
  qed
  show ?case
  proof (cases "j = length ps")
    case True
    then show ?thesis using step wf by (simp add: read_write_pckt)
  next
    case False
    then have j: "j < length ps" using snoc.prems by simp
    then have "(k + length ps) mod ?d \<noteq> (k + j) mod ?d"
      using mod_other_in_lap [of "length ps - j" ?d "k + j"] snoc.prems by simp
    moreover have "x mod ?d < 2 ^ 31" for x
    proof -
      have "x mod ?d < ?d" by simp
      also note l
      also have "(2 :: nat) ^ 30 \<le> 2 ^ 31" by simp
      finally show ?thesis .
    qed
    ultimately have "read_pckt (fst (fold tx_send (ps @ [p]) (m, (tx_advance () ^^ k) q))) (buff + of_nat ((k + j) mod ?d) * 64)
        = read_pckt (fst ?s) (buff + of_nat ((k + j) mod ?d) * 64)"
      unfolding step fst_conv using wf by (intro read_write_other_slot) simp_all
    moreover have "read_pckt (fst ?s) (buff + of_nat ((k + j) mod ?d) * 64) = stamped ?d (k + j) (ps ! j)"
      using snoc.IH [OF _ _ j] snoc.prems by simp
    ultimately show ?thesis using step j by (simp only: snd_conv nth_append) simp
  qed
qed

text \<open>
  C3. Packets stored through the next \<open>length ps \<le> 2 ^ l\<close> slots of a transmit queue of 64-byte
  buckets are all intact afterwards, whatever the position in the ring: each is read back unchanged
  from the slot of its own call, except for the update flag, which carries the parity of the lap.
\<close>

theorem tx_ring_keeps_packets:
  assumes "fresh_tx buff 64 l q" and "\<And>p. p \<in> set ps \<Longrightarrow> pckt_wf p" and "length ps \<le> 2 ^ unat l"
    and "j < length ps"
  shows "read_pckt (fst (fold tx_send ps (m, (tx_advance () ^^ k) q))) (buff + of_nat ((k + j) mod 2 ^ unat l) * 64)
      = stamped (2 ^ unat l) (k + j) (ps ! j)"
  using tx_send_run [OF assms] by simp

section \<open>Examples\<close>

definition tx8 :: TxQueue where
  "tx8 = \<lparr>tx_flow_buff = 0x1000, tx_bucket_size = 64, tx_l_depth = 3, tx_depth = 8, tx_q = 0x1000,
     tx_q_head = 0, tx_q_tail = 0, change_bit_set = Some (replicate 8 1), tx_cq = 0x10c0\<rparr>"

definition rx8 :: RxQueue where
  "rx8 = \<lparr>rx_flow_buff = 0x2000, rx_bucket_size = 64, rx_depth = 8, rx_l_depth = 3, rx_q = 0x2000,
     rx_q_tail = 0, rpc_id_set = Some (replicate 8 (- 1))\<rparr>"

definition nop_pckt :: "u32 \<Rightarrow> RpcPckt" where
  "nop_pckt i = \<lparr>hdr = \<lparr>ctl = \<lparr>req_type = False, update_flag = False, valid = True\<rparr>, rpc_id = i,
     n_of_frames = 1, frame_id = 0, fn_id = 0, argl = 0, c_id = 0\<rparr>, argv = replicate 52 0\<rparr>"

lemma fresh_tx8: "fresh_tx 0x1000 64 3 tx8"
  by (auto simp: fresh_tx_def mk_TxQueue_def TxQueue_init_def tx8_def int_one_shl_small
      intro!: exI [of _ "\<lambda>_ _. True"])

lemma fresh_rx8: "fresh_rx 0x2000 64 3 rx8"
  by (auto simp: fresh_rx_def mk_RxQueue_def RxQueue_init_def rx8_def int_one_shl_small
      intro!: exI [of _ "\<lambda>_ _. True"])

lemma pckt_wf_nop [simp]: "pckt_wf (nop_pckt i)"
  by (simp add: pckt_wf_def nop_pckt_def rpc_header_size_bytes_def cfg_defs)

theorem tx_nth_write_witness:
  "fst (get_write_ptr ((tx_advance () ^^ 13) tx8)) = (Done (0x1140, 0) :: (unit, _) outcome)"
  using tx_nth_write [OF fresh_tx8, of 13] by simp

theorem rx_nth_read_witness:
  "get_read_ptr (fold rx_advance [1, 2, 3, 4, 5, 6, 7, 8, 9] rx8) = (Done (0x2040, 2) :: (unit, _) outcome)"
  using rx_nth_read [OF fresh_rx8, of "[1, 2, 3, 4, 5, 6, 7, 8, 9]"] by simp

theorem tx_ring_keeps_packets_witness:
  "read_pckt (fst (fold tx_send [nop_pckt 5, nop_pckt 6] (\<lambda>_. 0, (tx_advance () ^^ 7) tx8))) 0x1000
    = stamped 8 8 (nop_pckt 6)"
proof -
  have "pckt_wf p" if "p \<in> set [nop_pckt 5, nop_pckt 6]" for p
    using that by auto
  then show ?thesis
    using tx_ring_keeps_packets [OF fresh_tx8, of "[nop_pckt 5, nop_pckt 6]" 1 "\<lambda>_. 0" 7] by simp
qed

end
