(* ===== verification/Nic_Modes.thy ===== *)
theory Nic_Modes
  imports Nic_Ccip Queues
begin

text \<open>
  The three nics that extend the CCI-P base class (\<^verbatim>\<open>nic_ccip_polling\<close>, \<^verbatim>\<open>nic_ccip_dma\<close>,
  \<^verbatim>\<open>nic_ccip_mmio\<close>): how each lays out its shared buffers, tells the device about them, and hands the
  buffers of a flow to the queues. The destructors run the derived part first and then the one of
  the base class. Log messages are not modelled.
\<close>

definition CL :: "u64 \<Rightarrow> u64" where
  "CL n = n * cl_size_bytes"

text \<open>
  The size in bytes of a queue of \<open>2 ^ l\<close> packets. The exponents are build constants below 31, so
  the shift of the \<^verbatim>\<open>int\<close> 1 is exact.
\<close>

definition queue_bytes :: "u64 \<Rightarrow> u64" where
  "queue_bytes l = get_mtu_size_bytes * push_bit (unat l) 1"

section \<open>Polling\<close>

record NicPollingCCIP = NicCCIP +
  pl_num_of_flows :: u64
  pl_wsid :: u64
  pl_buf_pa :: u64
  pl_buf :: u64
  pl_tx_offset_bytes :: u64
  pl_rx_offset_bytes :: u64
  pl_tx_buff_size_bytes :: u64
  pl_rx_buff_size_bytes :: u64
  pl_tx_queue_size_bytes :: u64
  pl_rx_queue_size_bytes :: u64

type_synonym ('h, 'a) polling_method = "(NicPollingCCIP \<times> 'h world, int, 'a) body"

text \<open>The constructor leaves the workspace id and the device address as it finds them.\<close>

definition mk_NicPollingCCIP :: "u64 \<Rightarrow> u64 \<Rightarrow> u64 \<Rightarrow> u64 \<Rightarrow> u64 \<Rightarrow> bool \<Rightarrow> NicPollingCCIP" where
  "mk_NicPollingCCIP raw_handle raw_wsid raw_pa base num_of_flows master =
     NicCCIP.extend (mk_NicCCIP raw_handle base num_of_flows master)
       \<lparr>pl_num_of_flows = num_of_flows, pl_wsid = raw_wsid, pl_buf_pa = raw_pa, pl_buf = 0,
        pl_tx_offset_bytes = 0, pl_rx_offset_bytes = 0, pl_tx_buff_size_bytes = 0,
        pl_rx_buff_size_bytes = 0, pl_tx_queue_size_bytes = 0, pl_rx_queue_size_bytes = 0\<rparr>"

definition polling_alloc_queues :: "'h opae \<Rightarrow> u64 \<Rightarrow> ('h, unit) polling_method" where
  "polling_alloc_queues x llc_anti_aliasing =
     bnd (upd_obj (\<lambda>n. n\<lparr>pl_tx_queue_size_bytes := queue_bytes l_tx_queue_size\<rparr>)) (\<lambda>_.
     bnd (upd_obj (\<lambda>n. n\<lparr>pl_tx_buff_size_bytes := pl_num_of_flows n * pl_tx_queue_size_bytes n\<rparr>)) (\<lambda>_.
     bnd (upd_obj (\<lambda>n. n\<lparr>pl_rx_queue_size_bytes := queue_bytes l_rx_queue_size\<rparr>)) (\<lambda>_.
     bnd (upd_obj (\<lambda>n. n\<lparr>pl_rx_buff_size_bytes := pl_num_of_flows n * pl_rx_queue_size_bytes n\<rparr>)) (\<lambda>_.
     bnd (get_obj (\<lambda>n. n)) (\<lambda>n.
     let buff_size_bytes = pl_tx_buff_size_bytes n + pl_rx_buff_size_bytes n in
     bnd (on_world (call (alloc_buffer x (accel_handle n) buff_size_bytes (pl_wsid n) (pl_buf_pa n)
            llc_anti_aliasing))) (\<lambda>(buf, wsid, pa).
     bnd (upd_obj (\<lambda>n. n\<lparr>pl_buf := buf, pl_wsid := wsid, pl_buf_pa := pa\<rparr>)) (\<lambda>_.
     bnd (whenM (buf = 0) (exit_with 1)) (\<lambda>_.
     bnd (upd_obj (\<lambda>n. n\<lparr>pl_tx_offset_bytes := 0\<rparr>)) (\<lambda>_.
     upd_obj (\<lambda>n. n\<lparr>pl_rx_offset_bytes := pl_tx_offset_bytes n + pl_tx_buff_size_bytes n\<rparr>))))))))))"

definition polling_configure_data_plane :: "'h opae \<Rightarrow> u64 \<Rightarrow> ('h, int) polling_method" where
  "polling_configure_data_plane x llc_anti_aliasing =
     bnd (assert_obj connected) (\<lambda>_.
     bnd (assert_obj (\<lambda>n. \<not> dp_configured n)) (\<lambda>_.
     bnd (nic_read x iRegNicMode) (\<lambda>(res, raw_mode).
     bnd (whenM (res \<noteq> FPGA_OK) (exit_with 1)) (\<lambda>_.
     bnd (polling_alloc_queues x llc_anti_aliasing) (\<lambda>_.
     bnd (get_obj (\<lambda>n. n)) (\<lambda>n.
     bnd (nic_cfg x iRegMemTxAddr (pl_buf_pa n div CL 1 + pl_tx_offset_bytes n div CL 1)) (\<lambda>_.
     bnd (nic_cfg x iRegMemRxAddr (pl_buf_pa n div CL 1 + pl_rx_offset_bytes n div CL 1)) (\<lambda>_.
     bnd (nic_cfg x iRegNumOfFlows (pl_num_of_flows n)) (\<lambda>_.
     bnd (nic_cfg x iRegRxQueueSize (pl_tx_queue_size_bytes n div CL 1)) (\<lambda>_.
     bnd (nic_cfg x iRegTxQueueSize (pl_rx_queue_size_bytes n div CL 1)) (\<lambda>_.
     bnd (nic_cfg x iRegPollingRate polling_rate) (\<lambda>_.
     bnd (nic_cfg x lRegTxBatchSize l_rx_batch_size) (\<lambda>_.
     bnd (upd_obj (\<lambda>n. n\<lparr>dp_configured := True\<rparr>)) (\<lambda>_.
     ret 0))))))))))))))"

definition polling_notify_nic_of_new_dma :: "u64 \<Rightarrow> u64 \<Rightarrow> ('h, int) polling_method" where
  "polling_notify_nic_of_new_dma flow bucket = ret 0"

definition polling_get_tx_flow_buffer :: "NicPollingCCIP \<Rightarrow> u64 \<Rightarrow> u64" where
  "polling_get_tx_flow_buffer n flow = pl_buf n + pl_tx_offset_bytes n + flow * pl_tx_queue_size_bytes n"

definition polling_get_rx_flow_buffer :: "NicPollingCCIP \<Rightarrow> u64 \<Rightarrow> u64" where
  "polling_get_rx_flow_buffer n flow = pl_buf n + pl_rx_offset_bytes n + flow * pl_rx_queue_size_bytes n"

definition polling_get_tx_buff_end :: "NicPollingCCIP \<Rightarrow> u64" where
  "polling_get_tx_buff_end n = pl_buf n + pl_tx_offset_bytes n + pl_tx_buff_size_bytes n"

definition polling_get_rx_buff_end :: "NicPollingCCIP \<Rightarrow> u64" where
  "polling_get_rx_buff_end n = pl_buf n + pl_rx_offset_bytes n + pl_rx_buff_size_bytes n"

definition polling_start :: "'h opae \<Rightarrow> ('h, int) polling_method" where
  "polling_start x = bnd (assert_obj dp_configured) (\<lambda>_. bnd (assert_obj initialized) (\<lambda>_. call (start_nic x)))"

definition polling_stop :: "'h opae \<Rightarrow> ('h, int) polling_method" where
  "polling_stop x = bnd (assert_obj dp_configured) (\<lambda>_. bnd (assert_obj initialized) (\<lambda>_. call (stop_nic x)))"

definition NicPollingCCIP_dtor :: "'h opae \<Rightarrow> ('h, unit) polling_method" where
  "NicPollingCCIP_dtor x =
     bnd (get_obj (\<lambda>n. n)) (\<lambda>n.
     bnd (whenM (dp_configured n) (on_world (fpgaReleaseBuffer x (accel_handle n) (pl_wsid n)))) (\<lambda>_.
     NicCCIP_dtor x))"

section \<open>DMA\<close>

record NicDmaCCIP = NicCCIP +
  dm_num_of_flows :: u64
  dm_wsid :: u64
  dm_buf_pa :: u64
  dm_buf :: u64
  dm_tx_offset_bytes :: u64
  dm_rx_offset_bytes :: u64
  dm_tx_buff_size_bytes :: u64
  dm_rx_buff_size_bytes :: u64
  dm_tx_queue_size_bytes :: u64
  dm_rx_queue_size_bytes :: u64
  dm_notification_lock :: bool

type_synonym ('h, 'a) dma_method = "(NicDmaCCIP \<times> 'h world, int, 'a) body"

text \<open>The constructor leaves the workspace id and the device address as it finds them.\<close>

definition mk_NicDmaCCIP :: "u64 \<Rightarrow> u64 \<Rightarrow> u64 \<Rightarrow> u64 \<Rightarrow> u64 \<Rightarrow> bool \<Rightarrow> NicDmaCCIP" where
  "mk_NicDmaCCIP raw_handle raw_wsid raw_pa base num_of_flows master =
     NicCCIP.extend (mk_NicCCIP raw_handle base num_of_flows master)
       \<lparr>dm_num_of_flows = num_of_flows, dm_wsid = raw_wsid, dm_buf_pa = raw_pa, dm_buf = 0,
        dm_tx_offset_bytes = 0, dm_rx_offset_bytes = 0, dm_tx_buff_size_bytes = 0,
        dm_rx_buff_size_bytes = 0, dm_tx_queue_size_bytes = 0, dm_rx_queue_size_bytes = 0,
        dm_notification_lock = False\<rparr>"

definition dma_alloc_queues :: "'h opae \<Rightarrow> u64 \<Rightarrow> ('h, unit) dma_method" where
  "dma_alloc_queues x llc_anti_aliasing =
     bnd (upd_obj (\<lambda>n. n\<lparr>dm_tx_queue_size_bytes := queue_bytes l_tx_queue_size\<rparr>)) (\<lambda>_.
     bnd (upd_obj (\<lambda>n. n\<lparr>dm_tx_buff_size_bytes := dm_num_of_flows n * dm_tx_queue_size_bytes n\<rparr>)) (\<lambda>_.
     bnd (upd_obj (\<lambda>n. n\<lparr>dm_rx_queue_size_bytes := queue_bytes l_rx_queue_size\<rparr>)) (\<lambda>_.
     bnd (upd_obj (\<lambda>n. n\<lparr>dm_rx_buff_size_bytes := dm_num_of_flows n * dm_rx_queue_size_bytes n\<rparr>)) (\<lambda>_.
     bnd (get_obj (\<lambda>n. n)) (\<lambda>n.
     let buff_size_bytes = dm_tx_buff_size_bytes n + dm_rx_buff_size_bytes n in
     bnd (on_world (call (alloc_buffer x (accel_handle n) buff_size_bytes (dm_wsid n) (dm_buf_pa n)
            llc_anti_aliasing))) (\<lambda>(buf, wsid, pa).
     bnd (upd_obj (\<lambda>n. n\<lparr>dm_buf := buf, dm_wsid := wsid, dm_buf_pa := pa\<rparr>)) (\<lambda>_.
     bnd (whenM (buf = 0) (exit_with 1)) (\<lambda>_.
     bnd (upd_obj (\<lambda>n. n\<lparr>dm_tx_offset_bytes := 0\<rparr>)) (\<lambda>_.
     upd_obj (\<lambda>n. n\<lparr>dm_rx_offset_bytes := dm_tx_offset_bytes n + dm_tx_buff_size_bytes n\<rparr>))))))))))"

definition dma_configure_data_plane :: "'h opae \<Rightarrow> u64 \<Rightarrow> ('h, int) dma_method" where
  "dma_configure_data_plane x llc_anti_aliasing =
     bnd (assert_obj connected) (\<lambda>_.
     bnd (assert_obj (\<lambda>n. \<not> dp_configured n)) (\<lambda>_.
     bnd (nic_read x iRegNicMode) (\<lambda>(res, raw_mode).
     bnd (whenM (res \<noteq> FPGA_OK) (exit_with 1)) (\<lambda>_.
     bnd (whenM (ccip_mode (mode_of_raw raw_mode) \<noteq> iConstCcipDma) (exit_with 1)) (\<lambda>_.
     bnd (dma_alloc_queues x llc_anti_aliasing) (\<lambda>_.
     bnd (get_obj (\<lambda>n. n)) (\<lambda>n.
     bnd (nic_cfg x iRegMemTxAddr (dm_buf_pa n div CL 1 + dm_tx_offset_bytes n div CL 1)) (\<lambda>_.
     bnd (nic_cfg x iRegMemRxAddr (dm_buf_pa n div CL 1 + dm_rx_offset_bytes n div CL 1)) (\<lambda>_.
     bnd (nic_cfg x iRegNumOfFlows (dm_num_of_flows n)) (\<lambda>_.
     bnd (nic_cfg x lRegRxBatchSize tx_batch_size) (\<lambda>_.
     bnd (nic_cfg x lRegTxBatchSize l_rx_batch_size) (\<lambda>_.
     bnd (upd_obj (\<lambda>n. n\<lparr>dp_configured := True\<rparr>)) (\<lambda>_.
     ret 0)))))))))))))"

text \<open>
  The notification. Locking a mutex that the thread holds already is undefined; for another thread
  it never returns.
\<close>

definition dma_notify_nic_of_new_dma :: "'h opae \<Rightarrow> u64 \<Rightarrow> u64 \<Rightarrow> ('h, int) dma_method" where
  "dma_notify_nic_of_new_dma x flow bucket =
     bnd (assert_obj (\<lambda>n. flow < dm_num_of_flows n)) (\<lambda>_.
     bnd (assert_obj (\<lambda>n. bucket < dm_tx_queue_size_bytes n)) (\<lambda>_.
     bnd (guardM (\<lambda>(n, w). \<not> dm_notification_lock n)) (\<lambda>_.
     bnd (upd_obj (\<lambda>n. n\<lparr>dm_notification_lock := True\<rparr>)) (\<lambda>_.
     bnd (nic_write x iRegCcipDmaTrg (flow + bucket)) (\<lambda>res.
     bnd (whenM (res \<noteq> FPGA_OK) (exit_with 1)) (\<lambda>_.
     bnd (upd_obj (\<lambda>n. n\<lparr>dm_notification_lock := False\<rparr>)) (\<lambda>_.
     ret 0)))))))"

definition dma_get_tx_flow_buffer :: "NicDmaCCIP \<Rightarrow> u64 \<Rightarrow> u64" where
  "dma_get_tx_flow_buffer n flow = dm_buf n + dm_tx_offset_bytes n + flow * dm_tx_queue_size_bytes n"

definition dma_get_rx_flow_buffer :: "NicDmaCCIP \<Rightarrow> u64 \<Rightarrow> u64" where
  "dma_get_rx_flow_buffer n flow = dm_buf n + dm_rx_offset_bytes n + flow * dm_rx_queue_size_bytes n"

definition dma_get_tx_buff_end :: "NicDmaCCIP \<Rightarrow> u64" where
  "dma_get_tx_buff_end n = dm_buf n + dm_tx_offset_bytes n + dm_tx_buff_size_bytes n"

definition dma_get_rx_buff_end :: "NicDmaCCIP \<Rightarrow> u64" where
  "dma_get_rx_buff_end n = dm_buf n + dm_rx_offset_bytes n + dm_rx_buff_size_bytes n"

definition dma_start :: "'h opae \<Rightarrow> ('h, int) dma_method" where
  "dma_start x = bnd (assert_obj dp_configured) (\<lambda>_. bnd (assert_obj initialized) (\<lambda>_. call (start_nic x)))"

definition dma_stop :: "'h opae \<Rightarrow> ('h, int) dma_method" where
  "dma_stop x = bnd (assert_obj dp_configured) (\<lambda>_. bnd (assert_obj initialized) (\<lambda>_. call (stop_nic x)))"

definition NicDmaCCIP_dtor :: "'h opae \<Rightarrow> ('h, unit) dma_method" where
  "NicDmaCCIP_dtor x =
     bnd (get_obj (\<lambda>n. n)) (\<lambda>n.
     bnd (whenM (dp_configured n) (on_world (fpgaReleaseBuffer x (accel_handle n) (dm_wsid n)))) (\<lambda>_.
     NicCCIP_dtor x))"

section \<open>MMIO\<close>

record NicMmioCCIP = NicCCIP +
  mm_num_of_flows :: u64
  mm_buf :: u64
  mm_wsid :: u64
  mm_buf_pa :: u64
  mm_rx_cl_offset :: u64
  mm_tx_mmio_buf :: u64
  mm_tx_cl_offset :: u64
  mm_rx_queue_size_bytes :: u64

type_synonym ('h, 'a) mmio_method = "(NicMmioCCIP \<times> 'h world, int, 'a) body"

text \<open>The fields the constructor does not mention have arbitrary values; only their sizes are used later.\<close>

definition mk_NicMmioCCIP :: "u64 \<Rightarrow> u64 \<Rightarrow> u64 \<Rightarrow> u64 \<Rightarrow> u64 \<Rightarrow> u64 \<Rightarrow> u64 \<Rightarrow> bool \<Rightarrow> NicMmioCCIP" where
  "mk_NicMmioCCIP raw_handle raw_wsid raw_pa raw_tx raw_sz base num_of_flows master =
     NicCCIP.extend (mk_NicCCIP raw_handle base num_of_flows master)
       \<lparr>mm_num_of_flows = num_of_flows, mm_buf = 0, mm_wsid = raw_wsid, mm_buf_pa = raw_pa,
        mm_rx_cl_offset = 0, mm_tx_mmio_buf = raw_tx, mm_tx_cl_offset = 0, mm_rx_queue_size_bytes = raw_sz\<rparr>"

text \<open>
  \<open>l_tx\<close> is the build constant \<^verbatim>\<open>cfg::nic::l_tx_queue_size\<close>: the MMIO build sets it to 0, and the
  assertion fails in every other build.
\<close>

definition mmio_configure_data_plane :: "'h opae \<Rightarrow> u64 \<Rightarrow> u64 \<Rightarrow> ('h, int) mmio_method" where
  "mmio_configure_data_plane x l_tx llc_anti_aliasing =
     bnd (assert_obj connected) (\<lambda>_.
     bnd (assert_obj (\<lambda>n. \<not> dp_configured n)) (\<lambda>_.
     bnd (nic_read x iRegNicMode) (\<lambda>(res, raw_mode).
     bnd (whenM (res \<noteq> FPGA_OK) (exit_with 1)) (\<lambda>_.
     bnd (whenM (ccip_mode (mode_of_raw raw_mode) \<noteq> iConstCcipMMIO) (exit_with 1)) (\<lambda>_.
     bnd (upd_obj (\<lambda>n. n\<lparr>mm_rx_queue_size_bytes := queue_bytes l_rx_queue_size\<rparr>)) (\<lambda>_.
     bnd (get_obj (\<lambda>n. n)) (\<lambda>n.
     let buff_size_bytes = mm_num_of_flows n * mm_rx_queue_size_bytes n in
     bnd (on_world (call (alloc_buffer x (accel_handle n) buff_size_bytes (mm_wsid n) (mm_buf_pa n)
            llc_anti_aliasing))) (\<lambda>(buf, wsid, pa).
     bnd (upd_obj (\<lambda>n. n\<lparr>mm_buf := buf, mm_wsid := wsid, mm_buf_pa := pa\<rparr>)) (\<lambda>_.
     bnd (whenM (buf = 0) (exit_with 1)) (\<lambda>_.
     bnd (upd_obj (\<lambda>n. n\<lparr>mm_rx_cl_offset := 0\<rparr>)) (\<lambda>_.
     bnd (nic_cfg x iRegMemRxAddr (pa div CL 1 + 0)) (\<lambda>_.
     bnd (nic_cfg x lRegTxBatchSize l_rx_batch_size) (\<lambda>_.
     bnd (expect (l_tx = 0)) (\<lambda>_.
     bnd (on_world (fpgaMapMMIO x (accel_handle n))) (\<lambda>(res, p).
     bnd (whenM (res \<noteq> FPGA_OK) (exit_with 1)) (\<lambda>_.
     bnd (upd_obj (\<lambda>n. n\<lparr>mm_tx_mmio_buf := p\<rparr>)) (\<lambda>_.
     bnd (whenM (p = 0) (exit_with 1)) (\<lambda>_.
     bnd (upd_obj (\<lambda>n. n\<lparr>mm_tx_cl_offset := base_nic_addr n + iMMIOSpaceStart\<rparr>)) (\<lambda>_.
     bnd (get_obj mm_tx_cl_offset) (\<lambda>tx_cl_offset.
     bnd (nic_cfg x iRegMemTxAddr (tx_cl_offset div mmio_cpu_nic_view)) (\<lambda>_.
     bnd (nic_cfg x iRegNumOfFlows (mm_num_of_flows n)) (\<lambda>_.
     bnd (upd_obj (\<lambda>n. n\<lparr>dp_configured := True\<rparr>)) (\<lambda>_.
     ret 0)))))))))))))))))))))))"

definition mmio_notify_nic_of_new_dma :: "u64 \<Rightarrow> u64 \<Rightarrow> ('h, int) mmio_method" where
  "mmio_notify_nic_of_new_dma flow bucket = ret 0"

definition mmio_get_tx_flow_buffer :: "NicMmioCCIP \<Rightarrow> u64 \<Rightarrow> u64" where
  "mmio_get_tx_flow_buffer n flow = mm_tx_mmio_buf n + mm_tx_cl_offset n + CL flow"

definition mmio_get_rx_flow_buffer :: "NicMmioCCIP \<Rightarrow> u64 \<Rightarrow> u64" where
  "mmio_get_rx_flow_buffer n flow = mm_buf n + CL (mm_rx_cl_offset n) + CL flow"

definition mmio_get_tx_buff_end :: "NicMmioCCIP \<Rightarrow> u64" where
  "mmio_get_tx_buff_end n = mm_tx_mmio_buf n + mm_tx_cl_offset n + CL (mm_num_of_flows n)"

definition mmio_get_rx_buff_end :: "NicMmioCCIP \<Rightarrow> u64" where
  "mmio_get_rx_buff_end n = 0"

definition mmio_start :: "'h opae \<Rightarrow> ('h, int) mmio_method" where
  "mmio_start x = bnd (assert_obj dp_configured) (\<lambda>_. bnd (assert_obj initialized) (\<lambda>_. call (start_nic x)))"

definition mmio_stop :: "'h opae \<Rightarrow> ('h, int) mmio_method" where
  "mmio_stop x = bnd (assert_obj dp_configured) (\<lambda>_. bnd (assert_obj initialized) (\<lambda>_. call (stop_nic x)))"

definition NicMmioCCIP_dtor :: "'h opae \<Rightarrow> ('h, unit) mmio_method" where
  "NicMmioCCIP_dtor x =
     bnd (get_obj (\<lambda>n. n)) (\<lambda>n.
     bnd (whenM (dp_configured n) (on_world (fpgaReleaseBuffer x (accel_handle n) (mm_wsid n)))) (\<lambda>_.
     NicCCIP_dtor x))"

end
