(* ===== verification/Nic_Life.thy ===== *)
theory Nic_Life
  imports Nic_Modes
begin

text \<open>
  The life cycle of a nic: which of the flags \<^verbatim>\<open>connected_\<close>, \<^verbatim>\<open>dp_configured_\<close>, \<^verbatim>\<open>initialized_\<close>,
  \<^verbatim>\<open>started_\<close> can be set in which order, for every sequence of calls of the interface and every
  behaviour of the device; and the layout of the flow buffers that a successful configuration of
  the data plane gives.
\<close>

section \<open>Completed statements\<close>

text \<open>What is known when a statement completed without leaving the function.\<close>

named_theorems done_simps

lemma bnd_Done [done_simps]:
  "bnd m f s = (Done a, s') \<longleftrightarrow> (\<exists>b s1. m s = (Done b, s1) \<and> f b s1 = (Done a, s'))"
  by (auto simp: bnd_def split: prod.splits outcome.splits)

lemma ret_Done [done_simps]: "ret a s = (Done b, s') \<longleftrightarrow> a = b \<and> s = s'"
  by (simp add: ret_def)

lemma exit_with_Done [done_simps]: "exit_with r s = (Done b, s') \<longleftrightarrow> False"
  by (simp add: exit_with_def)

lemma whenM_exit_Done [done_simps]: "whenM b (exit_with r) s = (Done u, s') \<longleftrightarrow> \<not> b \<and> s' = s"
  by (auto simp: whenM_def ret_def exit_with_def)

lemma assert_obj_Done [done_simps]: "assert_obj p (n, w) = (Done u, s') \<longleftrightarrow> p n \<and> s' = (n, w)"
  by (auto simp: assert_obj_def assertM_def)

lemma expect_Done [done_simps]: "expect b s = (Done u, s') \<longleftrightarrow> b \<and> s' = s"
  by (auto simp: expect_def assertM_def)

lemma get_obj_Done [done_simps]: "get_obj f (n, w) = (Done a, s') \<longleftrightarrow> a = f n \<and> s' = (n, w)"
  by (auto simp: get_obj_def gets_def)

lemma upd_obj_Done [done_simps]: "upd_obj f (n, w) = (Done u, s') \<longleftrightarrow> s' = (f n, w)"
  by (auto simp: upd_obj_def modifyM_def)

lemma on_world_Done [done_simps]:
  "on_world m (n, w) = (Done a, s') \<longleftrightarrow> (\<exists>w'. m w = (Done a, w') \<and> s' = (n, w'))"
  by (auto simp: on_world_def split: prod.splits)

lemma call_Done [done_simps]:
  "call m s = (Done a, s') \<longleftrightarrow> m s = (Done a, s') \<or> m s = (Exit a, s')"
  by (auto simp: call_def split: prod.splits outcome.splits)

lemma xcall_Done [done_simps]:
  "xcall es f w = (Done a, w') \<longleftrightarrow> (\<exists>h. f (hw w) = (a, h) \<and> w' = w\<lparr>hw := h, evs := evs w @ es\<rparr>)"
  by (auto simp: xcall_def split: prod.splits)

lemma nic_cfg_Done [done_simps]:
  "nic_cfg x reg v (n, w) = (Done u, s') \<longleftrightarrow>
     (\<exists>h. x_WriteMMIO64 x (accel_handle n) (base_nic_addr n + reg) v (hw w) = (FPGA_OK, h)
       \<and> s' = (n, w\<lparr>hw := h, evs := evs w @ [EvWrite (base_nic_addr n + reg) v]\<rparr>))"
  by (auto simp: nic_cfg_def nic_write_def fpgaWriteMMIO64_def done_simps)

lemma nic_read_Done [done_simps]:
  "nic_read x reg (n, w) = (Done r, s') \<longleftrightarrow>
     (\<exists>h. x_ReadMMIO64 x (accel_handle n) (base_nic_addr n + reg) (hw w) = (r, h)
       \<and> s' = (n, w\<lparr>hw := h, evs := evs w @ [EvRead (base_nic_addr n + reg)]\<rparr>))"
  by (auto simp: nic_read_def fpgaReadMMIO64_def done_simps)

section \<open>Views of the object\<close>

text \<open>\<open>stable f m\<close>: the body \<open>m\<close> may change the object, but not what \<open>f\<close> sees of it.\<close>

definition stable :: "('n \<Rightarrow> 'v) \<Rightarrow> ('n \<times> 'h world, 'r, 'a) body \<Rightarrow> bool" where
  "stable f m \<longleftrightarrow> (\<forall>n w. f (fst (snd (m (n, w)))) = f n)"

named_theorems stable_rules

lemma stable_keeps: "keeps m \<Longrightarrow> stable f m"
  by (simp add: stable_def keeps_def)

lemma stable_upd_obj [stable_rules]: "(\<And>n. f (u n) = f n) \<Longrightarrow> stable f (upd_obj u)"
  by (simp add: stable_def upd_obj_def modifyM_def)

lemma stable_bnd [stable_rules]:
  assumes "stable f m" and "\<And>a. stable f (g a)"
  shows "stable f (bnd m g)"
proof -
  have "f (fst (snd (bnd m g (n, w)))) = f n" for n w
  proof -
    obtain y n' w' where m: "m (n, w) = (y, (n', w'))" by (metis surj_pair)
    then have "f n' = f n" using assms(1) by (metis fst_conv snd_conv stable_def)
    then show ?thesis using assms(2) m by (cases y) (simp_all add: bnd_def stable_def)
  qed
  then show ?thesis by (simp add: stable_def)
qed

lemma stable_whenM [stable_rules]: "stable f m \<Longrightarrow> stable f (whenM b m)"
  by (simp add: whenM_def stable_keeps keeps_ret)

lemma stable_call [stable_rules]: "stable f m \<Longrightarrow> stable f (call m)"
  by (simp add: stable_def call_def split: prod.split outcome.split) (metis fst_conv snd_conv)

lemma stable_if [stable_rules]: "stable f m \<Longrightarrow> stable f m' \<Longrightarrow> stable f (if b then m else m')"
  by simp

lemma stable_prod [stable_rules]: "(\<And>a b. stable f (g a b)) \<Longrightarrow> stable f (case p of (a, b) \<Rightarrow> g a b)"
  by (simp split: prod.split)

section \<open>How a method ends\<close>

text \<open>
  \<open>aux m\<close>: an auxiliary statement of a method that leaves the object alone and leaves the method,
  if at all, with the error code 1.
\<close>

definition aux :: "('n \<times> 'h world, int, 'a) body \<Rightarrow> bool" where
  "aux m \<longleftrightarrow> keeps m \<and> (\<forall>s r. fst (m s) = Exit r \<longrightarrow> r = 1)"

definition never_exits :: "('s, 'r, 'a) body \<Rightarrow> bool" where
  "never_exits m \<longleftrightarrow> (\<forall>s r. fst (m s) \<noteq> Exit r)"

named_theorems aux_rules

lemma never_exits_call [aux_rules]: "never_exits (call m)"
  by (auto simp: never_exits_def call_def split: prod.splits outcome.splits)

lemma never_exits_basic [aux_rules]:
  "never_exits (ret a)" "never_exits (gets f)" "never_exits (get_obj g)" "never_exits (assert_obj p)"
  "never_exits (expect b)" "never_exits (upd_obj u)" "never_exits (xcall es c)" "never_exits (xdo es d)"
  by (simp_all add: never_exits_def ret_def gets_def get_obj_def assert_obj_def expect_def assertM_def
      upd_obj_def modifyM_def xcall_def xdo_def split: prod.split)

lemma never_exits_on_world [aux_rules]: "never_exits m \<Longrightarrow> never_exits (on_world m)"
  by (auto simp: never_exits_def on_world_def split: prod.splits) (metis fst_conv)

lemma never_exits_bnd [aux_rules]:
  "never_exits m \<Longrightarrow> (\<And>a. never_exits (g a)) \<Longrightarrow> never_exits (bnd m g)"
  by (auto simp: never_exits_def bnd_def split: prod.splits outcome.splits) (metis fst_conv)

lemma never_exits_prod [aux_rules]:
  "(\<And>a b. never_exits (g a b)) \<Longrightarrow> never_exits (case p of (a, b) \<Rightarrow> g a b)"
  by (simp split: prod.split)

lemma never_exits_access [aux_rules]: "never_exits (nic_read x reg)" "never_exits (nic_write x reg v)"
  unfolding nic_read_def nic_write_def fpgaReadMMIO64_def fpgaWriteMMIO64_def by (intro aux_rules)+

lemma aux_never_exits: "keeps m \<Longrightarrow> never_exits m \<Longrightarrow> aux m"
  by (simp add: aux_def never_exits_def)

lemma aux_exit [aux_rules]: "aux (whenM b (exit_with 1))"
  by (simp add: aux_def whenM_def exit_with_def ret_def keeps_def)

lemma aux_bnd [aux_rules]:
  assumes "aux m" and "\<And>a. aux (g a)"
  shows "aux (bnd m g)"
proof -
  have "keeps (bnd m g)" using assms by (simp add: aux_def keeps_bnd)
  moreover have "r = 1" if "fst (bnd m g s) = Exit r" for s r
  proof -
    obtain y s1 where m: "m s = (y, s1)" by (metis surj_pair)
    have "fst (m s) = Exit r \<Longrightarrow> r = 1" and "fst (g a s1) = Exit r \<Longrightarrow> r = 1" for a
      using assms unfolding aux_def by blast+
    then show ?thesis using that m by (cases y) (auto simp: bnd_def)
  qed
  ultimately show ?thesis unfolding aux_def by blast
qed

lemma aux_prod [aux_rules]: "(\<And>a b. aux (g a b)) \<Longrightarrow> aux (case p of (a, b) \<Rightarrow> g a b)"
  by (simp split: prod.split)

lemma aux_if [aux_rules]: "aux m \<Longrightarrow> aux m' \<Longrightarrow> aux (if b then m else m')"
  by simp

lemma aux_access [aux_rules]:
  "aux (nic_read x reg)" "aux (nic_write x reg v)" "aux (ret a)" "aux (expect b)"
  "aux (on_world (gets q))" "aux (on_world (sleep_s x k))" "aux (get_obj f)" "aux (assert_obj p)"
  unfolding sleep_s_def delay_us_def
  by (intro aux_never_exits keeps_rules aux_rules)+

lemma aux_nic_cfg [aux_rules]: "aux (nic_cfg x reg v)"
  unfolding nic_cfg_def by (intro aux_rules)

lemma aux_read_status [aux_rules]: "aux (read_status x)"
proof -
  have "r = 1" if "fst (read_status x s) = Exit r" for s r
    using that by (auto simp: read_status_def get_nic_hw_status_def bnd_def assert_obj_def assertM_def
        nic_read_def get_obj_def gets_def on_world_def fpgaReadMMIO64_def xcall_def ret_def exit_with_def
        split: prod.splits if_splits)
  then show ?thesis unfolding aux_def using keeps_read_status by blast
qed

lemma aux_wait_status [aux_rules]: "aux (wait_status x again k)"
  by (induction k) (auto intro!: aux_rules)

lemma aux_register_connection [aux_rules]:
  "aux (register_connection x cid ip flow)" "aux (remove_connection x cid)"
proof -
  have rd: "aux (read_conn_status x)" unfolding read_conn_status_def by (intro aux_rules)
  have wt: "aux (wait_conn x cid k)" for k by (induction k) (auto intro!: aux_rules rd)
  have fr: "aux (send_frame x d c)" for d c unfolding send_frame_def by (intro aux_rules)
  show "aux (register_connection x cid ip flow)" "aux (remove_connection x cid)"
    unfolding register_connection_def remove_connection_def by (intro aux_rules wt fr)+
qed

text \<open>\<open>ends Q m n\<close>: started on the object \<open>n\<close>, the body ends with an outcome and an object that satisfy \<open>Q\<close>.\<close>

definition ends :: "(('r, 'a) outcome \<Rightarrow> 'n \<Rightarrow> bool) \<Rightarrow> ('n \<times> 'h world, 'r, 'a) body \<Rightarrow> 'n \<Rightarrow> bool" where
  "ends Q m n \<longleftrightarrow> (\<forall>w. Q (fst (m (n, w))) (fst (snd (m (n, w)))))"

lemma ends_bnd:
  assumes "ends R m n" and "\<And>r n'. R (Exit r) n' \<Longrightarrow> Q (Exit r) n'" and "\<And>n'. R Abort n' \<Longrightarrow> Q Abort n'"
    and "\<And>n'. R Undef n' \<Longrightarrow> Q Undef n'" and "\<And>a n'. R (Done a) n' \<Longrightarrow> ends Q (g a) n'"
  shows "ends Q (bnd m g) n"
proof -
  have "Q (fst (bnd m g (n, w))) (fst (snd (bnd m g (n, w))))" for w
  proof -
    obtain y n' w' where m: "m (n, w) = (y, (n', w'))" by (metis surj_pair)
    then have "R y n'" using assms(1) by (metis fst_conv snd_conv ends_def)
    then show ?thesis using assms(2-) m by (cases y) (auto simp: bnd_def ends_def)
  qed
  then show ?thesis by (simp add: ends_def)
qed

named_theorems ends_rules

lemma ends_ret [ends_rules]: "Q (Done a) n \<Longrightarrow> ends Q (ret a) n"
  by (simp add: ends_def ret_def)

lemma ends_assert_bnd [ends_rules]:
  "(\<not> p n \<Longrightarrow> Q Abort n) \<Longrightarrow> (p n \<Longrightarrow> ends Q (g ()) n) \<Longrightarrow> ends Q (bnd (assert_obj p) g) n"
  by (simp add: ends_def assert_obj_def assertM_def bnd_def)

lemma ends_upd [ends_rules]: "Q (Done ()) (u n) \<Longrightarrow> ends Q (upd_obj u) n"
  by (simp add: ends_def upd_obj_def modifyM_def)

lemma ends_whenM:
  "(b \<Longrightarrow> ends Q m n) \<Longrightarrow> (\<not> b \<Longrightarrow> Q (Done ()) n) \<Longrightarrow> ends Q (whenM b m) n"
  by (simp add: whenM_def ends_def ret_def)

lemma ends_upd_bnd [ends_rules]: "ends Q (g ()) (u n) \<Longrightarrow> ends Q (bnd (upd_obj u) g) n"
  by (simp add: ends_def upd_obj_def modifyM_def bnd_def)

lemma ends_get_bnd [ends_rules]: "ends Q (g (f n)) n \<Longrightarrow> ends Q (bnd (get_obj f) g) n"
  by (simp add: ends_def get_obj_def gets_def bnd_def)

lemma ends_prod [ends_rules]: "(\<And>a b. p = (a, b) \<Longrightarrow> ends Q (g a b) n) \<Longrightarrow> ends Q (case p of (a, b) \<Rightarrow> g a b) n"
  by (simp split: prod.split)

lemma ends_aux:
  assumes "aux m" and "Q (Exit 1) n" and "Q Abort n" and "Q Undef n" and "\<And>a. Q (Done a) n"
  shows "ends Q m n"
proof -
  have "Q (fst (m (n, w))) n" for w
  proof (cases "fst (m (n, w))")
    case (Exit r)
    then show ?thesis using assms by (metis aux_def)
  qed (use assms in auto)
  then show ?thesis using assms(1) by (simp add: ends_def aux_def keeps_def)
qed

lemma ends_aux_bnd:
  assumes "aux m" and "Q (Exit 1) n" and "Q Abort n" and "Q Undef n" and "\<And>a. ends Q (g a) n"
  shows "ends Q (bnd m g) n"
  by (rule ends_bnd [where R = "\<lambda>y n'. n' = n \<and> (\<forall>r. y = Exit r \<longrightarrow> r = 1)"])
    (use assms in \<open>auto intro: ends_aux\<close>)

lemma ends_stable_bnd:
  assumes "stable f m" and "never_exits m" and "\<And>n'. f n' = f n \<Longrightarrow> Q Abort n'"
    and "\<And>n'. f n' = f n \<Longrightarrow> Q Undef n'" and "\<And>a n'. f n' = f n \<Longrightarrow> ends Q (g a) n'"
  shows "ends Q (bnd m g) n"
  by (rule ends_bnd [where R = "\<lambda>y n'. f n' = f n \<and> (\<forall>r. y \<noteq> Exit r)"])
    (use assms in \<open>auto simp: ends_def stable_def never_exits_def\<close>)

lemma ends_weaken: "ends Q m n \<Longrightarrow> (\<And>y n'. Q y n' \<Longrightarrow> Q' y n') \<Longrightarrow> ends Q' m n"
  by (auto simp: ends_def)

lemma ends_call:
  assumes "ends Q m n" and "\<And>r n'. Q (Exit r) n' \<Longrightarrow> Q' (Done r) n'" and "\<And>r n'. Q (Done r) n' \<Longrightarrow> Q' (Done r) n'"
    and "\<And>n'. Q Abort n' \<Longrightarrow> Q' Abort n'" and "\<And>n'. Q Undef n' \<Longrightarrow> Q' Undef n'"
  shows "ends Q' (call m) n"
proof -
  have "Q' (fst (call m (n, w))) (fst (snd (call m (n, w))))" for w
  proof -
    obtain y n' w' where m: "m (n, w) = (y, (n', w'))" by (metis surj_pair)
    then have "Q y n'" using assms(1) by (metis fst_conv snd_conv ends_def)
    then show ?thesis using assms(2-) m by (cases y) (auto simp: call_def)
  qed
  then show ?thesis unfolding ends_def by blast
qed

lemma endsD: "ends Q m n \<Longrightarrow> m (n, w) = (y, (n', w')) \<Longrightarrow> Q y n'"
  by (metis ends_def fst_conv snd_conv)

section \<open>The calls of the interface\<close>

text \<open>The virtual functions that the derived classes implement.\<close>

record ('m, 'h) nic_class =
  vt_configure :: "u64 \<Rightarrow> ('m, 'h, int) nic_method"
  vt_start :: "('m, 'h, int) nic_method"
  vt_stop :: "('m, 'h, int) nic_method"
  vt_notify :: "u64 \<Rightarrow> u64 \<Rightarrow> ('m, 'h, int) nic_method"

definition polling_class :: "'h opae \<Rightarrow> (_, 'h) nic_class" where
  "polling_class x = \<lparr>vt_configure = polling_configure_data_plane x, vt_start = polling_start x,
     vt_stop = polling_stop x, vt_notify = polling_notify_nic_of_new_dma\<rparr>"

definition dma_class :: "'h opae \<Rightarrow> (_, 'h) nic_class" where
  "dma_class x = \<lparr>vt_configure = dma_configure_data_plane x, vt_start = dma_start x,
     vt_stop = dma_stop x, vt_notify = dma_notify_nic_of_new_dma x\<rparr>"

definition mmio_class :: "'h opae \<Rightarrow> u64 \<Rightarrow> (_, 'h) nic_class" where
  "mmio_class x l_tx = \<lparr>vt_configure = mmio_configure_data_plane x l_tx, vt_start = mmio_start x,
     vt_stop = mmio_stop x, vt_notify = mmio_notify_nic_of_new_dma\<rparr>"

datatype nic_call =
  Connect int
| Configure u64
| Initialize PhyAddr IPv4
| Start
| Stop
| CheckErrors
| OpenConn ConnectionId IPv4 ConnectionFlowId
| AddConn ConnectionId IPv4 ConnectionFlowId
| CloseConn ConnectionId
| RunPerf
| SetLb u32
| NotifyDma u64 u64

text \<open>
  \<open>uuid\<close> is the id of the accelerator the program is built for and \<open>phy_build\<close> whether the build has
  the physical network.
\<close>

definition nic_do ::
  "('m, 'h) nic_class \<Rightarrow> 'h opae \<Rightarrow> string \<Rightarrow> bool \<Rightarrow> nic_call \<Rightarrow> ('m, 'h, int) nic_method" where
  "nic_do k x uuid phy_build c = (case c of
     Connect bus \<Rightarrow> call (connect_to_nic x uuid bus)
   | Configure aa \<Rightarrow> call (vt_configure k aa)
   | Initialize phy ip \<Rightarrow> call (initialize_nic x phy_build uuid phy ip)
   | Start \<Rightarrow> call (vt_start k)
   | Stop \<Rightarrow> call (vt_stop k)
   | CheckErrors \<Rightarrow> call (check_hw_errors x)
   | OpenConn cid ip flow \<Rightarrow> bnd (call (nic_open_connection x cid ip flow)) (\<lambda>(res, _). ret res)
   | AddConn cid ip flow \<Rightarrow> call (nic_add_connection x cid ip flow)
   | CloseConn cid \<Rightarrow> call (nic_close_connection x cid)
   | RunPerf \<Rightarrow> call run_perf_thread
   | SetLb lb \<Rightarrow> bnd (set_lb x lb) (\<lambda>_. ret 0)
   | NotifyDma flow bucket \<Rightarrow> call (vt_notify k flow bucket))"

fun nic_run ::
  "('m, 'h) nic_class \<Rightarrow> 'h opae \<Rightarrow> string \<Rightarrow> bool \<Rightarrow> nic_call list \<Rightarrow> ('m, 'h, int list) nic_method" where
  "nic_run k x uuid phy_build [] = ret []"
| "nic_run k x uuid phy_build (c # cs) =
     bnd (nic_do k x uuid phy_build c) (\<lambda>r.
     bnd (nic_run k x uuid phy_build cs) (\<lambda>rs.
     ret (r # rs)))"

section \<open>Life cycle\<close>

text \<open>
  The abstract life cycle has five stages, and one rule per call that says in which stages the call
  may be made at all and to which stage it leads, given the code it returned.
\<close>

datatype stage = Fresh | Connected | Configured | Initialized | Running

definition life_step :: "nic_call \<Rightarrow> int \<Rightarrow> stage \<Rightarrow> stage option" where
  "life_step c r s = (case c of
     Connect _ \<Rightarrow> if s = Fresh then Some (if r = 0 then Connected else s) else None
   | Configure _ \<Rightarrow> if s = Connected then Some (if r = 0 then Configured else s) else None
   | Initialize _ _ \<Rightarrow>
       if s = Configured then Some (if r = 0 then Initialized else s)
       else if s \<in> {Initialized, Running} then Some s else None
   | Start \<Rightarrow> if s = Initialized then Some (if r = 0 then Running else s) else None
   | Stop \<Rightarrow> if s = Running then Some (if r = 0 then Initialized else s) else None
   | CheckErrors \<Rightarrow> if s = Fresh then None else Some s
   | CloseConn _ \<Rightarrow> if s = Fresh then None else Some s
   | _ \<Rightarrow> Some s)"

fun life_run :: "(nic_call \<times> int) list \<Rightarrow> stage \<Rightarrow> stage option" where
  "life_run [] s = Some s"
| "life_run ((c, r) # crs) s = (case life_step c r s of None \<Rightarrow> None | Some s' \<Rightarrow> life_run crs s')"

definition nic_inv :: "'m NicCCIP_scheme \<Rightarrow> bool" where
  "nic_inv n \<longleftrightarrow> (started n \<longrightarrow> initialized n) \<and> (initialized n \<longrightarrow> dp_configured n)
     \<and> (dp_configured n \<longrightarrow> connected n) \<and> (collect_perf n \<longleftrightarrow> perf_thread n) \<and> cm_wf (conn_manager n)"

definition nic_stage :: "'m NicCCIP_scheme \<Rightarrow> stage" where
  "nic_stage n = (if started n then Running else if initialized n then Initialized
     else if dp_configured n then Configured else if connected n then Connected else Fresh)"

text \<open>What a call must do to follow the life cycle.\<close>

definition follows :: "nic_call \<Rightarrow> 'm NicCCIP_scheme \<Rightarrow> (int, int) outcome \<Rightarrow> 'm NicCCIP_scheme \<Rightarrow> bool" where
  "follows c n y n' \<longleftrightarrow> nic_inv n' \<and>
     (\<forall>r. y = Done r \<or> y = Exit r \<longrightarrow> life_step c r (nic_stage n) = Some (nic_stage n'))"

lemma ends_follows_call: "ends (follows c n) m n \<Longrightarrow> ends (follows c n) (call m) n"
  by (erule ends_call) (auto simp: follows_def)

lemmas life_defs = follows_def life_step_def nic_stage_def nic_inv_def

lemmas ends_quiet = ends_rules ends_aux_bnd [OF aux_nic_cfg] ends_aux_bnd [OF aux_exit]
  ends_aux_bnd [OF aux_read_status] ends_aux_bnd [OF aux_wait_status] ends_aux_bnd [OF aux_access(1)]
  ends_aux_bnd [OF aux_access(2)] ends_aux_bnd [OF aux_access(4)] ends_aux_bnd [OF aux_access(5)]
  ends_aux_bnd [OF aux_never_exits [OF keeps_on_world never_exits_on_world [OF never_exits_call]]]

lemma follows_connect: "nic_inv n \<Longrightarrow> ends (follows (Connect bus) n) (connect_to_nic x uuid bus) n"
  unfolding connect_to_nic_def by (intro ends_quiet) (auto simp: life_defs)

lemma follows_start: "nic_inv n \<Longrightarrow> ends (follows Start n) (start_nic x) n"
  unfolding start_nic_def by (intro ends_quiet) (auto simp: life_defs)

lemma ends_connected_bnd:
  assumes "aux m" and "\<And>w. \<not> connected n \<Longrightarrow> m (n, w) = (Abort, (n, w))"
    and "Q Abort n" and "connected n \<Longrightarrow> Q (Exit 1) n" and "Q Undef n" and "\<And>a. connected n \<Longrightarrow> ends Q (g a) n"
  shows "ends Q (bnd m g) n"
proof (cases "connected n")
  case True
  then show ?thesis using assms by (intro ends_aux_bnd) auto
next
  case False
  then show ?thesis using assms(2,3) by (simp add: ends_def bnd_def)
qed

lemma unconnected_abort:
  assumes "\<not> connected n"
  shows "read_status x (n, w) = (Abort, (n, w))"
    and "call (remove_connection x cid) (n, w) = (Abort, (n, w))"
  using assms by (simp_all add: read_status_def get_nic_hw_status_def remove_connection_def bnd_def
      assert_obj_def assertM_def call_def)

lemmas ends_connected = ends_connected_bnd [OF aux_read_status unconnected_abort(1)]
  ends_connected_bnd [OF aux_never_exits [OF keeps_call [OF keeps_remove_connection] never_exits_call]
    unconnected_abort(2)]

lemma follows_check_errors: "nic_inv n \<Longrightarrow> ends (follows CheckErrors n) (check_hw_errors x) n"
  unfolding check_hw_errors_def by (intro ends_rules ends_connected) (auto simp: life_defs)

lemma follows_run_perf: "nic_inv n \<Longrightarrow> ends (follows RunPerf n) run_perf_thread n"
  unfolding run_perf_thread_def by (intro ends_quiet) (auto simp: life_defs)

definition nic_flags :: "'m NicCCIP_scheme \<Rightarrow> _" where
  "nic_flags n = (connected n, initialized n, dp_configured n, started n)"

lemma stop_perf_ends:
  "nic_inv n \<Longrightarrow> ends (\<lambda>y n'. y = Done () \<and> nic_inv n' \<and> nic_flags n' = nic_flags n) stop_perf n"
  unfolding stop_perf_def by (intro ends_rules ends_whenM) (auto simp: nic_inv_def nic_flags_def)

lemma follows_stop: "nic_inv n \<Longrightarrow> ends (follows Stop n) (stop_nic x) n"
  unfolding stop_nic_def
  by (intro ends_quiet ends_bnd [OF stop_perf_ends]) (auto simp: life_defs nic_flags_def)

lemma follows_set_lb: "nic_inv n \<Longrightarrow> ends (follows (SetLb lb) n) (bnd (set_lb x lb) (\<lambda>_. ret 0)) n"
proof -
  have "aux (set_lb x lb)" unfolding set_lb_def by (intro aux_rules)
  moreover assume "nic_inv n"
  ultimately show ?thesis by (intro ends_aux_bnd ends_rules) (auto simp: life_defs)
qed

definition nic_hide :: "'m NicCCIP_scheme \<Rightarrow> 'm NicCCIP_scheme" where
  "nic_hide n = n\<lparr>hssi_h := None, phy_network_en := False\<rparr>"

lemma stable_phy_network: "stable nic_hide (initialize_phy_network x afu ch)"
  unfolding initialize_phy_network_def
  by (intro stable_rules stable_keeps [OF keeps_on_world] stable_keeps [OF keeps_get_obj]
      stable_keeps [OF keeps_expect] stable_keeps [OF keeps_exit_with] stable_keeps [OF keeps_ret]) (simp add: nic_hide_def)

lemma nic_hide_same:
  assumes "nic_hide n' = nic_hide n"
  shows "nic_inv n' = nic_inv n" "nic_stage n' = nic_stage n" "dp_configured n' = dp_configured n"
    "connected n' = connected n" "initialized n' = initialized n" "started n' = started n"
proof -
  have eq: "connected n' = connected n" "initialized n' = initialized n" "dp_configured n' = dp_configured n"
    "started n' = started n" "collect_perf n' = collect_perf n" "perf_thread n' = perf_thread n"
    "conn_manager n' = conn_manager n"
    using assms by (cases n; cases n'; simp add: nic_hide_def)+
  then show "nic_inv n' = nic_inv n" "nic_stage n' = nic_stage n" "dp_configured n' = dp_configured n"
    "connected n' = connected n" "initialized n' = initialized n" "started n' = started n"
    by (simp_all add: nic_inv_def nic_stage_def)
qed

lemma check_network_mode_ends:
  "ends (\<lambda>y n'. nic_hide n' = nic_hide n \<and> (\<forall>r. y = Exit r \<longrightarrow> r = 1)) (check_network_mode x phy afu mode) n"
proof (cases phy)
  case True
  have st: "stable nic_hide (call (initialize_phy_network x afu ch))" for ch
    by (intro stable_call stable_phy_network)
  show ?thesis unfolding check_network_mode_def if_P [OF True]
    by (intro ends_quiet ends_stable_bnd [OF st never_exits_call]) (auto simp: nic_hide_def)
next
  case False
  then show ?thesis unfolding check_network_mode_def if_not_P [OF False]
    by (intro ends_quiet) (auto simp: nic_hide_def)
qed

lemma follows_initialize_rules:
  assumes "nic_inv n" and "dp_configured n" and "nic_hide n' = nic_hide n"
  shows "follows (Initialize phy ip) n (Exit 1) n'" "follows (Initialize phy ip) n Abort n'"
    "follows (Initialize phy ip) n Undef n'"
    "follows (Initialize phy ip) n (Done 0) (n'\<lparr>initialized := True\<rparr>)"
  using assms(1,2) nic_hide_same [OF assms(3)] by (auto simp: life_defs)

lemma follows_initialize:
  assumes "nic_inv n"
  shows "ends (follows (Initialize phy ip) n) (initialize_nic x phy_build uuid phy ip) n"
  unfolding initialize_nic_def
  by (intro ends_quiet ends_bnd [OF check_network_mode_ends])
    (use assms in \<open>simp_all add: follows_initialize_rules\<close>, simp_all add: follows_def)

text \<open>The connection calls change the connection manager only.\<close>

lemma ends_conn_manager:
  assumes "\<And>y cm'. f (conn_manager n) = (y, cm') \<Longrightarrow> Q y (n\<lparr>conn_manager := cm'\<rparr>)"
  shows "ends Q (on_conn_manager f) n"
  using assms by (auto simp: ends_def on_conn_manager_def split: prod.split)

lemma cm_open_wf: "cm_wf cm \<Longrightarrow> cm_open_connection j ip flow cm = (y, cm') \<Longrightarrow> cm_wf cm' \<and> (\<forall>r. y \<noteq> Exit r)"
proof (cases "c_id_pool cm")
  case Nil
  then show "cm_wf cm \<Longrightarrow> cm_open_connection j ip flow cm = (y, cm') \<Longrightarrow> ?thesis"
    by (auto simp: cm_open_full)
next
  case (Cons c cs)
  then show "cm_wf cm \<Longrightarrow> cm_open_connection j ip flow cm = (y, cm') \<Longrightarrow> ?thesis"
    using cm_insert_wf(1) [of cm c] by (auto simp: cm_open_free)
qed

lemma cm_add_wf: "cm_wf cm \<Longrightarrow> cm_add_connection c ip flow cm = (y, cm') \<Longrightarrow> cm_wf cm' \<and> (\<forall>r. y \<noteq> Exit r)"
  using cm_insert_wf(1) [of cm c] by (cases "c \<in> set (c_id_pool cm)") (auto simp: cm_add_refused cm_add_free)

lemma cm_close_wf': "cm_wf cm \<Longrightarrow> cm_close_connection c cm = (r, cm') \<Longrightarrow> cm_wf cm'"
  using cm_close_wf [of cm c] by (auto simp: cm_close_connection_def split: if_splits)

definition nic_same :: "'m NicCCIP_scheme \<Rightarrow> 'm NicCCIP_scheme \<Rightarrow> bool" where
  "nic_same n n' \<longleftrightarrow> nic_inv n' \<and> nic_stage n' = nic_stage n"

lemma nic_same_cm: "nic_inv n \<Longrightarrow> cm_wf cm \<Longrightarrow> nic_same n (n\<lparr>conn_manager := cm\<rparr>)"
  by (simp add: nic_same_def nic_inv_def nic_stage_def)

lemma ends_keeps_bnd:
  assumes "keeps m" and "\<And>r. Q (Exit r) n" and "Q Abort n" and "Q Undef n" and "\<And>a. ends Q (g a) n"
  shows "ends Q (bnd m g) n"
  by (rule ends_bnd [where R = "\<lambda>y n'. n' = n"]) (use assms in \<open>auto simp: ends_def keeps_def\<close>)

lemmas ends_conn = ends_ret ends_prod ends_keeps_bnd [OF keeps_whenM [OF keeps_exit_with]]
  ends_keeps_bnd [OF keeps_call [OF keeps_register_connection]]

lemma nic_same_conn:
  assumes "nic_inv n"
  shows "cm_open_connection j ip flow (conn_manager n) = (y, cm) \<Longrightarrow> nic_same n (n\<lparr>conn_manager := cm\<rparr>)"
    and "cm_add_connection c ip flow (conn_manager n) = (z, cm) \<Longrightarrow> nic_same n (n\<lparr>conn_manager := cm\<rparr>)"
    and "cm_close_connection c (conn_manager n) = (r, cm) \<Longrightarrow> nic_same n (n\<lparr>conn_manager := cm\<rparr>)"
proof -
  have wf: "cm_wf (conn_manager n)" using assms by (simp add: nic_inv_def)
  show "cm_open_connection j ip flow (conn_manager n) = (y, cm) \<Longrightarrow> nic_same n (n\<lparr>conn_manager := cm\<rparr>)"
    using cm_open_wf [OF wf] nic_same_cm [OF assms] by blast
  show "cm_add_connection c ip flow (conn_manager n) = (z, cm) \<Longrightarrow> nic_same n (n\<lparr>conn_manager := cm\<rparr>)"
    using cm_add_wf [OF wf] nic_same_cm [OF assms] by blast
  show "cm_close_connection c (conn_manager n) = (r, cm) \<Longrightarrow> nic_same n (n\<lparr>conn_manager := cm\<rparr>)"
    using cm_close_wf' [OF wf] nic_same_cm [OF assms] by blast
qed

lemma open_connection_same:
  assumes "nic_inv n"
  shows "ends (\<lambda>y. nic_same n) (nic_open_connection x cid ip flow) n"
  unfolding nic_open_connection_def
  by (intro ends_conn ends_bnd [OF ends_conn_manager [where Q = "\<lambda>_. nic_same n"]])
    (use nic_same_conn(1) [OF assms] in auto)

lemma add_connection_same:
  assumes "nic_inv n"
  shows "ends (\<lambda>y. nic_same n) (nic_add_connection x cid ip flow) n"
  unfolding nic_add_connection_def
  by (intro ends_conn ends_bnd [OF ends_conn_manager [where Q = "\<lambda>_. nic_same n"]])
    (use nic_same_conn(2) [OF assms] in auto)

lemma follows_open:
  assumes "nic_inv n"
  shows "ends (follows (OpenConn cid ip flow) n) (bnd (call (nic_open_connection x cid ip flow)) (\<lambda>(res, _). ret res)) n"
proof -
  have "ends (\<lambda>y n'. nic_same n n' \<and> (\<forall>r :: int. y \<noteq> Exit r)) (call (nic_open_connection x cid ip flow)) n"
    by (rule ends_call [OF open_connection_same [OF assms]]) auto
  then show ?thesis by (rule ends_bnd) (auto intro!: ends_rules simp: nic_same_def follows_def life_step_def)
qed

lemma follows_add:
  assumes "nic_inv n"
  shows "ends (follows (AddConn cid ip flow) n) (nic_add_connection x cid ip flow) n"
  by (rule ends_weaken [OF add_connection_same [OF assms]]) (auto simp: nic_same_def follows_def life_step_def)

lemma follows_close:
  assumes "nic_inv n"
  shows "ends (follows (CloseConn cid) n) (nic_close_connection x cid) n"
proof -
  have stage: "follows (CloseConn cid) n y n'" if "connected n" "nic_same n n'" for y n'
  proof -
    have "nic_stage n \<noteq> Fresh" using that(1) by (simp add: nic_stage_def)
    then show ?thesis using that(2) by (auto simp: follows_def life_step_def nic_same_def)
  qed
  have same: "nic_same n n" using assms by (simp add: nic_same_def)
  have bad: "follows (CloseConn cid) n Abort n" "follows (CloseConn cid) n Undef n"
    using assms by (simp_all add: follows_def)
  show ?thesis
    unfolding nic_close_connection_def
    by (intro ends_conn ends_connected ends_bnd [OF ends_conn_manager [where Q = "\<lambda>_. nic_same n"]])
      (use same bad nic_same_conn(3) [OF assms] in \<open>auto intro: stage split: prod.splits\<close>)
qed

section \<open>Contract of a nic class\<close>

text \<open>
  What the base class relies on in a derived class: each virtual function follows the life cycle.
  The client lemma lifts this to every sequence of calls.
\<close>

locale ccip_class =
  fixes k :: "('m, 'h) nic_class" and x :: "'h opae"
  assumes configure: "nic_inv n \<Longrightarrow> ends (follows (Configure aa) n) (vt_configure k aa) n"
    and start: "nic_inv n \<Longrightarrow> ends (follows Start n) (vt_start k) n"
    and stop: "nic_inv n \<Longrightarrow> ends (follows Stop n) (vt_stop k) n"
    and notify: "nic_inv n \<Longrightarrow> ends (follows (NotifyDma flow bucket) n) (vt_notify k flow bucket) n"
begin

lemma follows_do: "nic_inv n \<Longrightarrow> ends (follows c n) (nic_do k x uuid phy_build c) n"
  by (cases c)
    (auto simp: nic_do_def intro!: ends_follows_call configure start stop notify follows_connect
      follows_initialize follows_check_errors follows_open follows_add follows_close follows_run_perf
      follows_set_lb)

lemma run_invariant:
  assumes "nic_inv n" and "nic_run k x uuid phy_build cs (n, w) = (y, (n', w'))"
  shows "nic_inv n'"
  using assms
proof (induction cs arbitrary: n w y)
  case (Cons c cs)
  obtain z n1 w1 where c: "nic_do k x uuid phy_build c (n, w) = (z, (n1, w1))" by (metis surj_pair)
  have "nic_inv n1" using endsD [OF follows_do [OF Cons.prems(1)] c] by (simp add: follows_def)
  moreover obtain z2 n2 w2 where "nic_run k x uuid phy_build cs (n1, w1) = (z2, (n2, w2))" by (metis surj_pair)
  ultimately show ?case
    using Cons.prems(2) Cons.IH [of n1 w1 z2] c
    by (cases z; cases z2) (auto simp: bnd_def ret_def)
qed (simp add: ret_def)

lemma run_life:
  assumes "nic_inv n" and "nic_run k x uuid phy_build cs (n, w) = (Done rs, (n', w'))"
  shows "length rs = length cs \<and> life_run (zip cs rs) (nic_stage n) = Some (nic_stage n')"
  using assms
proof (induction cs arbitrary: n w rs)
  case (Cons c cs)
  obtain r n1 w1 rs' where c: "nic_do k x uuid phy_build c (n, w) = (Done r, (n1, w1))"
    and cs: "nic_run k x uuid phy_build cs (n1, w1) = (Done rs', (n', w'))" and rs: "rs = r # rs'"
    using Cons.prems(2) by (auto simp: done_simps)
  have "nic_inv n1" and "life_step c r (nic_stage n) = Some (nic_stage n1)"
    using endsD [OF follows_do [OF Cons.prems(1)] c] by (auto simp: follows_def)
  then show ?case using Cons.IH cs rs by auto
qed (simp add: ret_def)

end

lemma follows_bad: "nic_inv n \<Longrightarrow> follows c n Abort n" "nic_inv n \<Longrightarrow> follows c n Undef n"
  by (simp_all add: follows_def)

lemma follows_guarded:
  "nic_inv n \<Longrightarrow> ends (follows c n) m n \<Longrightarrow>
   ends (follows c n) (bnd (assert_obj dp_configured) (\<lambda>_. bnd (assert_obj initialized) (\<lambda>_. call m))) n"
  by (intro ends_rules ends_follows_call) (auto intro: follows_bad)

text \<open>The derived part of the object plays no role in the life cycle.\<close>

lemma truncate_same:
  assumes "NicCCIP.truncate n' = NicCCIP.truncate n"
  shows "connected n' = connected n" "initialized n' = initialized n" "dp_configured n' = dp_configured n"
    "started n' = started n" "collect_perf n' = collect_perf n" "perf_thread n' = perf_thread n"
    "conn_manager n' = conn_manager n" "accel_handle n' = accel_handle n" "base_nic_addr n' = base_nic_addr n"
  using assms by (auto simp: NicCCIP.truncate_def)

lemma follows_configure_rules:
  assumes "nic_inv n" and "connected n" and "\<not> dp_configured n" and "NicCCIP.truncate n' = NicCCIP.truncate n"
  shows "follows (Configure aa) n (Exit 1) n'" "follows (Configure aa) n Abort n'"
    "follows (Configure aa) n Undef n'" "follows (Configure aa) n (Done 0) (n'\<lparr>dp_configured := True\<rparr>)"
  using assms(1-3) truncate_same [OF assms(4)] by (auto simp: life_defs)

lemma polling_alloc_ends:
  "ends (\<lambda>y n'. NicCCIP.truncate n' = NicCCIP.truncate n \<and> (\<forall>r. y = Exit r \<longrightarrow> r = 1)) (polling_alloc_queues x aa) n"
  unfolding polling_alloc_queues_def Let_def by (intro ends_quiet) (simp_all add: NicCCIP.truncate_def)

lemma polling_follows_configure:
  assumes "nic_inv n"
  shows "ends (follows (Configure aa) n) (polling_configure_data_plane x aa) n"
  unfolding polling_configure_data_plane_def
  by (intro ends_quiet ends_bnd [OF polling_alloc_ends])
    (use assms in \<open>simp_all add: follows_configure_rules follows_bad\<close>)

lemma dma_alloc_ends:
  "ends (\<lambda>y n'. NicCCIP.truncate n' = NicCCIP.truncate n \<and> (\<forall>r. y = Exit r \<longrightarrow> r = 1)) (dma_alloc_queues x aa) n"
  unfolding dma_alloc_queues_def Let_def by (intro ends_quiet) (simp_all add: NicCCIP.truncate_def)

lemma dma_follows_configure:
  assumes "nic_inv n"
  shows "ends (follows (Configure aa) n) (dma_configure_data_plane x aa) n"
  unfolding dma_configure_data_plane_def
  by (intro ends_quiet ends_bnd [OF dma_alloc_ends])
    (use assms in \<open>simp_all add: follows_configure_rules follows_bad\<close>)

lemma ends_map_bnd:
  "Q Abort n \<Longrightarrow> Q Undef n \<Longrightarrow> (\<And>a. ends Q (g a) n) \<Longrightarrow> ends Q (bnd (on_world (fpgaMapMMIO x h)) g) n"
  by (auto simp: ends_def bnd_def on_world_def fpgaMapMMIO_def split: prod.splits)

lemma mmio_follows_configure:
  assumes "nic_inv n"
  shows "ends (follows (Configure aa) n) (mmio_configure_data_plane x l_tx aa) n"
  unfolding mmio_configure_data_plane_def Let_def
  by (intro ends_quiet ends_map_bnd)
    (use assms in \<open>simp_all add: follows_configure_rules follows_bad NicCCIP.truncate_def\<close>)

lemma dma_follows_notify:
  assumes "nic_inv n"
  shows "ends (follows (NotifyDma flow bucket) n) (dma_notify_nic_of_new_dma x flow bucket) n"
proof -
  have same: "follows (NotifyDma flow bucket) n y n'" if "NicCCIP.truncate n' = NicCCIP.truncate n" for y n'
    using assms truncate_same [OF that] by (auto simp: life_defs)
  have guard: "ends Q (bnd (guardM p) g) n" if "Q Undef n" "ends Q (g ()) n"
    for Q :: "(int, int) outcome \<Rightarrow> NicDmaCCIP \<Rightarrow> bool" and p and g :: "unit \<Rightarrow> ('a, int) dma_method"
    using that by (auto simp: ends_def bnd_def guardM_def)
  show ?thesis
    unfolding dma_notify_nic_of_new_dma_def
    by (intro ends_quiet guard) (simp_all add: same NicCCIP.truncate_def)
qed

lemma follows_no_notify: "nic_inv n \<Longrightarrow> ends (follows (NotifyDma flow bucket) n) (ret 0) n"
  by (intro ends_rules) (simp add: follows_def life_step_def)

interpretation pollingc: ccip_class "polling_class x" x for x
  by unfold_locales
    (auto simp: polling_class_def polling_start_def polling_stop_def polling_notify_nic_of_new_dma_def
      intro!: polling_follows_configure follows_guarded follows_start follows_stop follows_no_notify)

interpretation dmac: ccip_class "dma_class x" x for x
  by unfold_locales
    (auto simp: dma_class_def dma_start_def dma_stop_def
      intro!: dma_follows_configure dma_follows_notify follows_guarded follows_start follows_stop)

interpretation mmioc: ccip_class "mmio_class x l_tx" x for x l_tx
  by unfold_locales
    (auto simp: mmio_class_def mmio_start_def mmio_stop_def mmio_notify_nic_of_new_dma_def
      intro!: mmio_follows_configure follows_guarded follows_start follows_stop follows_no_notify)

lemma fresh_nic:
  assumes "unat num_of_flows + 100 \<le> 2 ^ 32"
  shows "nic_inv (mk_NicPollingCCIP h ws pa base num_of_flows master)"
    "nic_stage (mk_NicPollingCCIP h ws pa base num_of_flows master) = Fresh"
    "nic_inv (mk_NicDmaCCIP h ws pa base num_of_flows master)"
    "nic_stage (mk_NicDmaCCIP h ws pa base num_of_flows master) = Fresh"
    "nic_inv (mk_NicMmioCCIP h ws pa tx sz base num_of_flows master)"
    "nic_stage (mk_NicMmioCCIP h ws pa tx sz base num_of_flows master) = Fresh"
proof -
  have "unat (num_of_flows + 100) \<le> 2 ^ 32" using assms by (subst unat_u64_add) auto
  then show "nic_inv (mk_NicPollingCCIP h ws pa base num_of_flows master)"
    "nic_stage (mk_NicPollingCCIP h ws pa base num_of_flows master) = Fresh"
    "nic_inv (mk_NicDmaCCIP h ws pa base num_of_flows master)"
    "nic_stage (mk_NicDmaCCIP h ws pa base num_of_flows master) = Fresh"
    "nic_inv (mk_NicMmioCCIP h ws pa tx sz base num_of_flows master)"
    "nic_stage (mk_NicMmioCCIP h ws pa tx sz base num_of_flows master) = Fresh"
    using cm_wf_mk [of "num_of_flows + 100"]
    by (simp_all add: mk_NicPollingCCIP_def mk_NicDmaCCIP_def mk_NicMmioCCIP_def mk_NicCCIP_def
        NicCCIP.extend_def nic_inv_def nic_stage_def)
qed

text \<open>
  C17. Life cycle of the polling nic: whatever the device, the driver and the operating system
  answer, and whatever sequence of interface calls a program makes on a new nic, the flags stay
  consistent (started only if initialised, initialised only if configured, configured only if
  connected; the connection manager well formed), also when an assertion stops the sequence; and if
  all calls return, the codes they returned and the stage reached are a run of the abstract life
  cycle. In particular no call that needs an earlier stage ever returns outside of it.
\<close>

theorem polling_life_cycle:
  assumes "unat num_of_flows + 100 \<le> 2 ^ 32"
    and "nic_run (polling_class x) x uuid phy_build cs (mk_NicPollingCCIP h ws pa base num_of_flows master, w)
      = (y, (n', w'))"
  shows "nic_inv n' \<and> (\<forall>rs. y = Done rs \<longrightarrow>
    length rs = length cs \<and> life_run (zip cs rs) Fresh = Some (nic_stage n'))"
  using pollingc.run_invariant [OF fresh_nic(1) [OF assms(1)] assms(2)]
    pollingc.run_life [OF fresh_nic(1) [OF assms(1)]] assms(2) fresh_nic(2) [OF assms(1)] by metis

text \<open>
  C18. Life cycle of the DMA and the MMIO nic, in the same sense.
\<close>

theorem dma_mmio_life_cycle:
  assumes "unat num_of_flows + 100 \<le> 2 ^ 32"
  shows "(nic_run (dma_class x) x uuid phy_build cs (mk_NicDmaCCIP h ws pa base num_of_flows master, w)
      = (y, (n', w')) \<longrightarrow> nic_inv n' \<and> (\<forall>rs. y = Done rs \<longrightarrow>
        length rs = length cs \<and> life_run (zip cs rs) Fresh = Some (nic_stage n')))
    \<and> (nic_run (mmio_class x l_tx) x uuid phy_build cs (mk_NicMmioCCIP h ws pa tx sz base num_of_flows master, w)
      = (z, (m', v')) \<longrightarrow> nic_inv m' \<and> (\<forall>rs. z = Done rs \<longrightarrow>
        length rs = length cs \<and> life_run (zip cs rs) Fresh = Some (nic_stage m')))"
  using dmac.run_invariant [OF fresh_nic(3) [OF assms]] dmac.run_life [OF fresh_nic(3) [OF assms]]
    mmioc.run_invariant [OF fresh_nic(5) [OF assms]] mmioc.run_life [OF fresh_nic(5) [OF assms]]
    fresh_nic(4,6) [OF assms] by metis

section \<open>Examples\<close>

text \<open>A device that is ready once it has been initialised and runs while it is started; its mode is DMA.\<close>

definition nic_x :: "(bool \<times> bool) opae" where
  "nic_x = quiet\<lparr>
     x_ReadMMIO64 := (\<lambda>_ a (rdy, run). ((FPGA_OK,
       if a = iRegNicStatus then push_bit 3 (of_bool rdy) OR push_bit 4 (of_bool run)
       else if a = iRegNicMode then 2 else 0), (rdy, run))),
     x_WriteMMIO64 := (\<lambda>_ a v (rdy, run). (FPGA_OK,
       (rdy \<or> a = iRegNicInit, if a = iRegNicStart then v = iConstNicStart else run)))\<rparr>"

definition nic_w0 :: "(bool \<times> bool) world" where
  "nic_w0 = \<lparr>hw = (False, False), heap_blocks = 0, evs = []\<rparr>"

definition ip_host :: IPv4 where
  "ip_host = \<lparr>ipv4_addr = 0x0100007f, ipv4_port = 3136\<rparr>"

definition life_calls :: "nic_call list" where
  "life_calls = [Connect (-1), Configure 0, Initialize \<lparr>phy_b0 = 0, phy_b1 = 1, phy_b2 = 2, phy_b3 = 3,
     phy_b4 = 4, phy_b5 = 5\<rparr> ip_host, Start, CheckErrors, Stop]"

text \<open>Evaluation of the methods on a concrete nic.\<close>

lemma wait_status_numeral:
  "wait_status x again (numeral k) =
     bnd (read_status x) (\<lambda>st.
     bnd (on_world (sleep_s x NIC_INIT_DELAY_S)) (\<lambda>_.
     if again st then wait_status x again (pred_numeral k) else ret st))"
  by (simp add: numeral_eq_Suc)

lemmas nic_eval = nic_do_def run_defs on_world_def get_obj_def upd_obj_def assert_obj_def expect_def
  xcall_def xdo_def x_defs nic_read_def nic_write_def nic_cfg_def Let_def
  connect_to_nic_def connect_to_accel_def alloc_buffer_def round_up_to_pagesize_def get_page_size_def
  initialize_nic_def check_network_mode_def read_status_def get_nic_hw_status_def wait_status_numeral
  start_nic_def stop_nic_def stop_perf_def check_hw_errors_def
  status_of_raw_def mode_of_raw_def NIC_INIT_TIMEOUT_def iPhyNetDisabled_def iConstNicInit_def
  iConstNicStart_def iConstNicStop_def iConstCcipDma_def iConstCcipMMIO_def reg_defs cfg_defs
  queue_bytes_def get_mtu_size_bytes_def mtu_cls_def NicCCIP.extend_def mk_NicCCIP_def
  polling_class_def mk_NicPollingCCIP_def polling_configure_data_plane_def polling_alloc_queues_def
  polling_start_def polling_stop_def
  dma_class_def mk_NicDmaCCIP_def dma_configure_data_plane_def dma_alloc_queues_def dma_start_def
  dma_stop_def mmio_class_def mk_NicMmioCCIP_def mmio_configure_data_plane_def

lemmas nic_example = nic_x_def quiet_def nic_w0_def life_calls_def

lemma life_example:
  "life_run (zip life_calls [0, 0, 0, 0, 0, 0]) Fresh = Some Initialized"
  "life_run (zip (take 2 life_calls) [0, 1]) Fresh = Some Connected"
  by (simp_all add: life_calls_def life_step_def)

theorem polling_life_cycle_witness:
  "\<exists>n' w'. nic_run (polling_class nic_x) nic_x [] False life_calls
      (mk_NicPollingCCIP 0 0 0 0 2 True, nic_w0) = (Done [0, 0, 0, 0, 0, 0], (n', w'))
    \<and> nic_inv n' \<and> nic_stage n' = Initialized"
proof -
  let ?r = "nic_run (polling_class nic_x) nic_x [] False life_calls (mk_NicPollingCCIP 0 0 0 0 2 True, nic_w0)"
  obtain y n' w' where r: "?r = (y, (n', w'))" by (metis surj_pair)
  have "fst ?r = Done [0, 0, 0, 0, 0, 0]" by (simp add: nic_eval nic_example)
  then have y: "y = Done [0, 0, 0, 0, 0, 0]" using r by simp
  have flows: "unat (2 :: u64) + 100 \<le> 2 ^ 32" by simp
  have "nic_inv n'" and "life_run (zip life_calls [0, 0, 0, 0, 0, 0]) Fresh = Some (nic_stage n')"
    using polling_life_cycle [OF flows r] y by blast+
  then show ?thesis using r life_example(1) unfolding y by auto
qed

theorem dma_mmio_life_cycle_witness:
  "(\<exists>n' w'. nic_run (dma_class nic_x) nic_x [] False life_calls
      (mk_NicDmaCCIP 0 0 0 0 2 True, nic_w0) = (Done [0, 0, 0, 0, 0, 0], (n', w'))
      \<and> nic_inv n' \<and> nic_stage n' = Initialized)
   \<and> (\<exists>n' w'. nic_run (mmio_class nic_x 0) nic_x [] False (take 2 life_calls)
      (mk_NicMmioCCIP 0 0 0 0 0 0 2 True, nic_w0) = (Done [0, 1], (n', w'))
      \<and> nic_inv n' \<and> nic_stage n' = Connected)"
proof -
  let ?r = "nic_run (dma_class nic_x) nic_x [] False life_calls (mk_NicDmaCCIP 0 0 0 0 2 True, nic_w0)"
  let ?s = "nic_run (mmio_class nic_x 0) nic_x [] False (take 2 life_calls)
    (mk_NicMmioCCIP 0 0 0 0 0 0 2 True, nic_w0)"
  obtain y n' w' where r: "?r = (y, (n', w'))" by (metis surj_pair)
  obtain z m' v' where s: "?s = (z, (m', v'))" by (metis surj_pair)
  have "fst ?r = Done [0, 0, 0, 0, 0, 0]" "fst ?s = Done [0, 1]"
    by (simp_all add: nic_eval nic_example)
  then have y: "y = Done [0, 0, 0, 0, 0, 0]" "z = Done [0, 1]" using r s by simp_all
  have flows: "unat (2 :: u64) + 100 \<le> 2 ^ 32" by simp
  note life = dma_mmio_life_cycle [OF flows, of nic_x "[]" False]
  have "nic_inv n'" and "life_run (zip life_calls [0, 0, 0, 0, 0, 0]) Fresh = Some (nic_stage n')"
    using conjunct1 [OF life, THEN mp, OF r] y by blast+
  moreover have "nic_inv m'" and "life_run (zip (take 2 life_calls) [0, 1]) Fresh = Some (nic_stage m')"
    using conjunct2 [OF life, THEN mp, OF s] y by blast+
  ultimately show ?thesis using r s life_example unfolding y by auto
qed

end
