(* ===== verification/Conn_Setup.thy ===== *)
theory Conn_Setup
  imports Hw_Conn Nic_Life
begin

text \<open>
  Software and hardware together: the driver's connection calls on a device that behaves like the
  connection manager of the hardware. The device runs at its own pace: any number of cycles may pass
  during a call of the driver.
\<close>

section \<open>The device behind the registers\<close>

text \<open>
  \<open>\<alpha>\<close> views the state of the system as the connection manager of the nic at \<open>base\<close>. A write of the
  set-up register delivers a frame, a read of the status register empties it, and a delay of a second
  is longer than sixteen cycles of the device's clock. The three bytes behind a frame on the stack are
  arbitrary.
\<close>

definition conn_window :: "'h opae \<Rightarrow> u64 \<Rightarrow> u64 \<Rightarrow> ('h \<Rightarrow> conn_hw) \<Rightarrow> bool" where
  "conn_window x fpga base \<alpha> \<longleftrightarrow>
     (\<forall>v h. \<exists>k h'. x_WriteMMIO64 x fpga (base + iRegConnSetupFrame) v h = (FPGA_OK, h')
        \<and> \<alpha> h' = ticks k (push_frame v (\<alpha> h))) \<and>
     (\<forall>h. \<exists>k h'. x_ReadMMIO64 x fpga (base + iRegConnStatus) h = ((FPGA_OK, fst (read_status_reg (\<alpha> h))), h')
        \<and> \<alpha> h' = ticks k (snd (read_status_reg (\<alpha> h)))) \<and>
     (\<forall>us h. 1000000 \<le> us \<longrightarrow> (\<exists>k \<ge> 16. \<alpha> (x_sleep x us h) = ticks k (\<alpha> h))) \<and>
     (\<forall>h. length (x_frame_tail x h) = 3)"

definition hw_ready :: "conn_hw \<Rightarrow> bool" where
  "hw_ready s \<longleftrightarrow> quiet_hw s \<and> tbls_ok s \<and> iRegConnStatus_hw s = no_status"

lemma frame_of_frame_word:
  assumes "length tail = 3"
  shows "frame_of (frame_word tail data cmd) = (data, ucast cmd)"
proof -
  let ?bs = "le_enc 4 data @ [take_bit 3 cmd] @ tail"
  have "ucast (frame_word tail data cmd) = data"
  proof (rule bit_word_eqI)
    fix n
    assume "n < LENGTH(32)"
    then have n: "n < 32" "n div 8 < 4" by auto
    have "n = 8 * (n div 8) + n mod 8" by simp
    then show "bit (ucast (frame_word tail data cmd) :: u32) n = bit data n"
      using n assms bit_le_enc [of "n div 8" 4 data "n mod 8"]
      by (simp add: frame_word_def bit_simps bit_le_dec nth_append)
  qed
  moreover have "ucast (drop_bit 32 (frame_word tail data cmd)) = (ucast cmd :: 3 word)"
  proof (rule bit_word_eqI)
    fix n
    assume "n < LENGTH(3)"
    then have n: "n < 3" by simp
    then have "(32 + n) div 8 = 4" "(32 + n) mod 8 = n" by presburger+
    then show "bit (ucast (drop_bit 32 (frame_word tail data cmd)) :: 3 word) n = bit (ucast cmd :: 3 word) n"
      using n assms by (simp add: frame_word_def bit_simps bit_le_dec nth_append)
  qed
  ultimately show ?thesis by (simp add: frame_of_def)
qed

lemma status_of_raw_of_status:
  assumes "cs_error_status st < 4"
  shows "conn_status_of_raw (raw_of_status st) = st"
proof -
  have "ucast (raw_of_status st) = cs_conn_id st"
    by (rule bit_word_eqI) (auto simp: raw_of_status_def bit_simps)
  moreover have "bit (raw_of_status st) 32 = cs_valid st"
    by (auto simp: raw_of_status_def bit_simps dest: bit_imp_le_length)
  moreover have "take_bit 2 (cs_error_status st) = cs_error_status st"
    using assms by (simp add: word_less_nat_alt word_unat_eq_iff unsigned_take_bit_eq take_bit_nat_eq_self)
  moreover have "take_bit 2 (drop_bit 33 (raw_of_status st)) = take_bit 2 (cs_error_status st)"
    by (rule bit_word_eqI) (auto simp: raw_of_status_def bit_simps dest: bit_imp_le_length)
  ultimately show ?thesis by (simp add: conn_status_of_raw_def)
qed

section \<open>Frames of the driver\<close>

lemma send_frame_hw:
  assumes "conn_window x (accel_handle n) (base_nic_addr n) \<alpha>"
  shows "\<exists>w' k v. send_frame x d c (n, w) = (Done (), (n, w')) \<and> frame_of v = (d, ucast c)
    \<and> \<alpha> (hw w') = ticks k (push_frame v (\<alpha> (hw w)))"
proof -
  let ?v = "frame_word (x_frame_tail x (hw w)) d c"
  obtain k h' where "x_WriteMMIO64 x (accel_handle n) (base_nic_addr n + iRegConnSetupFrame) ?v (hw w) = (FPGA_OK, h')"
    "\<alpha> h' = ticks k (push_frame ?v (\<alpha> (hw w)))"
    using assms unfolding conn_window_def by blast
  moreover have "frame_of ?v = (d, ucast c)"
    using assms by (intro frame_of_frame_word) (simp add: conn_window_def)
  ultimately show ?thesis
    by (auto simp: send_frame_def nic_cfg_def nic_write_def fpgaWriteMMIO64_def xcall_def run_defs on_world_def get_obj_def)
qed

lemma send_register_frame:
  assumes "conn_window x (accel_handle n) (base_nic_addr n) \<alpha>" and "quiet_hw s"
    and "list_all sets_register (fs @ [(d, ucast c)])" and "j \<le> length fs" and "\<alpha> (hw w) = fed fs j s"
  shows "\<exists>w' j'. send_frame x d c (n, w) = (Done (), (n, w')) \<and> j' \<le> length (fs @ [(d, ucast c)])
    \<and> \<alpha> (hw w') = fed (fs @ [(d, ucast c)]) j' s"
proof -
  obtain w' k v where w': "send_frame x d c (n, w) = (Done (), (n, w'))" and v: "frame_of v = (d, ucast c)"
    and a: "\<alpha> (hw w') = ticks k (push_frame v (\<alpha> (hw w)))"
    using send_frame_hw [OF assms(1)] by blast
  have "\<alpha> (hw w') = ticks k (fed (fs @ [(d, ucast c)]) j s)"
    using push_fed [OF assms(4), of v s] by (simp add: a v assms(5))
  then show ?thesis using ticks_fed [OF assms(2,3), of j k] assms(4) w' by (metis le_SucI length_append_singleton)
qed

lemma send_last_frame:
  assumes "conn_window x (accel_handle n) (base_nic_addr n) \<alpha>" and "hw_ready s"
    and "list_all sets_register fs" and "length fs \<le> 5" and "j \<le> length fs" and "\<alpha> (hw w) = fed fs j s"
    and "(d, ucast c) = f" and "enabled_hw (parsed (Some f) (parse_all fs s))"
  shows "\<exists>w'. send_frame x d c (n, w) = (Done (), (n, w'))
    \<and> settles (\<alpha> (hw w')) (op_result (parsed (Some f) (parse_all fs s)))"
proof -
  obtain w' k v where w': "send_frame x d c (n, w) = (Done (), (n, w'))" and v: "frame_of v = (d, ucast c)"
    and a: "\<alpha> (hw w') = ticks k (push_frame v (\<alpha> (hw w)))"
    using send_frame_hw [OF assms(1)] by blast
  have "\<alpha> (hw w') = ticks k (fed (fs @ [f]) j s)"
    using push_fed [OF assms(5), of v s] by (simp add: a v assms(6,7))
  moreover have "quiet_hw s" "iRegConnStatus_hw s = no_status" using assms(2) by (simp_all add: hw_ready_def)
  ultimately show ?thesis
    using op_settles [OF _ _ assms(3,4,5,8)] w' by (simp add: settles_ticks)
qed

section \<open>Polling of the status\<close>

lemma read_conn_status_hw:
  assumes "conn_window x (accel_handle n) (base_nic_addr n) \<alpha>"
  shows "\<exists>w' k. read_conn_status x (n, w) =
      (Done (conn_status_of_raw (raw_of_status (iRegConnStatus_hw (\<alpha> (hw w))))), (n, w'))
    \<and> \<alpha> (hw w') = ticks k ((\<alpha> (hw w))\<lparr>iRegConnStatus_hw := no_status\<rparr>)"
proof -
  obtain k h' where "x_ReadMMIO64 x (accel_handle n) (base_nic_addr n + iRegConnStatus) (hw w)
      = ((FPGA_OK, fst (read_status_reg (\<alpha> (hw w)))), h')"
    "\<alpha> h' = ticks k (snd (read_status_reg (\<alpha> (hw w))))"
    using assms unfolding conn_window_def by blast
  then show ?thesis
    by (auto simp: read_conn_status_def nic_read_def fpgaReadMMIO64_def xcall_def run_defs on_world_def get_obj_def
        read_status_reg_def)
qed

lemma sleep_hw:
  assumes "conn_window x (accel_handle n) (base_nic_addr n) \<alpha>"
  shows "\<exists>w' k. 16 \<le> k \<and> on_world (sleep_s x NIC_INIT_DELAY_S) (n, w) = (Done (), (n, w')) \<and> \<alpha> (hw w') = ticks k (\<alpha> (hw w))"
proof -
  obtain k where "16 \<le> k" "\<alpha> (x_sleep x 1000000 (hw w)) = ticks k (\<alpha> (hw w))"
    using assms unfolding conn_window_def by blast
  then show ?thesis by (auto simp: on_world_def sleep_s_def delay_us_def xdo_def run_defs NIC_INIT_DELAY_S_def)
qed

text \<open>One iteration of the polling loop sees the result or leaves the device where it is there.\<close>

lemma poll_hw:
  assumes c: "conn_window x (accel_handle n) (base_nic_addr n) \<alpha>" and s: "settles (\<alpha> (hw w)) F" and F: "quiet_hw F"
  shows "\<exists>w' st. (\<forall>g. bnd (read_conn_status x) (\<lambda>st. bnd (on_world (sleep_s x NIC_INIT_DELAY_S)) (\<lambda>_. g st)) (n, w) = g st (n, w'))
    \<and> (\<alpha> (hw w) \<noteq> F \<and> st = conn_status_of_raw (raw_of_status no_status) \<and> \<alpha> (hw w') = F
     \<or> st = conn_status_of_raw (raw_of_status (iRegConnStatus_hw F)) \<and> \<alpha> (hw w') = F\<lparr>iRegConnStatus_hw := no_status\<rparr>)"
proof -
  obtain w1 k1 where 1: "read_conn_status x (n, w) =
      (Done (conn_status_of_raw (raw_of_status (iRegConnStatus_hw (\<alpha> (hw w))))), (n, w1))"
    "\<alpha> (hw w1) = ticks k1 ((\<alpha> (hw w))\<lparr>iRegConnStatus_hw := no_status\<rparr>)"
    using read_conn_status_hw [OF c] by blast
  obtain w2 k2 where 2: "16 \<le> k2" "on_world (sleep_s x NIC_INIT_DELAY_S) (n, w1) = (Done () :: (int, unit) outcome, (n, w2))"
    "\<alpha> (hw w2) = ticks k2 (\<alpha> (hw w1))"
    using sleep_hw [OF c] by blast
  let ?st = "conn_status_of_raw (raw_of_status (iRegConnStatus_hw (\<alpha> (hw w))))"
  have "\<forall>g. bnd (read_conn_status x) (\<lambda>st. bnd (on_world (sleep_s x NIC_INIT_DELAY_S)) (\<lambda>_. g st)) (n, w) = g ?st (n, w2)"
    using 1(1) 2(2) by (simp add: bnd_def)
  moreover have "\<alpha> (hw w) \<noteq> F \<and> ?st = conn_status_of_raw (raw_of_status no_status) \<and> \<alpha> (hw w2) = F
     \<or> ?st = conn_status_of_raw (raw_of_status (iRegConnStatus_hw F)) \<and> \<alpha> (hw w2) = F\<lparr>iRegConnStatus_hw := no_status\<rparr>"
  proof (cases "\<alpha> (hw w) = F")
    case now: True
    have "quiet_hw (F\<lparr>iRegConnStatus_hw := no_status\<rparr>)" using F by (simp add: quiet_hw_def)
    then show ?thesis by (simp add: 1 2 now quiet_ticks)
  next
    case F: False
    then have later: "iRegConnStatus_hw (\<alpha> (hw w)) = no_status" using settles_now [OF s] by blast
    have "(\<alpha> (hw w))\<lparr>iRegConnStatus_hw := no_status\<rparr> = \<alpha> (hw w)"
      using later by (cases "\<alpha> (hw w)") simp
    then have "\<alpha> (hw w2) = ticks k2 (ticks k1 (\<alpha> (hw w)))" using 1(2) 2(3) by simp
    then show ?thesis using settles_later [OF settles_ticks [OF s] 2(1)] later F by simp
  qed
  ultimately show ?thesis by blast
qed

lemma settles_self: "quiet_hw F \<Longrightarrow> settles F F"
  unfolding settles_def by (auto simp: quiet_ticks)

lemma wait_conn_hw:
  assumes c: "conn_window x (accel_handle n) (base_nic_addr n) \<alpha>" and s: "settles (\<alpha> (hw w)) F" and F: "quiet_hw F"
    and d: "conn_done cid (iRegConnStatus_hw F)" and e: "cs_error_status (iRegConnStatus_hw F) < 4"
  shows "\<exists>w'. wait_conn x cid (Suc (Suc m)) (n, w) = (Done (iRegConnStatus_hw F), (n, w'))
    \<and> \<alpha> (hw w') = F\<lparr>iRegConnStatus_hw := no_status\<rparr>"
proof -
  have no: "\<not> conn_done cid (conn_status_of_raw (raw_of_status no_status))"
    by (simp add: status_of_raw_of_status no_status_def conn_done_def cOK_def)
  have once: "\<exists>w' st. (\<forall>m. wait_conn x cid (Suc m) (n, w) =
        (if \<not> conn_done cid st then wait_conn x cid m (n, w') else (Done st, (n, w'))))
    \<and> (\<alpha> (hw w) \<noteq> F \<and> st = conn_status_of_raw (raw_of_status no_status) \<and> \<alpha> (hw w') = F
     \<or> st = iRegConnStatus_hw F \<and> \<alpha> (hw w') = F\<lparr>iRegConnStatus_hw := no_status\<rparr>)"
    if w: "settles (\<alpha> (hw w)) F" for w
  proof -
    obtain w' st where p: "\<And>g. bnd (read_conn_status x) (\<lambda>st. bnd (on_world (sleep_s x NIC_INIT_DELAY_S)) (\<lambda>_. g st)) (n, w)
        = (g st (n, w') :: (int, ConnSetupStatus) outcome \<times> _)"
      and q: "\<alpha> (hw w) \<noteq> F \<and> st = conn_status_of_raw (raw_of_status no_status) \<and> \<alpha> (hw w') = F
       \<or> st = iRegConnStatus_hw F \<and> \<alpha> (hw w') = F\<lparr>iRegConnStatus_hw := no_status\<rparr>"
      using poll_hw [OF c w F] unfolding status_of_raw_of_status [OF e] by blast
    have "wait_conn x cid (Suc m) (n, w) = (if \<not> conn_done cid st then wait_conn x cid m (n, w') else (Done st, (n, w')))" for m
      using p [of "\<lambda>st. if \<not> conn_done cid st then wait_conn x cid m else ret st"] by (simp add: ret_def)
    then show ?thesis using q by blast
  qed
  obtain w1 st1 where 1: "\<And>m. wait_conn x cid (Suc m) (n, w) =
        (if \<not> conn_done cid st1 then wait_conn x cid m (n, w1) else (Done st1, (n, w1)))"
    "\<alpha> (hw w) \<noteq> F \<and> st1 = conn_status_of_raw (raw_of_status no_status) \<and> \<alpha> (hw w1) = F
     \<or> st1 = iRegConnStatus_hw F \<and> \<alpha> (hw w1) = F\<lparr>iRegConnStatus_hw := no_status\<rparr>"
    using once [OF s] by blast
  show ?thesis
  proof (cases "conn_done cid st1")
    case True
    then show ?thesis using 1(1) [of "Suc m"] 1(2) no by (intro exI [of _ w1]) (auto simp del: wait_conn.simps)
  next
    case False
    then have a: "\<alpha> (hw w1) = F" using 1(2) d by blast
    then obtain w2 where "wait_conn x cid (Suc m) (n, w1) = (Done (iRegConnStatus_hw F), (n, w2))"
      "\<alpha> (hw w2) = F\<lparr>iRegConnStatus_hw := no_status\<rparr>"
      using once [of w1] settles_self [OF F] d by fastforce
    then show ?thesis using 1(1) [of "Suc m"] False by (intro exI [of _ w2]) (simp del: wait_conn.simps)
  qed
qed

section \<open>The set-up calls\<close>

text \<open>A call that finds the device idle leaves it idle, with the table the atomic operation gives.\<close>

definition conn_post :: "int \<Rightarrow> u64 \<times> (CTAddr \<rightharpoonup> u32 \<times> u16 \<times> FlowId) \<Rightarrow> conn_hw \<Rightarrow> bool" where
  "conn_post r et s \<longleftrightarrow> hw_ready s \<and> hw_conns s = snd et \<and> r = (if fst et = cOK then 0 else 1)"

lemma small_id: "unat (cid :: u32) < 256 \<Longrightarrow> ucast (ucast cid :: u8) = cid"
  by (simp add: word_unat_eq_iff unsigned_ucast_eq unsigned_take_bit_eq take_bit_nat_eq_self)

lemma hw_error_small: "fst (hw_open cid e t) < 4" "fst (hw_close cid t) < 4"
  by (simp_all add: hw_open_def hw_close_def cIdWrong_def cAlreadyOpen_def cIsClosed_def cOK_def)

lemma hw_ready_fed: "hw_ready s \<Longrightarrow> s = fed [] 0 s" 
  by (cases s) (simp add: hw_ready_def quiet_hw_def fed_def)

lemma conn_result:
  assumes "hw_ready s" and "quiet_hw F" and "tbls_ok F" and "(cs_error_status (iRegConnStatus_hw F), hw_conns F) = et"
  shows "conn_post (if cs_error_status (iRegConnStatus_hw F) = cOK then 0 else 1) et (F\<lparr>iRegConnStatus_hw := no_status\<rparr>)"
  using assms by (auto simp: conn_post_def hw_ready_def quiet_hw_def tbls_ok_def hw_conns_def)

lemma frame_cmds:
  "(ucast setUpConnId :: 3 word) = 0" "(ucast setUpOpen :: 3 word) = 1" "(ucast setUpDestIPv4 :: 3 word) = 2"
  "(ucast setUpDestPort :: 3 word) = 3" "(ucast setUpClientFlowId :: 3 word) = 4" "(ucast setUpEnable :: 3 word) = 5"
  by (simp_all add: setUpConnId_def setUpOpen_def setUpDestIPv4_def setUpDestPort_def setUpClientFlowId_def setUpEnable_def)

lemma register_connection_hw:
  assumes c: "conn_window x (accel_handle n) (base_nic_addr n) \<alpha>" and n: "connected n" and h: "hw_ready (\<alpha> (hw w))"
    and cid: "unat cid < 256"
  shows "\<exists>r w'. register_connection x cid ip flow (n, w) = (Done r, (n, w'))
    \<and> conn_post r (hw_open cid (get_addr ip, get_port ip, ucast flow) (hw_conns (\<alpha> (hw w)))) (\<alpha> (hw w'))"
proof -
  let ?s = "\<alpha> (hw w)" and ?fs = "open_frames cid (get_addr ip) (get_port ip) flow"
  let ?F = "op_result (parsed (Some enable_frame) (parse_all ?fs ?s))"
  have q: "quiet_hw ?s" "tbls_ok ?s" using h by (simp_all add: hw_ready_def)
  note F = op_open [OF q, of cid "get_addr ip" "get_port ip" flow]
  note send = send_register_frame [OF c q(1)]
  obtain w1 j1 where 1: "send_frame x cid setUpConnId (n, w) = (Done (), (n, w1))" "j1 \<le> 1"
    "\<alpha> (hw w1) = fed [(cid, 0)] j1 ?s"
    using send [of "[]" cid setUpConnId 0 w] hw_ready_fed [OF h] by (auto simp: frame_cmds sets_register_def)
  obtain w2 j2 where 2: "send_frame x cOpen setUpOpen (n, w1) = (Done (), (n, w2))" "j2 \<le> Suc (Suc 0)"
    "\<alpha> (hw w2) = fed [(cid, 0), (1, 1)] j2 ?s"
    using send [of "[(cid, 0)]" cOpen setUpOpen j1 w1] 1 by (auto simp: frame_cmds sets_register_def cOpen_def)
  obtain w3 j3 where 3: "send_frame x (get_addr ip) setUpDestIPv4 (n, w2) = (Done (), (n, w3))" "j3 \<le> Suc (Suc (Suc 0))"
    "\<alpha> (hw w3) = fed [(cid, 0), (1, 1), (get_addr ip, 2)] j3 ?s"
    using send [of "[(cid, 0), (1, 1)]" "get_addr ip" setUpDestIPv4 j2 w2] 2 by (auto simp: frame_cmds sets_register_def)
  obtain w4 j4 where 4: "send_frame x (ucast (get_port ip)) setUpDestPort (n, w3) = (Done (), (n, w4))" "j4 \<le> Suc (Suc (Suc (Suc 0)))"
    "\<alpha> (hw w4) = fed [(cid, 0), (1, 1), (get_addr ip, 2), (ucast (get_port ip), 3)] j4 ?s"
    using send [of "[(cid, 0), (1, 1), (get_addr ip, 2)]" "ucast (get_port ip)" setUpDestPort j3 w3] 3
    by (auto simp: frame_cmds sets_register_def)
  obtain w5 j5 where 5: "send_frame x (ucast flow) setUpClientFlowId (n, w4) = (Done (), (n, w5))" "j5 \<le> length ?fs"
    "\<alpha> (hw w5) = fed ?fs j5 ?s"
    using send [of "[(cid, 0), (1, 1), (get_addr ip, 2), (ucast (get_port ip), 3)]" "ucast flow" setUpClientFlowId j4 w4] 4
    by (auto simp: frame_cmds sets_register_def open_frames_def)
  obtain w6 where 6: "send_frame x 1 setUpEnable (n, w5) = (Done (), (n, w6))" "settles (\<alpha> (hw w6)) ?F"
    using send_last_frame [OF c h open_frames_register(1) _ 5(2,3) _ open_enabled(1) [OF q(1)], of 1 setUpEnable]
    by (auto simp: frame_cmds enable_frame_def open_frames_register(2))
  have d: "conn_done cid (iRegConnStatus_hw ?F)" and e: "cs_error_status (iRegConnStatus_hw ?F) < 4"
    using F(4,5) small_id [OF cid] hw_error_small(1) unfolding conn_done_def F(3) [symmetric]
    by (simp, metis F(3) fst_conv)
  obtain w7 where 7: "wait_conn x cid 14 (n, w6) = (Done (iRegConnStatus_hw ?F), (n, w7))"
    "\<alpha> (hw w7) = ?F\<lparr>iRegConnStatus_hw := no_status\<rparr>"
    using wait_conn_hw [OF c 6(2) F(1) d e, of 12] by (auto simp del: wait_conn.simps)
  have "register_connection x cid ip flow (n, w) =
    (Done (if cs_error_status (iRegConnStatus_hw ?F) = cOK then 0 else 1), (n, w7))"
    using 1(1) 2(1) 3(1) 4(1) 5(1) 6(1) 7(1) n d
    by (auto simp: register_connection_def run_defs assert_obj_def get_obj_def NIC_INIT_TIMEOUT_def cAlreadyOpen_def cOK_def)
  then show ?thesis using conn_result [OF h F(1-3)] 7(2) by metis
qed

lemma remove_connection_hw:
  assumes c: "conn_window x (accel_handle n) (base_nic_addr n) \<alpha>" and n: "connected n" and h: "hw_ready (\<alpha> (hw w))"
    and cid: "unat cid < 256"
  shows "\<exists>r w'. remove_connection x cid (n, w) = (Done r, (n, w'))
    \<and> conn_post r (hw_close cid (hw_conns (\<alpha> (hw w)))) (\<alpha> (hw w'))"
proof -
  let ?s = "\<alpha> (hw w)" and ?fs = "close_frames cid"
  let ?F = "op_result (parsed (Some enable_frame) (parse_all ?fs ?s))"
  have q: "quiet_hw ?s" "tbls_ok ?s" using h by (simp_all add: hw_ready_def)
  note F = op_close [OF q, of cid]
  note send = send_register_frame [OF c q(1)]
  obtain w1 j1 where 1: "send_frame x cid setUpConnId (n, w) = (Done (), (n, w1))" "j1 \<le> 1"
    "\<alpha> (hw w1) = fed [(cid, 0)] j1 ?s"
    using send [of "[]" cid setUpConnId 0 w] hw_ready_fed [OF h] by (auto simp: frame_cmds sets_register_def)
  obtain w2 j2 where 2: "send_frame x cClose setUpOpen (n, w1) = (Done (), (n, w2))" "j2 \<le> length ?fs"
    "\<alpha> (hw w2) = fed ?fs j2 ?s"
    using send [of "[(cid, 0)]" cClose setUpOpen j1 w1] 1
    by (auto simp: frame_cmds sets_register_def cClose_def close_frames_def)
  obtain w3 where 3: "send_frame x 1 setUpEnable (n, w2) = (Done (), (n, w3))" "settles (\<alpha> (hw w3)) ?F"
    using send_last_frame [OF c h close_frames_register(1) _ 2(2,3) _ close_enabled(1) [OF q(1)], of 1 setUpEnable]
    by (auto simp: frame_cmds enable_frame_def close_frames_register(2))
  have d: "conn_done cid (iRegConnStatus_hw ?F)" and e: "cs_error_status (iRegConnStatus_hw ?F) < 4"
    using F(4,5) small_id [OF cid] hw_error_small(2) unfolding conn_done_def F(3) [symmetric]
    by (simp, metis F(3) fst_conv)
  obtain w4 where 4: "wait_conn x cid 14 (n, w3) = (Done (iRegConnStatus_hw ?F), (n, w4))"
    "\<alpha> (hw w4) = ?F\<lparr>iRegConnStatus_hw := no_status\<rparr>"
    using wait_conn_hw [OF c 3(2) F(1) d e, of 12] by (auto simp del: wait_conn.simps)
  have "remove_connection x cid (n, w) =
    (Done (if cs_error_status (iRegConnStatus_hw ?F) = cOK then 0 else 1), (n, w4))"
    using 1(1) 2(1) 3(1) 4(1) n d
    by (auto simp: remove_connection_def run_defs assert_obj_def get_obj_def NIC_INIT_TIMEOUT_def cIsClosed_def cOK_def)
  then show ?thesis using conn_result [OF h F(1-3)] 4(2) by metis
qed

section \<open>Both tables\<close>

text \<open>
  The table of the software holds the ids below \<open>max_connections\<close>, that of the hardware sixteen of
  them. They agree on these.
\<close>

definition conn_entry :: "IPv4 \<times> ConnectionFlowId \<Rightarrow> u32 \<times> u16 \<times> FlowId" where
  "conn_entry v = (get_addr (fst v), get_port (fst v), ucast (snd v))"

definition in_step :: "ConnectionManager \<Rightarrow> conn_hw \<Rightarrow> bool" where
  "in_step cm s \<longleftrightarrow> cm_wf cm \<and> unat (max_connections cm) \<le> 256 \<and> hw_ready s
     \<and> (\<forall>c. unat c < 16 \<longrightarrow> hw_conns s (ucast c) = map_option conn_entry (cm_conn cm c))"

lemma ct_addr_eq: "unat (c :: u32) < 16 \<Longrightarrow> unat d < 16 \<Longrightarrow> (ucast c :: CTAddr) = ucast d \<longleftrightarrow> c = d"
  by (simp add: word_unat_eq_iff unsigned_ucast_eq unsigned_take_bit_eq take_bit_nat_eq_self)

lemma wf_id_small:
  assumes "cm_wf cm" and "unat (max_connections cm) \<le> 256" and "c \<in> set (c_id_pool cm) \<or> cm_conn cm c \<noteq> None"
  shows "unat c < 256"
proof -
  have "c \<in> of_nat ` {..<unat (max_connections cm)}" using assms unfolding cm_wf_def cm_conn_None by blast
  then show ?thesis using assms(2) by (auto simp: unat_of_nat take_bit_nat_eq_self)
qed

lemma small_id_byte: "unat (c :: u32) < 256 \<Longrightarrow> unat (ucast c :: u8) = unat c"
  by (simp add: unsigned_ucast_eq unsigned_take_bit_eq take_bit_nat_eq_self)

lemma in_step_insert:
  assumes "in_step cm s" and "cm_conn cm c = None" and "unat c < 256"
    and "cm_wf cm'" and "max_connections cm' = max_connections cm" and "cm_conn cm' = (cm_conn cm)(c \<mapsto> v)"
    and "conn_post r (hw_open c (conn_entry v) (hw_conns s)) s'"
  shows "in_step cm' s' \<and> r = (if unat c < 16 then 0 else 1)"
proof (cases "unat c < 16")
  case True
  then have "hw_conns s (ucast c) = None" using assms(1,2) by (simp add: in_step_def)
  then have "hw_open c (conn_entry v) (hw_conns s) = (cOK, (hw_conns s)(ucast c \<mapsto> conn_entry v))"
    using True assms(3) by (simp add: hw_open_def small_id_byte)
  then show ?thesis using assms True by (auto simp: conn_post_def in_step_def ct_addr_eq)
next
  case False
  then have "hw_open c (conn_entry v) (hw_conns s) = (cIdWrong, hw_conns s)"
    using assms(3) by (simp add: hw_open_def small_id_byte)
  then show ?thesis using assms False by (auto simp: conn_post_def in_step_def cIdWrong_def cOK_def)
qed

lemma in_step_erase:
  assumes "in_step cm s" and "unat c < 256" and "conn_post r (hw_close c (hw_conns s)) s'"
  shows "if unat c < 16 \<and> cm_conn cm c \<noteq> None
    then r = 0 \<and> (\<forall>cm'. cm_wf cm' \<and> max_connections cm' = max_connections cm \<and> cm_conn cm' = (cm_conn cm)(c := None)
      \<longrightarrow> in_step cm' s')
    else r = 1 \<and> in_step cm s'"
proof (cases "unat c < 16 \<and> cm_conn cm c \<noteq> None")
  case True
  then have "hw_conns s (ucast c) \<noteq> None" using assms(1) by (auto simp: in_step_def)
  then have "hw_close c (hw_conns s) = (cOK, (hw_conns s)(ucast c := None))"
    using True assms(2) by (auto simp: hw_close_def small_id_byte)
  then show ?thesis using assms True by (auto simp: conn_post_def in_step_def ct_addr_eq)
next
  case False
  then have "snd (hw_close c (hw_conns s)) = hw_conns s" "fst (hw_close c (hw_conns s)) \<noteq> cOK"
    using assms(1,2) by (auto simp: hw_close_def small_id_byte in_step_def cIdWrong_def cIsClosed_def cOK_def)
  then show ?thesis using assms False by (auto simp: conn_post_def in_step_def)
qed

lemma cm_open_step:
  assumes "cm_wf cm" and "c_id_pool cm = c # cs"
  shows "\<exists>cm'. (\<forall>j. cm_open_connection j ip flow cm = (Done (0, c) :: ('r, _) outcome, cm')) \<and> cm_wf cm'
    \<and> max_connections cm' = max_connections cm
    \<and> cm_conn cm' = (cm_conn cm)(c \<mapsto> (ip, flow)) \<and> c_id_pool cm' = cs"
  using cm_insert_wf(1) [OF assms(1), of c "(ip, flow)"] cm_insert_wf(2) [OF assms(1), of c] assms
  by (simp add: cm_open_free cm_conn_def map_of_insert cm_wf_def [of cm])

lemma cm_add_step:
  assumes "cm_wf cm" and "c \<in> set (c_id_pool cm)"
  shows "\<exists>cm'. cm_add_connection c ip flow cm = (Done 0 :: ('r, _) outcome, cm') \<and> cm_wf cm'
    \<and> max_connections cm' = max_connections cm
    \<and> cm_conn cm' = (cm_conn cm)(c \<mapsto> (ip, flow)) \<and> c_id_pool cm' = remove1 c (c_id_pool cm)"
  using cm_insert_wf(1) [OF assms(1), of c "(ip, flow)"] cm_insert_wf(2) [OF assms(1), of c] assms
  by (simp add: cm_add_free cm_conn_def map_of_insert cm_wf_def [of cm])

lemma cm_close_step:
  assumes "cm_wf cm" and "cm_conn cm c \<noteq> None"
  shows "\<exists>cm'. cm_close_connection c cm = (0, cm') \<and> cm_wf cm' \<and> max_connections cm' = max_connections cm
    \<and> cm_conn cm' = (cm_conn cm)(c := None) \<and> c_id_pool cm' = c_id_pool cm @ [c]"
  using cmt.cls_open [OF assms] by (auto simp: cm_close_connection_def split: if_splits)

section \<open>Connection calls of the nic\<close>

lemma open_call:
  assumes c: "conn_window x (accel_handle n) (base_nic_addr n) \<alpha>" and n: "connected n"
    and s: "in_step (conn_manager n) (\<alpha> (hw w))" and p: "c_id_pool (conn_manager n) = c # cs"
  shows "\<exists>cm' w'. nic_open_connection x cid0 ip flow (n, w) =
      (if unat c < 16 then Done (0, c) else Exit (1, c), (n\<lparr>conn_manager := cm'\<rparr>, w'))
    \<and> in_step cm' (\<alpha> (hw w')) \<and> c_id_pool cm' = cs \<and> cm_conn cm' = (cm_conn (conn_manager n))(c \<mapsto> (ip, flow))"
proof -
  let ?cm = "conn_manager n"
  have wf: "cm_wf ?cm" "unat (max_connections ?cm) \<le> 256" "hw_ready (\<alpha> (hw w))" using s by (simp_all add: in_step_def)
  then have c256: "unat c < 256" and fresh: "cm_conn ?cm c = None"
    using wf_id_small [of ?cm c] p cmt.free_closed [of ?cm c] by simp_all
  obtain cm' where cm': "\<And>j. cm_open_connection j ip flow ?cm = (Done (0, c) :: (int \<times> ConnectionId, _) outcome, cm')" "cm_wf cm'"
    "max_connections cm' = max_connections ?cm" "cm_conn cm' = (cm_conn ?cm)(c \<mapsto> (ip, flow))" "c_id_pool cm' = cs"
    using cm_open_step [OF wf(1) p, of ip flow] by blast
  let ?n = "n\<lparr>conn_manager := cm'\<rparr>"
  obtain r w' where r: "register_connection x c ip flow (?n, w) = (Done r, (?n, w'))"
    "conn_post r (hw_open c (conn_entry (ip, flow)) (hw_conns (\<alpha> (hw w)))) (\<alpha> (hw w'))"
    using register_connection_hw [of x ?n \<alpha> w c ip flow] c n wf(3) c256 by (auto simp: conn_entry_def)
  note i = in_step_insert [OF s fresh c256 cm'(2-4) r(2)]
  then show ?thesis
    using cm' r(1) by (intro exI [of _ cm'] exI [of _ w'] conjI)
      (simp_all add: nic_open_connection_def run_defs on_conn_manager_def)
qed

lemma add_call:
  assumes c: "conn_window x (accel_handle n) (base_nic_addr n) \<alpha>" and n: "connected n"
    and s: "in_step (conn_manager n) (\<alpha> (hw w))" and p: "c \<in> set (c_id_pool (conn_manager n))"
  shows "\<exists>cm' w'. call (nic_add_connection x c ip flow) (n, w) =
      (Done (if unat c < 16 then 0 else 1) :: (int, _) outcome, (n\<lparr>conn_manager := cm'\<rparr>, w'))
    \<and> in_step cm' (\<alpha> (hw w')) \<and> c_id_pool cm' = remove1 c (c_id_pool (conn_manager n))
    \<and> cm_conn cm' = (cm_conn (conn_manager n))(c \<mapsto> (ip, flow))"
proof -
  let ?cm = "conn_manager n"
  have wf: "cm_wf ?cm" "unat (max_connections ?cm) \<le> 256" "hw_ready (\<alpha> (hw w))" using s by (simp_all add: in_step_def)
  then have c256: "unat c < 256" and fresh: "cm_conn ?cm c = None"
    using wf_id_small [of ?cm c] p cmt.free_closed [of ?cm c] by simp_all
  obtain cm' where cm': "cm_add_connection c ip flow ?cm = (Done 0 :: (int, _) outcome, cm')" "cm_wf cm'"
    "max_connections cm' = max_connections ?cm" "cm_conn cm' = (cm_conn ?cm)(c \<mapsto> (ip, flow))"
    "c_id_pool cm' = remove1 c (c_id_pool ?cm)"
    using cm_add_step [OF wf(1) p, of ip flow] by blast
  let ?n = "n\<lparr>conn_manager := cm'\<rparr>"
  obtain r w' where r: "register_connection x c ip flow (?n, w) = (Done r, (?n, w'))"
    "conn_post r (hw_open c (conn_entry (ip, flow)) (hw_conns (\<alpha> (hw w)))) (\<alpha> (hw w'))"
    using register_connection_hw [of x ?n \<alpha> w c ip flow] c n wf(3) c256 by (auto simp: conn_entry_def)
  note i = in_step_insert [OF s fresh c256 cm'(2-4) r(2)]
  then show ?thesis
    using cm' r(1) by (intro exI [of _ cm'] exI [of _ w'] conjI)
      (simp_all add: nic_add_connection_def run_defs on_conn_manager_def call_def)
qed

lemma close_call:
  assumes c: "conn_window x (accel_handle n) (base_nic_addr n) \<alpha>" and n: "connected n"
    and s: "in_step (conn_manager n) (\<alpha> (hw w))" and c256: "unat c < 256"
  shows "\<exists>r cm' w'. call (nic_close_connection x c) (n, w) = (Done r :: (int, _) outcome, (n\<lparr>conn_manager := cm'\<rparr>, w'))
    \<and> in_step cm' (\<alpha> (hw w'))
    \<and> (if unat c < 16 \<and> cm_conn (conn_manager n) c \<noteq> None
       then r = 0 \<and> c_id_pool cm' = c_id_pool (conn_manager n) @ [c] \<and> cm_conn cm' = (cm_conn (conn_manager n))(c := None)
       else r = 1 \<and> cm' = conn_manager n)"
proof -
  let ?cm = "conn_manager n" and ?open = "unat c < 16 \<and> cm_conn (conn_manager n) c \<noteq> None"
  have wf: "cm_wf ?cm" "hw_ready (\<alpha> (hw w))" using s by (simp_all add: in_step_def)
  obtain r w' where r: "remove_connection x c (n, w) = (Done r, (n, w'))"
    "conn_post r (hw_close c (hw_conns (\<alpha> (hw w)))) (\<alpha> (hw w'))"
    using remove_connection_hw [OF c n wf(2) c256] by blast
  note e = in_step_erase [OF s c256 r(2)]
  show ?thesis
  proof (cases ?open)
    case True
    obtain cm' where cm': "cm_close_connection c ?cm = (0, cm')" "cm_wf cm'" "max_connections cm' = max_connections ?cm"
      "cm_conn cm' = (cm_conn ?cm)(c := None)" "c_id_pool cm' = c_id_pool ?cm @ [c]"
      using cm_close_step [OF wf(1)] True by blast
    then have "call (nic_close_connection x c) (n, w) = (Done 0 :: (int, _) outcome, (n\<lparr>conn_manager := cm'\<rparr>, w'))"
      using r(1) e True by (simp add: nic_close_connection_def run_defs on_conn_manager_def call_def)
    then show ?thesis using cm' e True by auto
  next
    case False
    then have "call (nic_close_connection x c) (n, w) = (Done 1 :: (int, _) outcome, (n\<lparr>conn_manager := ?cm\<rparr>, w'))"
      using r(1) e by (auto simp: nic_close_connection_def run_defs call_def)
    then show ?thesis using e False by auto
  qed
qed

section \<open>Properties\<close>

text \<open>
  The calls a program makes, and what they do to the table of the software: an id the hardware has no
  entry for is taken from the pool although the call fails, and a close of it fails as well.
\<close>

fun to_call :: "cm_op \<Rightarrow> nic_call" where
  "to_call (CmOpen ip flow) = OpenConn 0 ip flow"
| "to_call (CmAdd c ip flow) = AddConn c ip flow"
| "to_call (CmClose c) = CloseConn c"

fun setup_call :: "cm_op \<Rightarrow> conn_spec \<Rightarrow> int \<times> conn_spec" where
  "setup_call (CmOpen ip flow) (fs, t) =
     (case fs of [] \<Rightarrow> (1, fs, t) | c # cs \<Rightarrow> (if unat c < 16 then 0 else 1, cs, t(c \<mapsto> (ip, flow))))"
| "setup_call (CmAdd c ip flow) (fs, t) =
     (if c \<in> set fs then (if unat c < 16 then 0 else 1, remove1 c fs, t(c \<mapsto> (ip, flow))) else (1, fs, t))"
| "setup_call (CmClose c) (fs, t) =
     (if unat c < 16 \<and> t c \<noteq> None then (0, fs @ [c], t(c := None)) else (1, fs, t))"

fun setup_run :: "cm_op list \<Rightarrow> conn_spec \<Rightarrow> int list \<times> conn_spec" where
  "setup_run [] t = ([], t)"
| "setup_run (p # ps) t = (case setup_call p t of (r, t1) \<Rightarrow> (case setup_run ps t1 of (rs, t2) \<Rightarrow> (r # rs, t2)))"

fun close_in_byte :: "cm_op \<Rightarrow> bool" where
  "close_in_byte (CmClose c) \<longleftrightarrow> unat c < 256"
| "close_in_byte _ \<longleftrightarrow> True"

lemma setup_step:
  assumes win: "conn_window x (accel_handle n) (base_nic_addr n) \<alpha>" and n: "connected n"
    and s: "in_step (conn_manager n) (\<alpha> (hw w))" and p: "close_in_byte p"
  shows "\<exists>cm' w'. nic_do k x uuid b (to_call p) (n, w) =
      (Done (fst (setup_call p (cm_abs (conn_manager n)))), (n\<lparr>conn_manager := cm'\<rparr>, w'))
    \<and> in_step cm' (\<alpha> (hw w')) \<and> cm_abs cm' = snd (setup_call p (cm_abs (conn_manager n)))"
proof (cases p)
  case (CmOpen ip flow)
  show ?thesis
  proof (cases "c_id_pool (conn_manager n)")
    case Nil
    then show ?thesis
      using CmOpen s by (intro exI [of _ "conn_manager n"] exI [of _ w])
        (simp add: nic_do_def nic_open_connection_def run_defs call_def on_conn_manager_def cm_open_full in_step_def cm_abs_def)
  next
    case (Cons c cs)
    then show ?thesis
      using open_call [OF win n s Cons, of 0 ip flow] CmOpen
      by (fastforce simp: nic_do_def bnd_def ret_def call_def cm_abs_def)
  qed
next
  case (CmAdd c ip flow)
  show ?thesis
  proof (cases "c \<in> set (c_id_pool (conn_manager n))")
    case True
    then show ?thesis
      using add_call [OF win n s True, of ip flow] CmAdd by (fastforce simp: nic_do_def cm_abs_def)
  next
    case False
    then show ?thesis
      using CmAdd s by (intro exI [of _ "conn_manager n"] exI [of _ w])
        (simp add: nic_do_def nic_add_connection_def run_defs call_def on_conn_manager_def cm_add_refused in_step_def cm_abs_def)
  qed
next
  case (CmClose c)
  then have "unat c < 256" using p by simp
  from close_call [OF win n s this] obtain r cm' w' where
    r: "call (nic_close_connection x c) (n, w) = (Done r :: (int, _) outcome, (n\<lparr>conn_manager := cm'\<rparr>, w'))"
    and i: "in_step cm' (\<alpha> (hw w'))"
    and q: "if unat c < 16 \<and> cm_conn (conn_manager n) c \<noteq> None
       then r = 0 \<and> c_id_pool cm' = c_id_pool (conn_manager n) @ [c] \<and> cm_conn cm' = (cm_conn (conn_manager n))(c := None)
       else r = 1 \<and> cm' = conn_manager n"
    by blast
  have "(r, cm_abs cm') = setup_call p (cm_abs (conn_manager n))"
    using q by (auto simp: CmClose cm_abs_def split: if_splits)
  then have "fst (setup_call p (cm_abs (conn_manager n))) = r" "snd (setup_call p (cm_abs (conn_manager n))) = cm_abs cm'"
    by (metis fst_conv, metis snd_conv)
  then show ?thesis using r i by (auto simp: CmClose nic_do_def)
qed

lemma setup_steps:
  assumes "conn_window x (accel_handle n) (base_nic_addr n) \<alpha>" and "connected n"
    and "in_step (conn_manager n) (\<alpha> (hw w))" and "list_all close_in_byte ps"
  shows "\<exists>cm' w'. nic_run k x uuid b (map to_call ps) (n, w) =
      (Done (fst (setup_run ps (cm_abs (conn_manager n)))), (n\<lparr>conn_manager := cm'\<rparr>, w'))
    \<and> in_step cm' (\<alpha> (hw w')) \<and> cm_abs cm' = snd (setup_run ps (cm_abs (conn_manager n)))"
  using assms
proof (induction ps arbitrary: n w)
  case Nil
  then show ?case by (intro exI [of _ "conn_manager n"] exI [of _ w]) (simp add: ret_def)
next
  case (Cons p ps)
  let ?t = "cm_abs (conn_manager n)"
  obtain cm1 w1 where 1: "nic_do k x uuid b (to_call p) (n, w) = (Done (fst (setup_call p ?t)), (n\<lparr>conn_manager := cm1\<rparr>, w1))"
    "in_step cm1 (\<alpha> (hw w1))" "cm_abs cm1 = snd (setup_call p ?t)"
    using setup_step [OF Cons.prems(1-3), of p k uuid b] Cons.prems(4) by auto
  obtain cm2 w2 where 2: "nic_run k x uuid b (map to_call ps) (n\<lparr>conn_manager := cm1\<rparr>, w1) =
      (Done (fst (setup_run ps (cm_abs cm1))), (n\<lparr>conn_manager := cm2\<rparr>, w2))"
    "in_step cm2 (\<alpha> (hw w2))" "cm_abs cm2 = snd (setup_run ps (cm_abs cm1))"
    using Cons.IH [of "n\<lparr>conn_manager := cm1\<rparr>" w1] Cons.prems 1(2) by auto
  then show ?case
    using 1 by (intro exI [of _ cm2] exI [of _ w2]) (simp add: bnd_def ret_def case_prod_beta)
qed


lemma failed_opens:
  "list_all (\<lambda>p. 16 \<le> unat p) ps \<Longrightarrow>
    \<exists>t'. setup_run (replicate (length ps) (CmOpen ip flow) @ [CmOpen ip flow]) (ps @ [c], t)
      = (replicate (length ps) 1 @ [if unat c < 16 then 0 else 1], [], t'(c \<mapsto> (ip, flow)))"
proof (induction ps arbitrary: t)
  case (Cons p ps)
  then obtain t' where "setup_run (replicate (length ps) (CmOpen ip flow) @ [CmOpen ip flow]) (ps @ [c], t(p \<mapsto> (ip, flow)))
      = (replicate (length ps) 1 @ [if unat c < 16 then 0 else 1], [], t'(c \<mapsto> (ip, flow)))"
    using Cons.IH [of "t(p \<mapsto> (ip, flow))"] by (auto simp del: fun_upd_apply)
  then show ?case using Cons.prems by (intro exI [of _ t']) (simp add: fun_eq_iff)
qed auto

text \<open>
  C29. Ids without an entry in the hardware block the others: the pool of a nic has more ids than the
  hardware has entries. While only ids from sixteen on are free, closing a connection that works
  succeeds, but each of the next opens takes one of these ids, fails and never gives it back, although
  the hardware has a free entry; only when they are used up does an open succeed again.
\<close>

theorem closed_id_blocked:
  assumes "conn_window x (accel_handle n) (base_nic_addr n) \<alpha>" and "connected n"
    and "in_step (conn_manager n) (\<alpha> (hw w))"
    and "list_all (\<lambda>p. 16 \<le> unat p) (c_id_pool (conn_manager n))"
    and "unat c < 16" and "cm_conn (conn_manager n) c \<noteq> None"
  shows "\<exists>n' w'. nic_run k x uuid b
      (CloseConn c # replicate (length (c_id_pool (conn_manager n))) (OpenConn 0 ip flow) @ [OpenConn 0 ip flow]) (n, w)
      = (Done (0 # replicate (length (c_id_pool (conn_manager n))) 1 @ [0]), (n', w'))
    \<and> c_id_pool (conn_manager n') = [] \<and> hw_conns (\<alpha> (hw w')) (ucast c) = Some (conn_entry (ip, flow))"
proof -
  let ?ps = "c_id_pool (conn_manager n)"
  let ?ops = "CmClose c # replicate (length ?ps) (CmOpen ip flow) @ [CmOpen ip flow]"
  obtain t' where t': "setup_run ?ops (cm_abs (conn_manager n)) = (0 # replicate (length ?ps) 1 @ [0], [], t'(c \<mapsto> (ip, flow)))"
    using failed_opens [OF assms(4), of ip flow c "(cm_conn (conn_manager n))(c := None)"] assms(5,6)
    by (auto simp: cm_abs_def case_prod_beta)
  have "list_all close_in_byte ?ops" using assms(5) by (simp add: list_all_iff)
  from setup_steps [OF assms(1-3) this, of k uuid b] obtain cm' w' where
    r: "nic_run k x uuid b (map to_call ?ops) (n, w) = (Done (0 # replicate (length ?ps) 1 @ [0]), (n\<lparr>conn_manager := cm'\<rparr>, w'))"
    and i: "in_step cm' (\<alpha> (hw w'))" and a: "cm_abs cm' = ([], t'(c \<mapsto> (ip, flow)))"
    unfolding t' by auto
  have "hw_conns (\<alpha> (hw w')) (ucast c) = Some (conn_entry (ip, flow))"
    using i a assms(5) by (simp add: in_step_def cm_abs_def)
  moreover have "c_id_pool cm' = []" using a by (simp add: cm_abs_def)
  ultimately show ?thesis using r by (intro exI [of _ "n\<lparr>conn_manager := cm'\<rparr>"] exI [of _ w']) simp
qed

text \<open>
  C28. An opened connection carries packets: after \<open>open_connection\<close> has returned success and an id, a
  packet from the CPU with that id in its header leaves the RPC unit of the hardware towards the address
  and port the program asked for, and one from the network goes to the flow it asked for.
\<close>

theorem open_connection_routes:
  assumes "conn_window x (accel_handle n) (base_nic_addr n) \<alpha>" and "connected n"
    and "in_step (conn_manager n) (\<alpha> (hw w))"
    and "nic_open_connection x cid0 ip flow (n, w) = (Done (0, c), (n', w'))" and "c_id (hdr r) = ucast c"
  shows "rpc_net_out (path_cycle s2 rin nin (path_cycle (\<alpha> (hw w')) (Some r) nin' p)) = Some (r, get_addr ip, get_port ip)
    \<and> rpc_out (path_cycle s2 rin nin (path_cycle (\<alpha> (hw w')) rin' (Some r) p)) = Some (r, ucast flow)"
proof -
  let ?s = "\<alpha> (hw w')"
  obtain d ds where pool: "c_id_pool (conn_manager n) = d # ds"
    using assms(3,4) by (cases "c_id_pool (conn_manager n)")
      (auto simp: nic_open_connection_def run_defs on_conn_manager_def cm_open_full in_step_def)
  then have c: "unat c < 16" and i: "in_step (conn_manager n') ?s" "cm_conn (conn_manager n') c = Some (ip, flow)"
    using open_call [OF assms(1-3) pool, of cid0 ip flow] assms(4) by (auto split: if_splits)
  then have entry: "hw_conns ?s (ucast c) = Some (conn_entry (ip, flow))" by (simp add: in_step_def)
  have "unat (c_id (hdr r)) < 16" "ucast (c_id (hdr r)) = (ucast c :: CTAddr)"
    using c assms(5) by (simp_all add: small_id_byte ucast_addr)
  then show ?thesis
    using entry i(1)
    by (auto simp: path_cycle_def lookup_addr_def in_range_def LCONN_TBL_SIZE_def hw_conns_def in_step_def hw_ready_def
        tbls_ok_def conn_entry_def split: if_splits)
qed

section \<open>Instances\<close>

text \<open>A device that takes one cycle per frame and twenty per delay.\<close>

definition conn_x :: "conn_hw opae" where
  "conn_x = quiet\<lparr>
     x_ReadMMIO64 := (\<lambda>_ a s. if a = iRegConnStatus then ((FPGA_OK, fst (read_status_reg s)), snd (read_status_reg s))
       else ((FPGA_OK, 0), s)),
     x_WriteMMIO64 := (\<lambda>_ a v s. (FPGA_OK, if a = iRegConnSetupFrame then hw_cycle False (push_frame v s) else s)),
     x_sleep := (\<lambda>_. ticks 20), x_frame_tail := (\<lambda>_. [0, 0, 0])\<rparr>"

lemma conn_x_window: "conn_window conn_x fpga 0 id"
proof -
  have "\<exists>k. hw_cycle False (push_frame v h) = ticks k (push_frame v h)" for v h
    by (rule exI [of _ 1]) simp
  moreover have "\<exists>k. snd (read_status_reg h) = ticks k (snd (read_status_reg h))" for h
    by (rule exI [of _ 0]) simp
  moreover have "\<exists>k \<ge> 16. ticks 20 h = ticks k h" for h by (rule exI [of _ 20]) simp
  ultimately show ?thesis by (simp add: conn_window_def conn_x_def)
qed

definition conn_nic :: "u64 \<Rightarrow> NicPollingCCIP" where
  "conn_nic m = (mk_NicPollingCCIP 0 0 0 0 2 True)\<lparr>connected := True, conn_manager := mk_ConnectionManager m\<rparr>"

definition conn_w0 :: "conn_hw world" where
  "conn_w0 = \<lparr>hw = hw_idle, heap_blocks = 0, evs = []\<rparr>"

lemma conn_nic:
  "accel_handle (conn_nic m) = 0" "base_nic_addr (conn_nic m) = 0" "connected (conn_nic m)"
  "conn_manager (conn_nic m) = mk_ConnectionManager m"
  by (simp_all add: conn_nic_def mk_NicPollingCCIP_def NicCCIP.extend_def mk_NicCCIP_def)

lemma conn_nic_window: "conn_window conn_x (accel_handle (conn_nic m)) (base_nic_addr (conn_nic m)) id"
  by (simp add: conn_nic conn_x_window)

lemma conn_nic_in_step: "unat m \<le> 256 \<Longrightarrow> in_step (conn_manager (conn_nic m)) (id (hw conn_w0))"
  using hw_idle cm_wf_mk [of m]
  by (simp add: conn_nic in_step_def hw_ready_def conn_w0_def cm_conn_def mk_ConnectionManager_def)


theorem open_connection_routes_witness:
  "\<exists>w' n'. nic_open_connection conn_x 7 ip_host 1 (conn_nic 18, conn_w0) = (Done (0, 0), (n', w'))
    \<and> rpc_net_out (path_cycle (hw w') None None (path_cycle (hw w') (Some (pckt_of_conn 0)) None path_after_2))
      = Some (pckt_of_conn 0, get_addr ip_host, get_port ip_host)"
proof -
  have "c_id_pool (conn_manager (conn_nic 18)) = 0 # map of_nat [1..<18]"
    by (simp add: conn_nic mk_ConnectionManager_def upt_rec)
  then obtain n' w' where "nic_open_connection conn_x 7 ip_host 1 (conn_nic 18, conn_w0) = (Done (0, 0), (n', w'))"
    using open_call [OF conn_nic_window conn_nic(3) conn_nic_in_step, of 18 0 _ 7 ip_host 1] by fastforce
  then show ?thesis
    using open_connection_routes [OF conn_nic_window conn_nic(3) conn_nic_in_step, of 18 7 ip_host 1 0 n' w' "pckt_of_conn 0"]
    by (auto simp: pckt_of_conn_def)
qed

lemma good_opens:
  "list_all (\<lambda>p. unat p < 16) ps \<Longrightarrow> distinct ps \<Longrightarrow>
    \<exists>t'. setup_run (replicate (length ps) (CmOpen ip flow)) (ps @ qs, t) = (replicate (length ps) 0, qs, t')
      \<and> (\<forall>c. t' c = (if c \<in> set ps then Some (ip, flow) else t c))"
proof (induction ps arbitrary: t)
  case (Cons p ps)
  then obtain t' where "setup_run (replicate (length ps) (CmOpen ip flow)) (ps @ qs, t(p \<mapsto> (ip, flow)))
      = (replicate (length ps) 0, qs, t')" "\<forall>c. t' c = (if c \<in> set ps then Some (ip, flow) else (t(p \<mapsto> (ip, flow))) c)"
    using Cons.IH [of "t(p \<mapsto> (ip, flow))"] by (auto simp del: fun_upd_apply)
  then show ?case using Cons.prems by (intro exI [of _ t']) auto
qed auto

theorem closed_id_blocked_witness:
  "\<exists>(n :: NicPollingCCIP) w n' w'. c_id_pool (conn_manager n) = [16, 17] \<and> cm_conn (conn_manager n) 5 \<noteq> None
    \<and> nic_run (polling_class conn_x) conn_x [] False
        [CloseConn 5, OpenConn 0 ip_host 1, OpenConn 0 ip_host 1, OpenConn 0 ip_host 1] (n, w) = (Done [0, 1, 1, 0], (n', w'))"
proof -
  let ?ps = "map of_nat [0..<16] :: u32 list"
  have five: "(5 :: u32) \<in> of_nat ` {0..<16}" by (rule image_eqI [of _ _ 5]) simp_all
  have "list_all (\<lambda>p. unat p < 16) ?ps" "distinct ?ps" by (simp_all add: upt_rec)
  then obtain t where t: "setup_run (replicate 16 (CmOpen ip_host 1)) (?ps @ [16, 17], Map.empty) = (replicate 16 0, [16, 17], t)"
    "t 5 = Some (ip_host, 1)"
    using good_opens [of ?ps ip_host 1 "[16, 17]" Map.empty] five by auto
  have a: "cm_abs (conn_manager (conn_nic 18)) = (?ps @ [16, 17], Map.empty)"
    by (simp add: conn_nic cm_abs_def mk_ConnectionManager_def cm_conn_def upt_rec)
  have "list_all close_in_byte (replicate 16 (CmOpen ip_host 1))" by (simp add: list_all_iff)
  from setup_steps [OF conn_nic_window conn_nic(3) conn_nic_in_step this, of 18 "polling_class conn_x" "[]" False]
  obtain cm and w :: "conn_hw world" where "in_step cm (hw w)" "cm_abs cm = ([16, 17], t)"
    unfolding a t(1) id_apply snd_conv by (auto simp del: nic_run.simps map_replicate)
  then have cm: "in_step cm (id (hw w))" "c_id_pool cm = [16, 17]" "cm_conn cm 5 \<noteq> None"
    using t(2) by (simp_all add: cm_abs_def)
  let ?n = "(conn_nic 18)\<lparr>conn_manager := cm\<rparr>"
  have "\<exists>n' w'. nic_run (polling_class conn_x) conn_x [] False
      [CloseConn 5, OpenConn 0 ip_host 1, OpenConn 0 ip_host 1, OpenConn 0 ip_host 1] (?n, w) = (Done [0, 1, 1, 0], (n', w'))"
    using closed_id_blocked [of conn_x ?n id w 5 "polling_class conn_x" "[]" False ip_host 1]
      conn_nic_window [of 18] conn_nic(3) cm by (auto simp del: nic_run.simps)
  then have "c_id_pool (conn_manager ?n) = [16, 17] \<and> cm_conn (conn_manager ?n) 5 \<noteq> None \<and> (\<exists>n' w'. nic_run (polling_class conn_x) conn_x [] False
      [CloseConn 5, OpenConn 0 ip_host 1, OpenConn 0 ip_host 1, OpenConn 0 ip_host 1] (?n, w) = (Done [0, 1, 1, 0], (n', w')))"
    using cm(2,3) by (simp del: nic_run.simps)
  then show ?thesis by blast
qed

end
