(* ===== verification/Rx_Poll.thy ===== *)
theory Rx_Poll
  imports Queues
begin

text \<open>
  The receive protocol that \<^verbatim>\<open>CompletionQueue::_PullListen\<close> and \<^verbatim>\<open>RpcServerThread::_PullListen\<close>
  share, as an abstract specification: a poller asks its receive queue for the current slot and
  the RPC id last seen there, spins until the packet in the slot is valid and carries another id,
  records that id and copies the packet. The device is the other party: it stores packets into
  successive slots. The locale \<open>rx_consumer\<close> is the contract of a thread that refines the poller;
  in it the delivery results are proved once for every such thread.
\<close>

section \<open>The poller\<close>

datatype poll_phase = Idle | Spin u64 u32 | Take u64 | Copy u64

record poll_state =
  ph :: poll_phase
  pstop :: bool
  prxq :: RxQueue
  plog :: "RpcPckt list"

text \<open>The condition that keeps the inner loop of both threads spinning.\<close>

definition no_new_pckt :: "memory \<Rightarrow> u64 \<Rightarrow> u32 \<Rightarrow> bool" where
  "no_new_pckt m ptr seen \<longleftrightarrow>
     (let h = hdr (read_pckt m ptr) in \<not> valid (ctl h) \<or> rpc_id h = seen)"

text \<open>One load of the header and one copy of the packet are atomic: a packet is one cache line.\<close>

inductive poll_step :: "memory \<Rightarrow> poll_state \<Rightarrow> poll_state \<Rightarrow> bool" for m where
  ps_start: "ph s = Idle \<Longrightarrow> get_read_ptr (prxq s) = (Done (ptr, seen) :: (unit, _) outcome) \<Longrightarrow>
     poll_step m s (s\<lparr>ph := Spin ptr seen\<rparr>)"
| ps_exit: "ph s = Spin ptr seen \<Longrightarrow> pstop s \<or> \<not> no_new_pckt m ptr seen \<Longrightarrow>
     poll_step m s (s\<lparr>ph := Take ptr\<rparr>)"
| ps_abandon: "ph s = Take ptr \<Longrightarrow> pstop s \<Longrightarrow> poll_step m s (s\<lparr>ph := Idle\<rparr>)"
| ps_take: "ph s = Take ptr \<Longrightarrow> \<not> pstop s \<Longrightarrow>
     update_rpc_id (rpc_id (hdr (read_pckt m ptr))) (prxq s) = (Done () :: (unit, _) outcome, q) \<Longrightarrow>
     poll_step m s (s\<lparr>ph := Copy ptr, prxq := q\<rparr>)"
| ps_copy: "ph s = Copy ptr \<Longrightarrow>
     poll_step m s (s\<lparr>ph := Idle, plog := plog s @ [read_pckt m ptr]\<rparr>)"
| ps_stop: "poll_step m s (s\<lparr>pstop := True\<rparr>)"
| ps_restart: "ph s = Idle \<Longrightarrow> poll_step m s (s\<lparr>pstop := False\<rparr>)"

inductive_cases poll_stepE: "poll_step m s s'"

section \<open>The device and the composed system\<close>

text \<open>
  The address of the slot of packet number \<open>n\<close>, and the id a poller remembers for that slot before
  packet \<open>n\<close> arrives.
\<close>

definition rx_addr :: "u64 \<Rightarrow> nat \<Rightarrow> nat \<Rightarrow> u64" where
  "rx_addr buff d n = buff + of_nat (n mod d) * 64"

definition seen_id :: "nat \<Rightarrow> RpcPckt list \<Rightarrow> nat \<Rightarrow> u32" where
  "seen_id d sent n = (if n < d then - 1 else rpc_id (hdr (sent ! (n - d))))"

text \<open>
  The device stores packet number \<open>length sent\<close>. It does not overrun the ring, the packet is
  marked valid, and its RPC id differs from the id of the packet it replaces: the three things the
  polling protocol relies on.
\<close>

definition dev_may_send :: "nat \<Rightarrow> RpcPckt list \<Rightarrow> nat \<Rightarrow> RpcPckt \<Rightarrow> bool" where
  "dev_may_send d sent taken p \<longleftrightarrow> length sent < taken + d \<and> pckt_wf p \<and> valid (ctl (hdr p))
     \<and> rpc_id (hdr p) \<noteq> seen_id d sent (length sent)"

inductive rx_system ::
  "u64 \<Rightarrow> nat \<Rightarrow> ('c \<Rightarrow> poll_state) \<Rightarrow> (memory \<Rightarrow> 'c \<Rightarrow> 'c \<Rightarrow> bool)
    \<Rightarrow> memory \<times> RpcPckt list \<times> 'c \<Rightarrow> memory \<times> RpcPckt list \<times> 'c \<Rightarrow> bool"
  for buff d view con where
  rs_dev: "dev_may_send d sent (length (plog (view c))) p \<Longrightarrow>
     rx_system buff d view con (m, sent, c)
       (write_pckt m (rx_addr buff d (length sent)) pad p, sent @ [p], c)"
| rs_con: "con m c c' \<Longrightarrow> rx_system buff d view con (m, sent, c) (m, sent, c')"

inductive_cases rx_systemE: "rx_system buff d view con s s'"

text \<open>Before the device starts, no slot of the buffer holds a packet marked valid.\<close>

definition slots_blank :: "memory \<Rightarrow> u64 \<Rightarrow> nat \<Rightarrow> bool" where
  "slots_blank m buff d \<longleftrightarrow> (\<forall>i<d. \<not> valid (ctl (hdr (read_pckt m (rx_addr buff d i)))))"

section \<open>Invariant\<close>

text \<open>How many packets the receive queue has advanced over.\<close>

definition ptaken :: "poll_state \<Rightarrow> nat" where
  "ptaken s = (case ph s of Copy _ \<Rightarrow> Suc (length (plog s)) | _ \<Rightarrow> length (plog s))"

definition mem_inv :: "u64 \<Rightarrow> nat \<Rightarrow> memory \<Rightarrow> RpcPckt list \<Rightarrow> bool" where
  "mem_inv buff d m sent \<longleftrightarrow>
     (\<forall>j<length sent. length sent \<le> j + d \<longrightarrow> read_pckt m (rx_addr buff d j) = sent ! j) \<and>
     (\<forall>i<d. length sent \<le> i \<longrightarrow> \<not> valid (ctl (hdr (read_pckt m (rx_addr buff d i))))) \<and>
     (\<forall>j<length sent. valid (ctl (hdr (sent ! j))) \<and> rpc_id (hdr (sent ! j)) \<noteq> seen_id d sent j)"

definition phase_inv :: "u64 \<Rightarrow> nat \<Rightarrow> RpcPckt list \<Rightarrow> poll_state \<Rightarrow> bool" where
  "phase_inv buff d sent s \<longleftrightarrow> (let n = length (plog s) in
     case ph s of
       Idle \<Rightarrow> True
     | Spin ptr seen \<Rightarrow> ptr = rx_addr buff d n \<and> seen = seen_id d sent n
     | Take ptr \<Rightarrow> ptr = rx_addr buff d n \<and> (pstop s \<or> n < length sent)
     | Copy ptr \<Rightarrow> ptr = rx_addr buff d n \<and> n < length sent)"

definition poll_inv :: "u64 \<Rightarrow> nat \<Rightarrow> RxQueue \<Rightarrow> RpcPckt list \<Rightarrow> poll_state \<Rightarrow> bool" where
  "poll_inv buff d q0 sent s \<longleftrightarrow>
     length (plog s) \<le> length sent \<and> length sent \<le> length (plog s) + d \<and>
     plog s = take (length (plog s)) sent \<and>
     prxq s = fold rx_advance (map (rpc_id \<circ> hdr) (take (ptaken s) sent)) q0 \<and>
     phase_inv buff d sent s"

section \<open>Preservation\<close>

lemma seen_id_append: "n \<le> length sent \<Longrightarrow> 0 < d \<Longrightarrow> seen_id d (sent @ [p]) n = seen_id d sent n"
  by (auto simp: seen_id_def nth_append)

lemma mem_inv_init: "slots_blank m buff d \<Longrightarrow> mem_inv buff d m []"
  by (simp add: mem_inv_def slots_blank_def)

lemma poll_inv_init:
  "0 < d \<Longrightarrow> ph s = Idle \<Longrightarrow> plog s = [] \<Longrightarrow> poll_inv buff d (prxq s) [] s"
  by (simp add: poll_inv_def phase_inv_def ptaken_def)

lemma poll_inv_append:
  assumes "poll_inv buff d q0 sent s" and "length sent < length (plog s) + d" and "0 < d"
  shows "poll_inv buff d q0 (sent @ [p]) s"
proof -
  have n: "length (plog s) \<le> length sent" using assms(1) by (simp add: poll_inv_def)
  have "ptaken s \<le> length sent"
    using assms(1) by (auto simp: poll_inv_def ptaken_def phase_inv_def Let_def split: poll_phase.splits)
  moreover have "phase_inv buff d (sent @ [p]) s"
    using assms n
    by (auto simp: poll_inv_def phase_inv_def Let_def seen_id_append split: poll_phase.splits)
  ultimately show ?thesis using assms n by (simp add: poll_inv_def)
qed

text \<open>A ring that \<^verbatim>\<open>RxQueue\<close> set up with one cache line per bucket and \<open>d\<close> slots.\<close>

definition rx_ring :: "u64 \<Rightarrow> nat \<Rightarrow> RxQueue \<Rightarrow> bool" where
  "rx_ring buff d q0 \<longleftrightarrow> (\<exists>l. fresh_rx buff 64 l q0 \<and> d = 2 ^ unat l)"

lemma rx_ring_bounds:
  assumes "rx_ring buff d q0"
  shows "0 < d" and "x mod d < 2 ^ 31"
proof -
  obtain l where l: "fresh_rx buff 64 l q0" "d = 2 ^ unat l" using assms by (auto simp: rx_ring_def)
  then show "0 < d" by simp
  then have "x mod d < d" by simp
  also have "d \<le> 2 ^ 31" using l unfolding l(2) by (intro power_increasing) (simp_all add: fresh_rx_def)
  finally show "x mod d < 2 ^ 31" .
qed

lemma mem_inv_append:
  assumes "rx_ring buff d q0" and "mem_inv buff d m sent" and "pckt_wf p" and "valid (ctl (hdr p))"
    and "rpc_id (hdr p) \<noteq> seen_id d sent (length sent)"
  shows "mem_inv buff d (write_pckt m (rx_addr buff d (length sent)) pad p) (sent @ [p])"
proof -
  let ?n = "length sent" and ?m = "write_pckt m (rx_addr buff d (length sent)) pad p"
  have other: "read_pckt ?m (rx_addr buff d j) = read_pckt m (rx_addr buff d j)"
    if "j mod d \<noteq> ?n mod d" for j
    unfolding rx_addr_def
    using that assms(3) rx_ring_bounds(2) [OF assms(1)] by (intro read_write_other_slot) auto
  have "j mod d \<noteq> ?n mod d" if "j < ?n" "?n < j + d" for j
  proof -
    have "?n - j < d" using that by linarith
    then show ?thesis using that mod_other_in_lap [of "?n - j" d j] by simp
  qed
  moreover have "i mod d \<noteq> ?n mod d" if "i < d" "?n < i" for i
    using that by simp
  ultimately show ?thesis
    using assms other rx_ring_bounds(1) [OF assms(1)]
    by (auto simp: mem_inv_def nth_append seen_id_append less_Suc_eq read_write_pckt Suc_le_eq)
qed

lemma read_slot:
  assumes "rx_ring buff d q0" and "n \<le> length sent"
  shows "get_read_ptr (fold rx_advance (map (rpc_id \<circ> hdr) (take n sent)) q0)
    = Done (rx_addr buff d n, seen_id d sent n)"
proof -
  obtain l where l: "fresh_rx buff 64 l q0" "d = 2 ^ unat l" using assms by (auto simp: rx_ring_def)
  have "n - d < n" if "\<not> n < d" using that rx_ring_bounds(1) [OF assms(1)] by linarith
  then show ?thesis
    using assms(2) by (auto simp: rx_read_result [OF l(1)] rx_addr_def seen_id_def l(2) min_absorb2)
qed

lemma read_current:
  assumes "rx_ring buff d q0" and "poll_inv buff d q0 sent s" and "ptaken s = n" and "n \<le> length sent"
  shows "get_read_ptr (prxq s) = Done (rx_addr buff d n, seen_id d sent n)"
proof -
  have "prxq s = fold rx_advance (map (rpc_id \<circ> hdr) (take n sent)) q0"
    using assms(2,3) unfolding poll_inv_def by blast
  then show ?thesis by (simp only: read_slot [OF assms(1,4)])
qed

lemma new_pckt_iff:
  assumes "rx_ring buff d q0" and "mem_inv buff d m sent"
    and "n \<le> length sent" and "length sent \<le> n + d"
  shows "no_new_pckt m (rx_addr buff d n) (seen_id d sent n) \<longleftrightarrow> n = length sent"
proof (cases "n = length sent")
  case False
  then show ?thesis using assms by (simp add: mem_inv_def no_new_pckt_def Let_def)
next
  case n: True
  show ?thesis
  proof (cases "n < d")
    case True
    then show ?thesis using assms n by (simp add: mem_inv_def no_new_pckt_def Let_def)
  next
    case False
    then have "rx_addr buff d n = rx_addr buff d (n - d)"
      by (simp add: rx_addr_def le_mod_geq)
    then show ?thesis
      using assms(2) False n rx_ring_bounds(1) [OF assms(1)]
      by (simp add: mem_inv_def no_new_pckt_def Let_def seen_id_def)
  qed
qed

lemma slot_holds_next:
  assumes "mem_inv buff d m sent" and "poll_inv buff d q0 sent s" and "length (plog s) < length sent"
  shows "read_pckt m (rx_addr buff d (length (plog s))) = sent ! length (plog s)"
  using assms by (simp add: mem_inv_def poll_inv_def)

lemma rx_ring_wf: "rx_ring buff d q0 \<Longrightarrow> rx_wf (fold rx_advance xs q0)"
  by (auto simp: rx_ring_def intro: rxq.invar_run fresh_rxD(1))

text \<open>Every step of the poller keeps its part of the invariant.\<close>

lemma poll_inv_step:
  assumes "poll_step m s s'" and "rx_ring buff d q0" and "mem_inv buff d m sent"
    and "poll_inv buff d q0 sent s"
  shows "poll_inv buff d q0 sent s'"
  using assms(1)
proof cases
  case (ps_start ptr seen)
  then have "ptaken s = length (plog s)" by (simp add: ptaken_def)
  then have "get_read_ptr (prxq s)
      = (Done (rx_addr buff d (length (plog s)), seen_id d sent (length (plog s))) :: (unit, _) outcome)"
    using read_current [OF assms(2,4), of "length (plog s)"] assms(4) by (simp add: poll_inv_def)
  then show ?thesis
    using assms(4) ps_start by (auto simp: poll_inv_def phase_inv_def Let_def ptaken_def)
next
  case (ps_exit ptr seen)
  then show ?thesis
    using assms(4) new_pckt_iff [OF assms(2,3), of "length (plog s)"]
    by (auto simp: poll_inv_def phase_inv_def Let_def ptaken_def)
next
  case (ps_abandon ptr)
  then show ?thesis using assms(4) by (auto simp: poll_inv_def phase_inv_def Let_def ptaken_def)
next
  case (ps_take ptr q)
  let ?n = "length (plog s)"
  have n: "?n < length sent" "ptr = rx_addr buff d ?n"
    using ps_take assms(4) by (auto simp: poll_inv_def phase_inv_def Let_def)
  have "q = rx_advance (rpc_id (hdr (sent ! ?n))) (prxq s)"
    using ps_take(4) slot_holds_next [OF assms(3,4)] n by (simp add: rx_advance_def)
  then show ?thesis
    using ps_take n assms(4)
    by (auto simp: poll_inv_def phase_inv_def Let_def ptaken_def take_Suc_conv_app_nth)
next
  case (ps_copy ptr)
  let ?n = "length (plog s)"
  have n: "?n < length sent" "ptr = rx_addr buff d ?n"
    using ps_copy assms(4) by (auto simp: poll_inv_def phase_inv_def Let_def)
  then show ?thesis
    using ps_copy assms(4) slot_holds_next [OF assms(3,4)]
    by (auto simp: poll_inv_def phase_inv_def Let_def ptaken_def take_Suc_conv_app_nth)
next
  case ps_stop
  then show ?thesis
    using assms(4) by (auto simp: poll_inv_def phase_inv_def Let_def ptaken_def split: poll_phase.splits)
next
  case ps_restart
  then show ?thesis using assms(4) by (auto simp: poll_inv_def phase_inv_def Let_def ptaken_def)
qed

section \<open>Threads that refine the poller\<close>

text \<open>
  \<open>view\<close> is what a thread shows of the poller, \<open>con\<close> the steps of the thread and of the calls that
  other threads make on its object, \<open>ok\<close> an invariant of its own.
\<close>

locale rx_consumer =
  fixes view :: "'c \<Rightarrow> poll_state"
    and con :: "memory \<Rightarrow> 'c \<Rightarrow> 'c \<Rightarrow> bool"
    and ok :: "'c \<Rightarrow> bool"
  assumes con_ok: "ok c \<Longrightarrow> rx_wf (prxq (view c)) \<Longrightarrow> con m c c' \<Longrightarrow> ok c'"
    and con_refines: "ok c \<Longrightarrow> rx_wf (prxq (view c)) \<Longrightarrow> con m c c' \<Longrightarrow>
      poll_step m (view c) (view c') \<or> view c' = view c"
begin

definition start_ok :: "u64 \<Rightarrow> nat \<Rightarrow> memory \<Rightarrow> 'c \<Rightarrow> bool" where
  "start_ok buff d m c \<longleftrightarrow> ok c \<and> rx_ring buff d (prxq (view c)) \<and> slots_blank m buff d
     \<and> ph (view c) = Idle \<and> plog (view c) = []"

definition sys_inv :: "u64 \<Rightarrow> nat \<Rightarrow> RxQueue \<Rightarrow> memory \<times> RpcPckt list \<times> 'c \<Rightarrow> bool" where
  "sys_inv buff d q0 x \<longleftrightarrow> (case x of (m, sent, c) \<Rightarrow>
     ok c \<and> mem_inv buff d m sent \<and> poll_inv buff d q0 sent (view c))"

lemma poll_inv_rx_wf: "rx_ring buff d q0 \<Longrightarrow> poll_inv buff d q0 sent s \<Longrightarrow> rx_wf (prxq s)"
  by (metis poll_inv_def rx_ring_wf)

lemma sys_inv_con:
  assumes "rx_ring buff d q0" and "sys_inv buff d q0 (m, sent, c)" and "con m c c'"
  shows "sys_inv buff d q0 (m, sent, c')"
proof -
  have inv: "ok c" "mem_inv buff d m sent" "poll_inv buff d q0 sent (view c)"
    using assms(2) by (simp_all add: sys_inv_def)
  have wf: "rx_wf (prxq (view c))" by (rule poll_inv_rx_wf [OF assms(1) inv(3)])
  then have "ok c'" using con_ok inv(1) assms(3) by blast
  moreover have "poll_inv buff d q0 sent (view c')"
    using con_refines [OF inv(1) wf assms(3)] poll_inv_step [OF _ assms(1) inv(2,3)] inv(3) by auto
  ultimately show ?thesis using inv(2) by (simp add: sys_inv_def)
qed

lemma sys_inv_step:
  assumes "rx_system buff d view con x y" and "rx_ring buff d q0" and "sys_inv buff d q0 x"
  shows "sys_inv buff d q0 y"
  using assms(1)
proof cases
  case (rs_dev sent c p m pad)
  then show ?thesis
    using assms(2,3) rx_ring_bounds(1) [OF assms(2)]
    by (auto simp: sys_inv_def dev_may_send_def intro: mem_inv_append poll_inv_append)
next
  case (rs_con m c c' sent)
  then show ?thesis using assms(2,3) sys_inv_con by blast
qed

lemma sys_inv_reachable:
  assumes "(rx_system buff d view con)\<^sup>*\<^sup>* (m0, [], c0) x" and "start_ok buff d m0 c0"
  shows "sys_inv buff d (prxq (view c0)) x"
  using assms(1)
proof (induction rule: rtranclp_induct)
  case base
  then show ?case
    using assms(2) rx_ring_bounds(1) [of buff d "prxq (view c0)"]
    by (auto simp: sys_inv_def start_ok_def intro: mem_inv_init poll_inv_init)
next
  case (step x y)
  then show ?case using assms(2) sys_inv_step by (auto simp: start_ok_def)
qed

text \<open>Delivery is first-in first-out, without loss or duplication.\<close>

lemma delivered_prefix:
  assumes "(rx_system buff d view con)\<^sup>*\<^sup>* (m0, [], c0) (m, sent, c)" and "start_ok buff d m0 c0"
  shows "plog (view c) = take (length (plog (view c))) sent" and "length (plog (view c)) \<le> length sent"
    and "length sent \<le> length (plog (view c)) + d" and "rx_wf (prxq (view c))" and "ok c"
  using sys_inv_reachable [OF assms] poll_inv_rx_wf assms(2)
  by (auto simp: sys_inv_def poll_inv_def start_ok_def)

end

text \<open>
  \<open>drive\<close> is the thread's own next step. Whenever it does not spin in vain it copies a packet or
  comes closer to doing so, by the measure \<open>rank\<close> with bound \<open>top\<close>.
\<close>

locale rx_driver = rx_consumer +
  fixes drive :: "memory \<Rightarrow> 'a \<Rightarrow> 'a"
    and rank :: "'a \<Rightarrow> nat"
    and top :: nat
  assumes drive_con: "con m c (drive m c)"
    and drive_stop: "pstop (view (drive m c)) = pstop (view c)"
    and rank_top: "ok c \<Longrightarrow> rank c \<le> top"
    and drive_progress: "ok c \<Longrightarrow> rx_wf (prxq (view c)) \<Longrightarrow> \<not> pstop (view c) \<Longrightarrow>
      (\<And>ptr seen. ph (view c) = Spin ptr seen \<Longrightarrow> \<not> no_new_pckt m ptr seen) \<Longrightarrow>
      length (plog (view c)) < length (plog (view (drive m c)))
      \<or> plog (view (drive m c)) = plog (view c) \<and> rank (drive m c) < rank c"
begin

lemma next_delivery:
  assumes "rx_ring buff d q0" and "sys_inv buff d q0 (m, sent, c)" and "\<not> pstop (view c)"
    and "length (plog (view c)) < length sent"
  shows "\<exists>n \<le> Suc (rank c). sys_inv buff d q0 (m, sent, (drive m ^^ n) c)
    \<and> \<not> pstop (view ((drive m ^^ n) c))
    \<and> length (plog (view c)) < length (plog (view ((drive m ^^ n) c)))"
  using assms(2-)
proof (induction "rank c" arbitrary: c rule: less_induct)
  case less
  let ?c = "drive m c"
  have inv: "sys_inv buff d q0 (m, sent, ?c)"
    using sys_inv_con [OF assms(1) less.prems(1) drive_con] .
  have stop: "\<not> pstop (view ?c)" using less.prems(2) drive_stop by simp
  have pi: "ok c" "mem_inv buff d m sent" "poll_inv buff d q0 sent (view c)"
    using less.prems(1) by (simp_all add: sys_inv_def)
  have "\<not> no_new_pckt m ptr seen" if "ph (view c) = Spin ptr seen" for ptr seen
    using that pi new_pckt_iff [OF assms(1) pi(2), of "length (plog (view c))"] less.prems(3)
    by (auto simp: poll_inv_def phase_inv_def Let_def)
  then consider "length (plog (view c)) < length (plog (view ?c))"
    | "plog (view ?c) = plog (view c)" "rank ?c < rank c"
    using drive_progress [OF pi(1) poll_inv_rx_wf [OF assms(1) pi(3)] less.prems(2)] by blast
  then show ?case
  proof cases
    case 1
    then show ?thesis using inv stop by (intro exI [of _ 1]) simp
  next
    case 2
    then obtain n where "n \<le> Suc (rank ?c)" "sys_inv buff d q0 (m, sent, (drive m ^^ n) ?c)"
      "\<not> pstop (view ((drive m ^^ n) ?c))"
      "length (plog (view ?c)) < length (plog (view ((drive m ^^ n) ?c)))"
      using less.hyps [OF 2(2) inv stop] less.prems(3) by auto
    then show ?thesis
      using 2 by (intro exI [of _ "Suc n"]) (simp add: funpow_swap1)
  qed
qed

lemma all_delivered:
  assumes "rx_ring buff d q0" and "sys_inv buff d q0 (m, sent, c)" and "\<not> pstop (view c)"
  shows "\<exists>n \<le> Suc top * (length sent - length (plog (view c))). plog (view ((drive m ^^ n) c)) = sent"
  using assms(2-)
proof (induction "length sent - length (plog (view c))" arbitrary: c rule: less_induct)
  case less
  have pi: "ok c" "poll_inv buff d q0 sent (view c)" using less.prems(1) by (simp_all add: sys_inv_def)
  show ?case
  proof (cases "length (plog (view c)) < length sent")
    case False
    then have "plog (view c) = sent"
      using pi(2) by (metis poll_inv_def take_all not_less)
    then show ?thesis by (intro exI [of _ 0]) simp
  next
    case True
    obtain n where n: "n \<le> Suc (rank c)" "sys_inv buff d q0 (m, sent, (drive m ^^ n) c)"
      "\<not> pstop (view ((drive m ^^ n) c))"
      "length (plog (view c)) < length (plog (view ((drive m ^^ n) c)))"
      using next_delivery [OF assms(1) less.prems True] by blast
    let ?c = "(drive m ^^ n) c"
    have "length sent - length (plog (view ?c)) < length sent - length (plog (view c))"
      using n(4) True by simp
    then obtain k where k: "k \<le> Suc top * (length sent - length (plog (view ?c)))"
      "plog (view ((drive m ^^ k) ?c)) = sent"
      using less.hyps n by blast
    have "(drive m ^^ (k + n)) c = (drive m ^^ k) ?c" by (simp add: funpow_add)
    moreover have "k + n \<le> Suc top * (length sent - length (plog (view c)))"
    proof -
      have "n \<le> Suc top" using n(1) rank_top [OF pi(1)] by simp
      moreover have "Suc (length sent - length (plog (view ?c))) \<le> length sent - length (plog (view c))"
        using n(4) True by simp
      then have "Suc top * Suc (length sent - length (plog (view ?c))) \<le> Suc top * (length sent - length (plog (view c)))"
        by (rule mult_le_mono2)
      ultimately show ?thesis using k(1) by simp
    qed
    ultimately show ?thesis using k(2) by metis
  qed
qed

end

end
