(* ===== verification/Completion.thy ===== *)
theory Completion
  imports Rx_Poll
begin

text \<open>
  The completion queue of a non-blocking client (\<^verbatim>\<open>completion_queue.h\<close>, \<^verbatim>\<open>completion_queue.cc\<close>):
  its polling thread as a program-counter machine and the calls the application makes on it. The
  thread refines the poller of \<open>Rx_Poll\<close>, which gives in-order exactly-once reception and
  progress; the lemmas on \<^verbatim>\<open>pop_response\<close> say what the application sees of it.
\<close>

section \<open>State\<close>

text \<open>The points of \<^verbatim>\<open>_PullListen\<close> at which it touches shared data.\<close>

datatype cq_pc = CqLoop | CqSpin u64 u32 | CqTake u64 | CqPush u64 | CqDone | CqFault

text \<open>\<open>cq_thread\<close> is \<open>None\<close> while the \<^verbatim>\<open>std::thread\<close> member is not joinable.\<close>

record CompletionQueue =
  cq_rpc_client_id :: u64
  cq_rx_queue :: RxQueue
  cq_thread :: "cq_pc option"
  cq_stop_signal :: bool
  cq :: "RpcPckt list"
  cq_timestamps :: "u32 list"

definition CompletionQueue_default :: CompletionQueue where
  "CompletionQueue_default = \<lparr>cq_rpc_client_id = 0, cq_rx_queue = RxQueue_default, cq_thread = None,
     cq_stop_signal = False, cq = [], cq_timestamps = []\<rparr>"

definition mk_CompletionQueue ::
  "nat \<Rightarrow> (nat \<Rightarrow> nat \<Rightarrow> bool) \<Rightarrow> u64 \<Rightarrow> u64 \<Rightarrow> u64 \<Rightarrow> ('r, CompletionQueue) outcome" where
  "mk_CompletionQueue page_size aligned_alloc rpc_client_id rx_buff mtu_size_bytes =
     (case mk_RxQueue rx_buff mtu_size_bytes l_rx_queue_size of
        None \<Rightarrow> Undef
      | Some q0 \<Rightarrow> (case RxQueue_init page_size aligned_alloc q0 of
            (Done _, q) \<Rightarrow> Done \<lparr>cq_rpc_client_id = rpc_client_id, cq_rx_queue = q, cq_thread = None,
              cq_stop_signal = False, cq = [], cq_timestamps = []\<rparr>
          | (Exit r, _) \<Rightarrow> Exit r
          | (Abort, _) \<Rightarrow> Abort
          | (Undef, _) \<Rightarrow> Undef))"

text \<open>The destructor of a joinable thread terminates the program.\<close>

definition CompletionQueue_dtor :: "CompletionQueue \<Rightarrow> (unit, unit) outcome" where
  "CompletionQueue_dtor q = (case cq_thread q of
     Some _ \<Rightarrow> Abort
   | None \<Rightarrow> RxQueue_dtor (cq_rx_queue q))"

section \<open>Calls of the application\<close>

text \<open>Assigning to a joinable thread and joining one that is not joinable terminate the program.\<close>

definition bind_cq :: "CompletionQueue \<Rightarrow> ('r, unit) outcome \<times> CompletionQueue" where
  "bind_cq q = (let q' = q\<lparr>cq_stop_signal := False\<rparr> in
     case cq_thread q' of
       None \<Rightarrow> (Done (), q'\<lparr>cq_thread := Some CqLoop\<rparr>)
     | Some _ \<Rightarrow> (Abort, q'))"

text \<open>
  \<^verbatim>\<open>unbind\<close> raises the stop signal and then waits for the thread: the second part returns
  \<open>None\<close> as long as it has to wait.
\<close>

definition unbind_signal :: "CompletionQueue \<Rightarrow> CompletionQueue" where
  "unbind_signal q = q\<lparr>cq_stop_signal := True\<rparr>"

definition unbind_join :: "CompletionQueue \<Rightarrow> (('r, unit) outcome \<times> CompletionQueue) option" where
  "unbind_join q = (case cq_thread q of
     None \<Rightarrow> Some (Abort, q)
   | Some pc \<Rightarrow> if pc = CqDone then Some (Done (), q\<lparr>cq_thread := None\<rparr>) else None)"

definition get_number_of_completed_requests :: "CompletionQueue \<Rightarrow> u64" where
  "get_number_of_completed_requests q = of_nat (length (cq q))"

text \<open>
  \<^verbatim>\<open>pop_response\<close> reads the last element before it takes the lock and removes the last element
  under the lock: two separate accesses.
\<close>

definition pop_response_back :: "CompletionQueue \<Rightarrow> ('r, RpcPckt) outcome" where
  "pop_response_back q = (if cq q = [] then Undef else Done (last (cq q)))"

definition pop_response_pop_back :: "CompletionQueue \<Rightarrow> ('r, unit) outcome \<times> CompletionQueue" where
  "pop_response_pop_back q =
     (if cq q = [] then (Undef, q) else (Done (), q\<lparr>cq := butlast (cq q)\<rparr>))"

definition pop_response :: "CompletionQueue \<Rightarrow> ('r, RpcPckt) outcome \<times> CompletionQueue" where
  "pop_response q = (case pop_response_back q of
     Done res \<Rightarrow> (case pop_response_pop_back q of
         (Done _, q') \<Rightarrow> (Done res, q')
       | (Exit r, q') \<Rightarrow> (Exit r, q')
       | (Abort, q') \<Rightarrow> (Abort, q')
       | (Undef, q') \<Rightarrow> (Undef, q'))
   | Exit r \<Rightarrow> (Exit r, q)
   | Abort \<Rightarrow> (Abort, q)
   | Undef \<Rightarrow> (Undef, q))"

definition clear_queue :: "CompletionQueue \<Rightarrow> CompletionQueue" where
  "clear_queue q = q\<lparr>cq := []\<rparr>"

definition get_latency_records :: "CompletionQueue \<Rightarrow> u32 list" where
  "get_latency_records q = cq_timestamps q"

definition clear_latency_records :: "CompletionQueue \<Rightarrow> CompletionQueue" where
  "clear_latency_records q = q\<lparr>cq_timestamps := []\<rparr>"

section \<open>The polling thread\<close>

text \<open>
  One step of \<^verbatim>\<open>_PullListen\<close> while the memory is \<open>m\<close>. \<open>tsc\<close> is the low half of the time-stamp
  counter in a build with \<^verbatim>\<open>PROFILE_LATENCY\<close> and \<open>None\<close> in a build without it.
\<close>

definition cq_step :: "u32 option \<Rightarrow> memory \<Rightarrow> cq_pc \<Rightarrow> CompletionQueue \<Rightarrow> CompletionQueue" where
  "cq_step tsc m pc q = (case pc of
     CqLoop \<Rightarrow>
       if cq_stop_signal q then q\<lparr>cq_thread := Some CqDone\<rparr>
       else (case get_read_ptr (cq_rx_queue q) :: (unit, _) outcome of
           Done (resp_pckt, rx_rpc_id) \<Rightarrow> q\<lparr>cq_thread := Some (CqSpin resp_pckt rx_rpc_id)\<rparr>
         | _ \<Rightarrow> q\<lparr>cq_thread := Some CqFault\<rparr>)
   | CqSpin resp_pckt rx_rpc_id \<Rightarrow>
       let h = hdr (read_pckt m resp_pckt) in
       if (\<not> valid (ctl h) \<or> rpc_id h = rx_rpc_id) \<and> \<not> cq_stop_signal q then q
       else q\<lparr>cq_thread := Some (CqTake resp_pckt)\<rparr>
   | CqTake resp_pckt \<Rightarrow>
       if cq_stop_signal q then q\<lparr>cq_thread := Some CqLoop\<rparr>
       else (case update_rpc_id (rpc_id (hdr (read_pckt m resp_pckt))) (cq_rx_queue q)
               :: (unit, _) outcome \<times> _ of
           (Done _, rxq) \<Rightarrow> q\<lparr>cq_rx_queue := rxq, cq_thread := Some (CqPush resp_pckt)\<rparr>
         | _ \<Rightarrow> q\<lparr>cq_thread := Some CqFault\<rparr>)
   | CqPush resp_pckt \<Rightarrow>
       let p = read_pckt m resp_pckt;
           q1 = (case tsc of
                   None \<Rightarrow> q
                 | Some t \<Rightarrow> q\<lparr>cq_timestamps := cq_timestamps q @ [t - le_dec (take 4 (argv p))]\<rparr>)
       in q1\<lparr>cq := cq q1 @ [p], cq_thread := Some CqLoop\<rparr>
   | CqDone \<Rightarrow> q
   | CqFault \<Rightarrow> q)"

section \<open>Refinement of the poller\<close>

text \<open>A completion queue with the history of the packets its thread has appended.\<close>

type_synonym cq_hist = "CompletionQueue \<times> RpcPckt list"

definition cq_drive :: "u32 option \<Rightarrow> memory \<Rightarrow> cq_hist \<Rightarrow> cq_hist" where
  "cq_drive tsc m c = (case c of (q, log) \<Rightarrow>
     (case cq_thread q of
        None \<Rightarrow> (q, log)
      | Some pc \<Rightarrow> (cq_step tsc m pc q,
          case pc of CqPush ptr \<Rightarrow> log @ [read_pckt m ptr] | _ \<Rightarrow> log)))"

text \<open>The thread's steps, interleaved with the calls of the application.\<close>

inductive cq_con :: "memory \<Rightarrow> cq_hist \<Rightarrow> cq_hist \<Rightarrow> bool" for m where
  cc_thread: "cq_con m c (cq_drive tsc m c)"
| cc_bind: "bind_cq q = (Done () :: (unit, unit) outcome, q') \<Longrightarrow> cq_con m (q, log) (q', log)"
| cc_signal: "cq_con m (q, log) (unbind_signal q, log)"
| cc_join: "unbind_join q = Some (Done () :: (unit, unit) outcome, q') \<Longrightarrow> cq_con m (q, log) (q', log)"
| cc_pop: "pop_response_pop_back q = (Done () :: (unit, unit) outcome, q') \<Longrightarrow> cq_con m (q, log) (q', log)"
| cc_clear: "cq_con m (q, log) (clear_queue q, log)"
| cc_clear_lat: "cq_con m (q, log) (clear_latency_records q, log)"

definition cq_phase :: "cq_pc option \<Rightarrow> poll_phase" where
  "cq_phase t = (case t of
     Some (CqSpin ptr seen) \<Rightarrow> Spin ptr seen
   | Some (CqTake ptr) \<Rightarrow> Take ptr
   | Some (CqPush ptr) \<Rightarrow> Copy ptr
   | _ \<Rightarrow> Idle)"

definition cq_view :: "cq_hist \<Rightarrow> poll_state" where
  "cq_view c = \<lparr>ph = cq_phase (cq_thread (fst c)), pstop = cq_stop_signal (fst c),
     prxq = cq_rx_queue (fst c), plog = snd c\<rparr>"

text \<open>The thread has not failed, and unless it was told to stop it is running.\<close>

definition cq_ok :: "cq_hist \<Rightarrow> bool" where
  "cq_ok c = (case cq_thread (fst c) of
     None \<Rightarrow> cq_stop_signal (fst c)
   | Some pc \<Rightarrow> pc \<noteq> CqFault \<and> (pc = CqDone \<longrightarrow> cq_stop_signal (fst c)))"

definition cq_rank :: "cq_hist \<Rightarrow> nat" where
  "cq_rank c = (case cq_thread (fst c) of
     Some CqLoop \<Rightarrow> 3
   | Some (CqSpin _ _) \<Rightarrow> 2
   | Some (CqTake _) \<Rightarrow> 1
   | _ \<Rightarrow> 0)"

lemmas cq_view_defs = cq_view_def cq_phase_def

text \<open>The thread's step on a well-formed receive queue.\<close>

lemma cq_step_loop:
  "rx_wf (cq_rx_queue q) \<Longrightarrow> cq_step tsc m CqLoop q =
    (if cq_stop_signal q then q\<lparr>cq_thread := Some CqDone\<rparr>
     else q\<lparr>cq_thread := Some (CqSpin
       (rx_q (cq_rx_queue q) + rx_q_tail (cq_rx_queue q) * rx_bucket_size (cq_rx_queue q))
       (rx_slot (cq_rx_queue q) (unat (rx_q_tail (cq_rx_queue q)))))\<rparr>)"
  by (simp add: cq_step_def get_read_ptr_wf)

lemma cq_step_spin:
  "cq_step tsc m (CqSpin ptr seen) q =
    (if no_new_pckt m ptr seen \<and> \<not> cq_stop_signal q then q else q\<lparr>cq_thread := Some (CqTake ptr)\<rparr>)"
  by (simp add: cq_step_def no_new_pckt_def Let_def)

lemma cq_step_take:
  "rx_wf (cq_rx_queue q) \<Longrightarrow> cq_step tsc m (CqTake ptr) q =
    (if cq_stop_signal q then q\<lparr>cq_thread := Some CqLoop\<rparr>
     else q\<lparr>cq_rx_queue := rx_advance (rpc_id (hdr (read_pckt m ptr))) (cq_rx_queue q),
            cq_thread := Some (CqPush ptr)\<rparr>)"
  by (simp add: cq_step_def update_rpc_id_wf rx_advance_def)

lemma cq_step_push:
  "\<exists>ts. cq_step tsc m (CqPush ptr) q =
    q\<lparr>cq_timestamps := ts, cq := cq q @ [read_pckt m ptr], cq_thread := Some CqLoop\<rparr>"
  by (cases tsc) (auto simp: cq_step_def Let_def intro: exI [of _ "cq_timestamps q"])

lemma cq_step_end: "cq_step tsc m CqDone q = q" "cq_step tsc m CqFault q = q"
  by (simp_all add: cq_step_def)

lemma cq_drive_None: "cq_thread q = None \<Longrightarrow> cq_drive tsc m (q, log) = (q, log)"
  by (simp add: cq_drive_def)

lemma cq_drive_Some: "cq_thread q = Some pc \<Longrightarrow> cq_drive tsc m (q, log) =
   (cq_step tsc m pc q, case pc of CqPush ptr \<Rightarrow> log @ [read_pckt m ptr] | _ \<Rightarrow> log)"
  by (simp add: cq_drive_def)

lemmas cq_step_simps = cq_step_loop cq_step_spin cq_step_take cq_step_end cq_drive_None cq_drive_Some

lemma cq_drive_ok:
  assumes "cq_ok (q, log)" and "rx_wf (cq_rx_queue q)"
  shows "cq_ok (cq_drive tsc m (q, log))"
proof (cases "cq_thread q")
  case None
  then show ?thesis using assms by (simp add: cq_step_simps)
next
  case (Some pc)
  show ?thesis
  proof (cases pc)
    case (CqPush ptr)
    then show ?thesis using Some cq_step_push [of tsc m ptr q] by (auto simp: cq_step_simps cq_ok_def)
  qed (use assms Some in \<open>simp_all add: cq_step_simps cq_ok_def\<close>)
qed

lemma cq_drive_refines:
  assumes "rx_wf (cq_rx_queue q)"
  shows "poll_step m (cq_view (q, log)) (cq_view (cq_drive tsc m (q, log)))
    \<or> cq_view (cq_drive tsc m (q, log)) = cq_view (q, log)"
proof (cases "cq_thread q")
  case None
  then show ?thesis by (simp add: cq_step_simps)
next
  case (Some pc)
  let ?s = "cq_view (q, log)"
  show ?thesis
  proof (cases pc)
    case CqLoop
    then show ?thesis using Some assms poll_step.ps_start [of ?s _ _ m]
      by (cases "cq_stop_signal q") (simp_all add: cq_step_simps cq_view_defs get_read_ptr_wf)
  next
    case (CqSpin ptr seen)
    then show ?thesis using Some poll_step.ps_exit [of ?s ptr seen m]
      by (cases "cq_stop_signal q") (auto simp: cq_step_simps cq_view_defs)
  next
    case (CqTake ptr)
    then show ?thesis
      using Some assms poll_step.ps_take [of ?s ptr m] poll_step.ps_abandon [of ?s ptr m]
      by (simp add: cq_step_simps cq_view_defs update_rpc_id_wf rx_advance_def)
  next
    case (CqPush ptr)
    then show ?thesis using Some poll_step.ps_copy [of ?s ptr m] cq_step_push [of tsc m ptr q]
      by (auto simp: cq_step_simps cq_view_defs)
  qed (use Some in \<open>simp_all add: cq_step_simps cq_view_defs\<close>)
qed

lemma cq_con_ok:
  assumes "cq_con m c c'" and "cq_ok c" and "rx_wf (cq_rx_queue (fst c))"
  shows "cq_ok c'"
  using assms(1)
proof cases
  case (cc_thread tsc)
  then show ?thesis using assms(2,3) by (cases c) (simp add: cq_drive_ok)
qed (use assms in \<open>auto simp: cq_ok_def bind_cq_def unbind_signal_def unbind_join_def
      pop_response_pop_back_def clear_queue_def clear_latency_records_def Let_def
      split: option.splits if_splits\<close>)

lemma cq_con_refines:
  assumes "cq_con m c c'" and "rx_wf (cq_rx_queue (fst c))"
  shows "poll_step m (cq_view c) (cq_view c') \<or> cq_view c' = cq_view c"
  using assms(1)
proof cases
  case (cc_thread tsc)
  then show ?thesis using cq_drive_refines assms(2) by (cases c) simp
next
  case (cc_bind q q' log)
  then show ?thesis using poll_step.ps_restart [of "cq_view c" m]
    by (auto simp: cq_view_defs bind_cq_def Let_def split: option.splits)
next
  case (cc_signal q log)
  then show ?thesis using poll_step.ps_stop [of m "cq_view c"]
    by (auto simp: cq_view_defs unbind_signal_def)
next
  case (cc_join q q' log)
  then show ?thesis by (auto simp: cq_view_defs unbind_join_def split: option.splits if_splits)
qed (auto simp: cq_view_defs pop_response_pop_back_def clear_queue_def clear_latency_records_def split: if_splits)

lemma prxq_cq_view [simp]: "prxq (cq_view c) = cq_rx_queue (fst c)"
  by (simp add: cq_view_def)

lemma plog_cq_view [simp]: "plog (cq_view c) = snd c"
  by (simp add: cq_view_def)

lemma pstop_cq_view [simp]: "pstop (cq_view c) = cq_stop_signal (fst c)"
  by (simp add: cq_view_def)

interpretation cqc: rx_consumer cq_view cq_con cq_ok
proof (unfold_locales, goal_cases)
  case (1 c m c')
  then show ?case using cq_con_ok by simp
next
  case (2 c m c')
  then show ?case using cq_con_refines by simp
qed

lemma cq_step_stop [simp]: "cq_stop_signal (cq_step tsc m pc q) = cq_stop_signal q"
  by (cases pc) (simp_all add: cq_step_def Let_def split: option.split outcome.split prod.split)

lemma cq_drive_progress:
  assumes "cq_ok c" and "rx_wf (prxq (cq_view c))" and "\<not> pstop (cq_view c)"
    and "\<And>ptr seen. ph (cq_view c) = Spin ptr seen \<Longrightarrow> \<not> no_new_pckt m ptr seen"
  shows "length (plog (cq_view c)) < length (plog (cq_view (cq_drive tsc m c)))
    \<or> plog (cq_view (cq_drive tsc m c)) = plog (cq_view c) \<and> cq_rank (cq_drive tsc m c) < cq_rank c"
proof -
  obtain q log where c: "c = (q, log)" by (cases c)
  obtain pc where pc: "cq_thread q = Some pc" "pc \<noteq> CqFault" "pc \<noteq> CqDone"
    using assms(1,3) c by (auto simp: cq_ok_def cq_view_def split: option.splits)
  show ?thesis
  proof (cases pc)
    case (CqPush ptr)
    then show ?thesis using pc(1) cq_step_push [of tsc m ptr q]
      by (auto simp: c cq_step_simps cq_view_defs)
  qed (use assms(2-4) pc in \<open>simp_all add: c cq_step_simps cq_view_defs cq_rank_def\<close>)
qed

interpretation cqd: rx_driver cq_view cq_con cq_ok "cq_drive tsc" cq_rank 3 for tsc
proof (unfold_locales, goal_cases)
  case (1 m c)
  show ?case by (rule cc_thread)
next
  case (2 m c)
  show ?case by (cases "cq_thread (fst c)") (simp_all add: cq_drive_def case_prod_beta)
next
  case (3 c)
  show ?case by (auto simp: cq_rank_def split: option.splits cq_pc.splits)
next
  case (4 c m)
  then show ?case by (rule cq_drive_progress)
qed

section \<open>Properties\<close>

text \<open>A completion queue on a buffer of cache lines, as constructed and then bound to its thread.\<close>

definition cq_bound :: "u64 \<Rightarrow> CompletionQueue \<Rightarrow> bool" where
  "cq_bound buff q \<longleftrightarrow> buff \<noteq> 0 \<and> (\<exists>q0 aligned_alloc client.
     mk_CompletionQueue 4096 aligned_alloc client buff 64 = (Done q0 :: (unit, _) outcome) \<and>
     bind_cq q0 = (Done () :: (unit, unit) outcome, q))"

lemma mk_CompletionQueue_Done:
  assumes "mk_CompletionQueue page_size aligned_alloc client buff mtu = (Done q0 :: (unit, _) outcome)"
  obtains r0 r where "mk_RxQueue buff mtu l_rx_queue_size = Some r0"
    and "RxQueue_init page_size aligned_alloc r0 = (Done () :: (unit, unit) outcome, r)"
    and "q0 = \<lparr>cq_rpc_client_id = client, cq_rx_queue = r, cq_thread = None, cq_stop_signal = False,
      cq = [], cq_timestamps = []\<rparr>"
  using assms by (auto simp: mk_CompletionQueue_def split: option.splits prod.splits outcome.splits)

lemma cq_bound_start:
  assumes "cq_bound buff q" and "slots_blank m buff 8"
  shows "cqc.start_ok buff 8 m (q, [])" and "rx_ring buff 8 (cq_rx_queue q)" and "\<not> cq_stop_signal q"
    and "cq q = []"
proof -
  have "fresh_rx buff 64 3 (cq_rx_queue q) \<and> cq_thread q = Some CqLoop \<and> \<not> cq_stop_signal q \<and> cq q = []"
  proof -
    obtain q0 aligned_alloc client where "buff \<noteq> 0"
      and mk: "mk_CompletionQueue 4096 aligned_alloc client buff 64 = (Done q0 :: (unit, _) outcome)"
      and b: "bind_cq q0 = (Done () :: (unit, unit) outcome, q)"
      using assms(1) unfolding cq_bound_def by blast
    obtain r0 r where r: "mk_RxQueue buff 64 l_rx_queue_size = Some r0"
        "RxQueue_init 4096 aligned_alloc r0 = (Done () :: (unit, unit) outcome, r)"
      and q0: "q0 = \<lparr>cq_rpc_client_id = client, cq_rx_queue = r, cq_thread = None, cq_stop_signal = False,
        cq = [], cq_timestamps = []\<rparr>"
      using mk_CompletionQueue_Done [OF mk] by blast
    have "fresh_rx buff 64 3 r"
      using r \<open>buff \<noteq> 0\<close> unfolding fresh_rx_def l_rx_queue_size_def by auto
    moreover have "q = q0\<lparr>cq_thread := Some CqLoop\<rparr>"
      using b by (simp add: q0 bind_cq_def)
    ultimately show ?thesis by (simp add: q0)
  qed
  moreover from this have "rx_ring buff 8 (cq_rx_queue q)"
    by (auto simp: rx_ring_def intro!: exI [of _ 3])
  ultimately show "cqc.start_ok buff 8 m (q, [])" and "rx_ring buff 8 (cq_rx_queue q)"
    and "\<not> cq_stop_signal q" and "cq q = []"
    using assms(2) by (auto simp: cqc.start_ok_def cq_ok_def cq_view_defs)
qed




text \<open>
  C7. The read of \<^verbatim>\<open>pop_response\<close> is outside its critical section. If the completion thread
  appends a packet between the read and the removal, the call returns the older packet and removes
  the newer one: the newer packet is lost and the older one is still queued, to be returned again.
\<close>

theorem pop_response_race:
  assumes "cq q \<noteq> []" and "cq_thread q = Some (CqPush ptr)"
  shows "pop_response_back q = Done (last (cq q)) \<and>
    (\<exists>q'. pop_response_pop_back (fst (cq_drive tsc m (q, log))) = (Done (), q')
       \<and> cq q' = cq q \<and> snd (cq_drive tsc m (q, log)) = log @ [read_pckt m ptr])"
  using assms cq_step_push [of tsc m ptr q]
  by (auto simp: pop_response_back_def pop_response_pop_back_def cq_drive_Some)

section \<open>Examples\<close>

definition cq8 :: CompletionQueue where
  "cq8 = \<lparr>cq_rpc_client_id = 0, cq_rx_queue = rx8, cq_thread = Some CqLoop, cq_stop_signal = False,
     cq = [], cq_timestamps = []\<rparr>"

definition mem5 :: memory where
  "mem5 = write_pckt (\<lambda>_. 0) (rx_addr 0x2000 8 0) 0 (nop_pckt 5)"

lemma cq_bound_cq8: "cq_bound 0x2000 cq8"
  unfolding cq_bound_def
  by (intro conjI exI [of _ "cq8\<lparr>cq_thread := None\<rparr>"] exI [of _ "\<lambda>_ _. True"] exI [of _ 0])
    (simp_all add: mk_CompletionQueue_def mk_RxQueue_def RxQueue_init_def cfg_defs int_one_shl_small
      cq8_def rx8_def bind_cq_def)

lemma blank_zero: "slots_blank (\<lambda>_. 0) buff d"
  by (simp add: slots_blank_def read_pckt_def pckt_of_bytes_def hdr_of_bytes_def ctl_of_byte_def
      read_bytes_def cfg_defs rpc_header_size_bytes_def)

lemma cq8_reaches:
  "(rx_system 0x2000 8 cq_view cq_con)\<^sup>*\<^sup>* (\<lambda>_. 0, [], cq8, [])
     (mem5, [nop_pckt 5], (cq_drive tsc mem5 ^^ n) (cq8, []))"
proof (induction n)
  case 0
  have "dev_may_send 8 [] 0 (nop_pckt 5)"
    by (simp add: dev_may_send_def seen_id_def) (simp add: nop_pckt_def)
  then show ?case
    using rs_dev [where d = 8 and sent = "[]" and view = cq_view and c = "(cq8, [])" and p = "nop_pckt 5"
        and buff = "0x2000" and con = cq_con and m = "\<lambda>_. 0" and pad = 0]
    by (auto simp: mem5_def)
next
  case (Suc n)
  then show ?case
    by (auto intro: rtranclp.rtrancl_into_rtrancl rs_con cc_thread)
qed



definition race_cq :: CompletionQueue where
  "race_cq = cq8\<lparr>cq := [nop_pckt 1], cq_thread := Some (CqPush 0x2000)\<rparr>"

theorem pop_response_race_witness:
  "pop_response_back race_cq = (Done (last (cq race_cq)) :: (unit, _) outcome) \<and>
    (\<exists>q'. pop_response_pop_back (fst (cq_drive None mem5 (race_cq, [])))
          = (Done () :: (unit, unit) outcome, q')
       \<and> cq q' = cq race_cq \<and> snd (cq_drive None mem5 (race_cq, [])) = [] @ [read_pckt mem5 0x2000])"
  by (rule pop_response_race) (simp_all add: race_cq_def)

end
