(* ===== verification/Rpc_Server.thy ===== *)
theory Rpc_Server
  imports Completion
begin

text \<open>
  The dispatch thread of an RPC server (\<^verbatim>\<open>rpc_server_thread.h\<close>, \<^verbatim>\<open>rpc_server_thread.cc\<close>): it collects a
  batch of requests and then calls the server's callback on each. It is a program-counter machine that
  refines the poller of \<open>Rx_Poll\<close>. The callback is generated code and a parameter; what it stores is
  in the buffer of the transmit queue, which is no part of the receive ring.
\<close>

section \<open>State\<close>

text \<open>The points of \<^verbatim>\<open>_PullListen\<close> between its accesses to shared data; \<open>i\<close> is the loop variable.\<close>

datatype sv_pc =
  SvLoop
| SvFor nat
| SvSpin nat u64 u32
| SvTake nat u64
| SvCopy nat u64
| SvCheck
| SvCall nat
| SvDone
| SvFault

type_synonym server_callback = "CallHandler \<Rightarrow> RpcPckt \<Rightarrow> TxQueue \<Rightarrow> TxQueue"

text \<open>
  \<open>sv_req_pckt_1\<close> is the array of the current batch, with \<open>None\<close> for an element that has no value yet;
  \<open>sv_thread\<close> is \<open>None\<close> while the \<^verbatim>\<open>std::thread\<close> member is not joinable.
\<close>

record RpcServerThread =
  sv_thread_id :: u16
  sv_nic_flow_id :: u64
  sv_tx_queue :: TxQueue
  sv_rx_queue :: RxQueue
  sv_thread :: "sv_pc option"
  sv_stop_signal :: bool
  sv_req_pckt_1 :: "RpcPckt option list"

text \<open>What the constructors of threads and clients read of the nic.\<close>

record nic_flows =
  nf_tx_flow_buffer :: "u64 \<Rightarrow> u64"
  nf_rx_flow_buffer :: "u64 \<Rightarrow> u64"
  nf_mtu_size_bytes :: u64

definition mk_flow_queues ::
  "nat \<Rightarrow> (nat \<Rightarrow> nat \<Rightarrow> bool) \<Rightarrow> nic_flows \<Rightarrow> u64 \<Rightarrow> ('r, TxQueue \<times> RxQueue) outcome" where
  "mk_flow_queues page_size aligned_alloc nf flow =
     (case (mk_TxQueue (nf_tx_flow_buffer nf flow) (nf_mtu_size_bytes nf) l_tx_queue_size,
            mk_RxQueue (nf_rx_flow_buffer nf flow) (nf_mtu_size_bytes nf) l_rx_queue_size) of
        (Some t0, Some r0) \<Rightarrow>
          (case TxQueue_init page_size aligned_alloc t0 of
             (Done _, t) \<Rightarrow>
               (case RxQueue_init page_size aligned_alloc r0 of
                  (Done _, r) \<Rightarrow> Done (t, r)
                | (Exit e, _) \<Rightarrow> Exit e
                | (Abort, _) \<Rightarrow> Abort
                | (Undef, _) \<Rightarrow> Undef)
           | (Exit e, _) \<Rightarrow> Exit e
           | (Abort, _) \<Rightarrow> Abort
           | (Undef, _) \<Rightarrow> Undef)
      | _ \<Rightarrow> Undef)"

definition mk_RpcServerThread ::
  "nat \<Rightarrow> (nat \<Rightarrow> nat \<Rightarrow> bool) \<Rightarrow> nic_flows \<Rightarrow> u64 \<Rightarrow> u16 \<Rightarrow> ('r, RpcServerThread) outcome" where
  "mk_RpcServerThread page_size aligned_alloc nf nic_flow_id thread_id =
     (case mk_flow_queues page_size aligned_alloc nf nic_flow_id of
        Done (t, r) \<Rightarrow> Done \<lparr>sv_thread_id = thread_id, sv_nic_flow_id = nic_flow_id, sv_tx_queue = t,
          sv_rx_queue = r, sv_thread = None, sv_stop_signal = False, sv_req_pckt_1 = []\<rparr>
      | Exit e \<Rightarrow> Exit e
      | Abort \<Rightarrow> Abort
      | Undef \<Rightarrow> Undef)"

text \<open>
  \<open>pin\<close> says whether the system pins the thread to a CPU. The thread runs in either case. Assigning to
  a joinable thread terminates the program.
\<close>

definition start_listening :: "(int \<Rightarrow> bool) \<Rightarrow> int \<Rightarrow> RpcServerThread \<Rightarrow> ('r, int) outcome \<times> RpcServerThread" where
  "start_listening pin pin_cpu t =
     (let t1 = t\<lparr>sv_stop_signal := False\<rparr> in
      case sv_thread t1 of
        Some _ \<Rightarrow> (Abort, t1)
      | None \<Rightarrow>
          let t2 = t1\<lparr>sv_thread := Some SvLoop\<rparr> in
          if pin_cpu \<noteq> -1 \<and> \<not> pin pin_cpu then (Done 1, t2) else (Done 0, t2))"

text \<open>\<^verbatim>\<open>stop_listening\<close> raises the signal and joins; the second part is \<open>None\<close> while it waits.\<close>

definition stop_listening_signal :: "RpcServerThread \<Rightarrow> RpcServerThread" where
  "stop_listening_signal t = t\<lparr>sv_stop_signal := True\<rparr>"

definition stop_listening_join :: "RpcServerThread \<Rightarrow> (('r, unit) outcome \<times> RpcServerThread) option" where
  "stop_listening_join t = (case sv_thread t of
     None \<Rightarrow> Some (Abort, t)
   | Some pc \<Rightarrow> if pc = SvDone then Some (Done (), t\<lparr>sv_thread := None\<rparr>) else None)"

text \<open>The destructor of a joinable thread terminates the program.\<close>

definition RpcServerThread_dtor :: "RpcServerThread \<Rightarrow> (unit, unit) outcome" where
  "RpcServerThread_dtor t = (case sv_thread t of
     Some _ \<Rightarrow> Abort
   | None \<Rightarrow> (case RxQueue_dtor (sv_rx_queue t) of Done _ \<Rightarrow> TxQueue_dtor (sv_tx_queue t) | y \<Rightarrow> y))"

section \<open>The dispatch thread\<close>

text \<open>One step of \<^verbatim>\<open>_PullListen\<close> while the memory is \<open>m\<close>, with batches of \<open>batch_size\<close> requests.\<close>

definition sv_step :: "nat \<Rightarrow> server_callback \<Rightarrow> memory \<Rightarrow> sv_pc \<Rightarrow> RpcServerThread \<Rightarrow> RpcServerThread" where
  "sv_step batch_size callback m pc t = (case pc of
     SvLoop \<Rightarrow>
       if sv_stop_signal t then t\<lparr>sv_thread := Some SvDone\<rparr>
       else t\<lparr>sv_req_pckt_1 := replicate batch_size None, sv_thread := Some (SvFor 0)\<rparr>
   | SvFor i \<Rightarrow>
       if i < batch_size \<and> \<not> sv_stop_signal t then
         (case get_read_ptr (sv_rx_queue t) :: (unit, _) outcome of
            Done (req_pckt, rx_rpc_id) \<Rightarrow> t\<lparr>sv_thread := Some (SvSpin i req_pckt rx_rpc_id)\<rparr>
          | _ \<Rightarrow> t\<lparr>sv_thread := Some SvFault\<rparr>)
       else t\<lparr>sv_thread := Some SvCheck\<rparr>
   | SvSpin i req_pckt rx_rpc_id \<Rightarrow>
       let h = hdr (read_pckt m req_pckt) in
       if (\<not> valid (ctl h) \<or> rpc_id h = rx_rpc_id) \<and> \<not> sv_stop_signal t then t
       else t\<lparr>sv_thread := Some (SvTake i req_pckt)\<rparr>
   | SvTake i req_pckt \<Rightarrow>
       if sv_stop_signal t then t\<lparr>sv_thread := Some (SvFor (Suc i))\<rparr>
       else (case update_rpc_id (rpc_id (hdr (read_pckt m req_pckt))) (sv_rx_queue t)
               :: (unit, _) outcome \<times> _ of
           (Done _, rxq) \<Rightarrow> t\<lparr>sv_rx_queue := rxq, sv_thread := Some (SvCopy i req_pckt)\<rparr>
         | _ \<Rightarrow> t\<lparr>sv_thread := Some SvFault\<rparr>)
   | SvCopy i req_pckt \<Rightarrow>
       t\<lparr>sv_req_pckt_1 := (sv_req_pckt_1 t)[i := Some (read_pckt m req_pckt)], sv_thread := Some (SvFor (Suc i))\<rparr>
   | SvCheck \<Rightarrow>
       if sv_stop_signal t then t\<lparr>sv_thread := Some SvLoop\<rparr> else t\<lparr>sv_thread := Some (SvCall 0)\<rparr>
   | SvCall i \<Rightarrow>
       if i < batch_size then
         (case sv_req_pckt_1 t ! i of
            Some p \<Rightarrow> t\<lparr>sv_tx_queue := callback \<lparr>ch_thread_id = sv_thread_id t\<rparr> p (sv_tx_queue t),
              sv_thread := Some (SvCall (Suc i))\<rparr>
          | None \<Rightarrow> t\<lparr>sv_thread := Some SvFault\<rparr>)
       else t\<lparr>sv_thread := Some SvLoop\<rparr>
   | SvDone \<Rightarrow> t
   | SvFault \<Rightarrow> t)"

text \<open>The batch size of the configuration.\<close>

definition rx_batch :: nat where
  "rx_batch = 2 ^ unat l_rx_batch_size"

section \<open>Refinement of the poller\<close>

text \<open>
  A thread with the history of the packets it has taken from its ring and of those it has called the
  callback on.
\<close>

type_synonym sv_hist = "RpcServerThread \<times> RpcPckt list \<times> RpcPckt list"

definition sv_drive :: "nat \<Rightarrow> server_callback \<Rightarrow> memory \<Rightarrow> sv_hist \<Rightarrow> sv_hist" where
  "sv_drive B cb m c = (case c of (t, log, calls) \<Rightarrow>
     (case sv_thread t of
        None \<Rightarrow> c
      | Some pc \<Rightarrow> (sv_step B cb m pc t,
          case pc of SvCopy i ptr \<Rightarrow> log @ [read_pckt m ptr] | _ \<Rightarrow> log,
          case pc of SvCall i \<Rightarrow>
            if i < B then (case sv_req_pckt_1 t ! i of Some p \<Rightarrow> calls @ [p] | None \<Rightarrow> calls) else calls
          | _ \<Rightarrow> calls)))"

text \<open>One period of listening: the thread's steps and the two parts of a stop.\<close>

inductive sv_con :: "nat \<Rightarrow> server_callback \<Rightarrow> memory \<Rightarrow> sv_hist \<Rightarrow> sv_hist \<Rightarrow> bool" for B cb m where
  sc_thread: "sv_con B cb m c (sv_drive B cb m c)"
| sc_signal: "sv_con B cb m (t, h) (stop_listening_signal t, h)"
| sc_join: "stop_listening_join t = Some (Done () :: (unit, unit) outcome, t') \<Longrightarrow> sv_con B cb m (t, h) (t', h)"

definition sv_phase :: "sv_pc option \<Rightarrow> poll_phase" where
  "sv_phase t = (case t of
     Some (SvSpin _ ptr seen) \<Rightarrow> Spin ptr seen
   | Some (SvTake _ ptr) \<Rightarrow> Take ptr
   | Some (SvCopy _ ptr) \<Rightarrow> Copy ptr
   | _ \<Rightarrow> Idle)"

definition sv_view :: "sv_hist \<Rightarrow> poll_state" where
  "sv_view c = \<lparr>ph = sv_phase (sv_thread (fst c)), pstop = sv_stop_signal (fst c),
     prxq = sv_rx_queue (fst c), plog = fst (snd c)\<rparr>"

text \<open>
  The batch: \<open>sv_filled i\<close> of its elements are the packets taken since the last call; while the callbacks
  run all of them are. A thread that was told to stop has taken at most one batch more than it called.
\<close>

definition sv_filled :: "nat \<Rightarrow> nat \<Rightarrow> sv_hist \<Rightarrow> bool" where
  "sv_filled B i c = (case c of (t, log, calls) \<Rightarrow> i \<le> B \<and> B dvd length calls \<and> length log = length calls + i
     \<and> length (sv_req_pckt_1 t) = B \<and> (\<forall>j<i. sv_req_pckt_1 t ! j = Some (log ! (length calls + j))))"

definition sv_calling :: "nat \<Rightarrow> nat \<Rightarrow> sv_hist \<Rightarrow> bool" where
  "sv_calling B i c = (case c of (t, log, calls) \<Rightarrow> i \<le> B \<and> (\<exists>k. length calls = B * k + i \<and> length log = B * k + B
     \<and> length (sv_req_pckt_1 t) = B \<and> (\<forall>j<B. sv_req_pckt_1 t ! j = Some (log ! (B * k + j)))))"

definition sv_at :: "nat \<Rightarrow> sv_hist \<Rightarrow> sv_pc \<Rightarrow> bool" where
  "sv_at B c pc = (case pc of
     SvLoop \<Rightarrow> B dvd length (snd (snd c)) \<and> length (fst (snd c)) = length (snd (snd c))
   | SvFor i \<Rightarrow> sv_filled B i c
   | SvSpin i _ _ \<Rightarrow> i < B \<and> sv_filled B i c
   | SvTake i _ \<Rightarrow> i < B \<and> sv_filled B i c
   | SvCopy i _ \<Rightarrow> i < B \<and> sv_filled B i c
   | SvCheck \<Rightarrow> sv_filled B B c
   | SvCall i \<Rightarrow> sv_calling B i c
   | _ \<Rightarrow> False)"

definition sv_ok :: "nat \<Rightarrow> server_callback \<Rightarrow> u16 \<Rightarrow> TxQueue \<Rightarrow> sv_hist \<Rightarrow> bool" where
  "sv_ok B cb tid tx0 c = (case c of (t, log, calls) \<Rightarrow>
     calls = take (length calls) log \<and> length log \<le> length calls + B \<and> sv_thread_id t = tid
     \<and> sv_tx_queue t = fold (cb \<lparr>ch_thread_id = tid\<rparr>) calls tx0
     \<and> (case sv_thread t of
          None \<Rightarrow> sv_stop_signal t
        | Some pc \<Rightarrow> sv_at B c pc \<or> sv_stop_signal t \<and> (pc = SvLoop \<or> pc = SvCheck \<or> pc = SvDone \<or> (\<exists>i. pc = SvFor i))))"

lemmas sv_view_defs = sv_view_def sv_phase_def
lemmas sv_at_defs = sv_at_def sv_filled_def sv_calling_def

lemma sv_step_loop:
  "sv_step B cb m SvLoop t = (if sv_stop_signal t then t\<lparr>sv_thread := Some SvDone\<rparr>
     else t\<lparr>sv_req_pckt_1 := replicate B None, sv_thread := Some (SvFor 0)\<rparr>)"
  by (simp add: sv_step_def)

lemma sv_step_for:
  "rx_wf (sv_rx_queue t) \<Longrightarrow> sv_step B cb m (SvFor i) t = t\<lparr>sv_thread := Some (
    if i < B \<and> \<not> sv_stop_signal t then SvSpin i
       (rx_q (sv_rx_queue t) + rx_q_tail (sv_rx_queue t) * rx_bucket_size (sv_rx_queue t))
       (rx_slot (sv_rx_queue t) (unat (rx_q_tail (sv_rx_queue t))))
    else SvCheck)\<rparr>"
  by (simp add: sv_step_def get_read_ptr_wf)

lemma sv_step_spin:
  "sv_step B cb m (SvSpin i ptr seen) t =
    (if no_new_pckt m ptr seen \<and> \<not> sv_stop_signal t then t else t\<lparr>sv_thread := Some (SvTake i ptr)\<rparr>)"
  by (simp add: sv_step_def no_new_pckt_def Let_def)

lemma sv_step_take:
  "rx_wf (sv_rx_queue t) \<Longrightarrow> sv_step B cb m (SvTake i ptr) t =
    (if sv_stop_signal t then t\<lparr>sv_thread := Some (SvFor (Suc i))\<rparr>
     else t\<lparr>sv_rx_queue := rx_advance (rpc_id (hdr (read_pckt m ptr))) (sv_rx_queue t),
            sv_thread := Some (SvCopy i ptr)\<rparr>)"
  by (simp add: sv_step_def update_rpc_id_wf rx_advance_def)

lemma sv_step_copy:
  "sv_step B cb m (SvCopy i ptr) t = t\<lparr>sv_req_pckt_1 := (sv_req_pckt_1 t)[i := Some (read_pckt m ptr)],
     sv_thread := Some (SvFor (Suc i))\<rparr>"
  by (simp add: sv_step_def)

lemma sv_step_check:
  "sv_step B cb m SvCheck t = t\<lparr>sv_thread := Some (if sv_stop_signal t then SvLoop else SvCall 0)\<rparr>"
  by (simp add: sv_step_def)

lemma sv_step_end: "sv_step B cb m SvDone t = t" "sv_step B cb m SvFault t = t"
  by (simp_all add: sv_step_def)

lemma sv_step_stop [simp]: "sv_stop_signal (sv_step B cb m pc t) = sv_stop_signal t"
  by (cases pc) (simp_all add: sv_step_def Let_def split: option.split outcome.split prod.split)

lemma sv_drive_None: "sv_thread t = None \<Longrightarrow> sv_drive B cb m (t, h) = (t, h)"
  by (simp add: sv_drive_def split: prod.split)

lemma sv_drive_call:
  assumes "sv_thread t = Some (SvCall i)" and "i < B" and "sv_req_pckt_1 t ! i = Some p"
  shows "sv_drive B cb m (t, log, calls) =
    (t\<lparr>sv_tx_queue := cb \<lparr>ch_thread_id = sv_thread_id t\<rparr> p (sv_tx_queue t), sv_thread := Some (SvCall (Suc i))\<rparr>,
     log, calls @ [p])"
  using assms by (simp add: sv_drive_def sv_step_def)

lemma sv_drive_called:
  "sv_thread t = Some (SvCall i) \<Longrightarrow> \<not> i < B \<Longrightarrow> sv_drive B cb m (t, log, calls) = (t\<lparr>sv_thread := Some SvLoop\<rparr>, log, calls)"
  by (simp add: sv_drive_def sv_step_def)

lemma sv_drive_copy:
  "sv_thread t = Some (SvCopy i ptr) \<Longrightarrow> sv_drive B cb m (t, log, calls) =
    (sv_step B cb m (SvCopy i ptr) t, log @ [read_pckt m ptr], calls)"
  by (simp add: sv_drive_def)

lemma sv_drive_other:
  "sv_thread t = Some pc \<Longrightarrow> (\<And>i ptr. pc \<noteq> SvCopy i ptr) \<Longrightarrow> (\<And>i. pc \<noteq> SvCall i) \<Longrightarrow>
    sv_drive B cb m (t, h) = (sv_step B cb m pc t, h)"
  by (cases pc) (auto simp: sv_drive_def)

lemmas sv_step_simps = sv_step_loop sv_step_for sv_step_spin sv_step_take sv_step_copy sv_step_check sv_step_end
  sv_drive_None sv_drive_copy

lemma sv_call_next:
  assumes "sv_ok B cb tid tx0 (t, log, calls)" and "sv_thread t = Some (SvCall i)" and "i < B"
  shows "sv_req_pckt_1 t ! i = Some (log ! length calls)" and "length calls < length log"
  using assms by (auto simp: sv_ok_def sv_at_defs)

definition sv_stopping :: "RpcServerThread \<Rightarrow> sv_pc \<Rightarrow> bool" where
  "sv_stopping t pc \<longleftrightarrow> sv_stop_signal t \<and> (pc = SvLoop \<or> pc = SvCheck \<or> pc = SvDone \<or> (\<exists>i. pc = SvFor i))"

lemma sv_ok_at: "sv_ok B cb tid tx0 (t, h) \<Longrightarrow> sv_thread t = Some pc \<Longrightarrow> sv_at B (t, h) pc \<or> sv_stopping t pc"
  by (auto simp: sv_ok_def sv_stopping_def)

lemma sv_ok_move:
  assumes "sv_ok B cb tid tx0 (t, h)" and "sv_thread_id t' = sv_thread_id t" and "sv_tx_queue t' = sv_tx_queue t"
    and "sv_thread t' = Some pc'" and "sv_at B (t', h) pc' \<or> sv_stopping t' pc'"
  shows "sv_ok B cb tid tx0 (t', h)"
  using assms by (auto simp: sv_ok_def sv_stopping_def)

lemma sv_ok_call:
  assumes ok: "sv_ok B cb tid tx0 (t, log, calls)" and pc: "sv_thread t = Some (SvCall i)"
  shows "sv_ok B cb tid tx0 (sv_drive B cb m (t, log, calls))"
proof (cases "i < B")
  case True
  note n = sv_call_next [OF ok pc True]
  show ?thesis
    using ok n pc True unfolding sv_drive_call [OF pc True n(1)]
    by (auto simp: sv_ok_def sv_at_defs take_Suc_conv_app_nth)
next
  case False
  then show ?thesis
    using ok pc unfolding sv_drive_called [OF pc False]
    by (auto simp: sv_ok_def sv_at_defs)
qed

lemma sv_ok_copy:
  assumes ok: "sv_ok B cb tid tx0 (t, log, calls)" and pc: "sv_thread t = Some (SvCopy i ptr)"
  shows "sv_ok B cb tid tx0 (sv_drive B cb m (t, log, calls))"
proof -
  have "sv_at B (t, log, calls) (SvCopy i ptr)" using sv_ok_at [OF ok pc] by (simp add: sv_stopping_def)
  then have at: "i < B" "B dvd length calls" "length log = length calls + i" "length (sv_req_pckt_1 t) = B"
    "\<forall>j<i. sv_req_pckt_1 t ! j = Some (log ! (length calls + j))"
    by (simp_all add: sv_at_defs)
  then show ?thesis
    using ok pc unfolding sv_drive_copy [OF pc] sv_step_copy
    by (simp add: sv_ok_def sv_at_defs nth_append nth_list_update less_Suc_eq)
qed

lemma sv_drive_ok:
  assumes ok: "sv_ok B cb tid tx0 (t, log, calls)" and wf: "rx_wf (sv_rx_queue t)"
  shows "sv_ok B cb tid tx0 (sv_drive B cb m (t, log, calls))"
proof (cases "sv_thread t")
  case None
  then show ?thesis using ok by (simp add: sv_step_simps)
next
  case (Some pc)
  note at = sv_ok_at [OF ok Some] and move = sv_ok_move [OF ok] and other = sv_drive_other [OF Some]
  show ?thesis
  proof (cases pc)
    case (SvCall i)
    then show ?thesis using sv_ok_call ok Some by simp
  next
    case (SvCopy i ptr)
    then show ?thesis using sv_ok_copy ok Some by simp
  next
    case SvLoop
    then show ?thesis
      using at by (subst other) (auto simp: sv_step_loop sv_at_defs sv_stopping_def intro!: move)
  next
    case (SvFor i)
    then have "sv_drive B cb m (t, log, calls) = (sv_step B cb m (SvFor i) t, log, calls)" using other by simp
    moreover have "sv_ok B cb tid tx0 (sv_step B cb m (SvFor i) t, log, calls)"
      unfolding sv_step_for [OF wf] by (rule move) (use at SvFor in \<open>auto simp: sv_at_defs sv_stopping_def\<close>)
    ultimately show ?thesis by simp
  next
    case (SvSpin i ptr seen)
    then have e: "sv_drive B cb m (t, log, calls) = (sv_step B cb m (SvSpin i ptr seen) t, log, calls)" using other by simp
    have "sv_ok B cb tid tx0 (t\<lparr>sv_thread := Some (SvTake i ptr)\<rparr>, log, calls)"
      by (rule move) (use at SvSpin in \<open>auto simp: sv_at_defs sv_stopping_def\<close>)
    then show ?thesis using ok unfolding e sv_step_spin by simp
  next
    case (SvTake i ptr)
    then have e: "sv_drive B cb m (t, log, calls) = (sv_step B cb m (SvTake i ptr) t, log, calls)" using other by simp
    have "sv_ok B cb tid tx0 (t\<lparr>sv_thread := Some (SvFor (Suc i))\<rparr>, log, calls)" if "sv_stop_signal t"
      by (rule move) (use that in \<open>auto simp: sv_stopping_def\<close>)
    moreover have "sv_ok B cb tid tx0 (t\<lparr>sv_rx_queue := q, sv_thread := Some (SvCopy i ptr)\<rparr>, log, calls)" for q
      by (rule move) (use at SvTake in \<open>auto simp: sv_at_defs sv_stopping_def\<close>)
    ultimately show ?thesis unfolding e sv_step_take [OF wf] by simp
  next
    case SvCheck
    then have e: "sv_drive B cb m (t, log, calls) = (sv_step B cb m SvCheck t, log, calls)" using other by simp
    show ?thesis
      unfolding e sv_step_check by (rule move) (use at SvCheck in \<open>auto simp: sv_at_defs sv_stopping_def dvd_def\<close>)
  qed (use ok in \<open>simp_all add: other sv_step_end\<close>)
qed

lemma sv_drive_refines:
  assumes "rx_wf (sv_rx_queue t)"
  shows "poll_step m (sv_view (t, h)) (sv_view (sv_drive B cb m (t, h)))
    \<or> sv_view (sv_drive B cb m (t, h)) = sv_view (t, h)"
proof (cases "sv_thread t")
  case None
  then show ?thesis by (simp add: sv_step_simps)
next
  case (Some pc)
  let ?s = "sv_view (t, h)"
  obtain log calls where h: "h = (log, calls)" by (cases h)
  note other = sv_drive_other [OF Some]
  show ?thesis
  proof (cases pc)
    case SvLoop
    then show ?thesis using Some by (simp add: other sv_step_loop sv_view_defs)
  next
    case (SvFor i)
    then show ?thesis using Some assms poll_step.ps_start [of ?s _ _ m]
      by (cases "sv_stop_signal t") (simp_all add: other sv_step_for sv_view_defs get_read_ptr_wf)
  next
    case (SvSpin i ptr seen)
    then show ?thesis using Some poll_step.ps_exit [of ?s ptr seen m]
      by (cases "sv_stop_signal t") (auto simp: other sv_step_spin sv_view_defs)
  next
    case (SvTake i ptr)
    then show ?thesis
      using Some assms poll_step.ps_take [of ?s ptr m] poll_step.ps_abandon [of ?s ptr m]
      by (simp add: other sv_step_take sv_view_defs update_rpc_id_wf rx_advance_def)
  next
    case (SvCopy i ptr)
    then show ?thesis using Some poll_step.ps_copy [of ?s ptr m]
      by (simp add: h sv_step_simps sv_view_defs)
  next
    case SvCheck
    then show ?thesis using Some by (simp add: other sv_step_check sv_view_defs)
  next
    case (SvCall i)
    then show ?thesis using Some
      by (simp add: h sv_drive_def sv_step_def sv_view_defs split: option.split)
  qed (use Some in \<open>simp_all add: other sv_step_end\<close>)
qed

lemma sv_con_ok:
  assumes "sv_con B cb m c c'" and "sv_ok B cb tid tx0 c" and "rx_wf (sv_rx_queue (fst c))"
  shows "sv_ok B cb tid tx0 c'"
  using assms(1)
proof cases
  case sc_thread
  then show ?thesis using assms(2,3) by (cases c) (auto simp: sv_drive_ok)
next
  case (sc_signal t h)
  then show ?thesis using assms(2)
    by (auto simp: sv_ok_def stop_listening_signal_def sv_at_defs split: option.splits sv_pc.splits)
next
  case (sc_join t t' h)
  then show ?thesis using assms(2)
    by (auto simp: sv_ok_def stop_listening_join_def sv_at_def split: option.splits if_splits)
qed

lemma sv_con_refines:
  assumes "sv_con B cb m c c'" and "rx_wf (sv_rx_queue (fst c))"
  shows "poll_step m (sv_view c) (sv_view c') \<or> sv_view c' = sv_view c"
  using assms(1)
proof cases
  case sc_thread
  then show ?thesis using sv_drive_refines assms(2) by (cases c) simp
next
  case (sc_signal t h)
  then show ?thesis using poll_step.ps_stop [of m "sv_view c"] by (auto simp: sv_view_defs stop_listening_signal_def)
next
  case (sc_join t t' h)
  then show ?thesis by (auto simp: sv_view_defs stop_listening_join_def split: option.splits if_splits)
qed

lemma sv_view_sel [simp]:
  "prxq (sv_view c) = sv_rx_queue (fst c)" "plog (sv_view c) = fst (snd c)" "pstop (sv_view c) = sv_stop_signal (fst c)"
  by (simp_all add: sv_view_def)

interpretation svc: rx_consumer sv_view "sv_con B cb" "sv_ok B cb tid tx0" for B cb tid tx0
proof (unfold_locales, goal_cases)
  case (1 c m c')
  then show ?case using sv_con_ok by simp
next
  case (2 c m c')
  then show ?case using sv_con_refines by simp
qed

text \<open>Steps of the thread to its next packet; a batch that is full is handled first.\<close>

definition sv_rank :: "nat \<Rightarrow> sv_hist \<Rightarrow> nat" where
  "sv_rank B c = (case sv_thread (fst c) of
     Some (SvTake _ _) \<Rightarrow> 1
   | Some (SvSpin _ _ _) \<Rightarrow> 2
   | Some (SvFor i) \<Rightarrow> if i < B then 3 else B + 7
   | Some SvLoop \<Rightarrow> 4
   | Some (SvCall i) \<Rightarrow> 5 + (B - i)
   | Some SvCheck \<Rightarrow> B + 6
   | _ \<Rightarrow> 0)"

lemma sv_drive_stop: "sv_stop_signal (fst (sv_drive B cb m c)) = sv_stop_signal (fst c)"
  by (cases "sv_thread (fst c)") (simp_all add: sv_drive_def case_prod_beta)

lemma sv_drive_progress:
  assumes "0 < B" and "sv_ok B cb tid tx0 c" and "rx_wf (prxq (sv_view c))" and "\<not> pstop (sv_view c)"
    and "\<And>ptr seen. ph (sv_view c) = Spin ptr seen \<Longrightarrow> \<not> no_new_pckt m ptr seen"
  shows "length (plog (sv_view c)) < length (plog (sv_view (sv_drive B cb m c)))
    \<or> plog (sv_view (sv_drive B cb m c)) = plog (sv_view c) \<and> sv_rank B (sv_drive B cb m c) < sv_rank B c"
proof -
  obtain t log calls where c: "c = (t, log, calls)" by (cases c)
  obtain pc where pc: "sv_thread t = Some pc" "sv_at B c pc"
    using assms(2,4) c by (auto simp: sv_ok_def split: option.splits)
  note other = sv_drive_other [OF pc(1)]
  show ?thesis
  proof (cases pc)
    case (SvCall i)
    show ?thesis
    proof (cases "i < B")
      case True
      have "sv_req_pckt_1 t ! i = Some (log ! length calls)"
        using sv_call_next(1) assms(2) pc(1) True by (simp add: c SvCall)
      then show ?thesis using pc(1) True by (simp add: c SvCall sv_drive_call sv_rank_def)
    next
      case False
      then show ?thesis using pc(1) by (simp add: c SvCall sv_drive_called sv_rank_def)
    qed
  qed (use assms(1,3-5) pc in \<open>auto simp: c other sv_step_simps sv_view_defs sv_rank_def sv_at_def\<close>)
qed

interpretation svd: rx_driver sv_view "sv_con (Suc b) cb" "sv_ok (Suc b) cb tid tx0" "sv_drive (Suc b) cb" "sv_rank (Suc b)"
  "b + 8" for b cb tid tx0
proof (unfold_locales, goal_cases)
  case (1 m c)
  show ?case by (rule sc_thread)
next
  case (2 m c)
  show ?case by (simp add: sv_drive_stop)
next
  case (3 c)
  show ?case by (auto simp: sv_rank_def split: option.splits sv_pc.splits)
next
  case (4 c m)
  then show ?case using sv_drive_progress [of "Suc b" cb tid tx0 c m] by simp
qed

section \<open>Stopping\<close>

text \<open>
  \<^verbatim>\<open>stop_listening\<close> while the thread takes \<open>n\<close> more steps: \<open>None\<close> if the thread has not ended by then.
\<close>

definition sv_own_step :: "nat \<Rightarrow> server_callback \<Rightarrow> memory \<Rightarrow> RpcServerThread \<Rightarrow> RpcServerThread" where
  "sv_own_step B cb m t = (case sv_thread t of None \<Rightarrow> t | Some pc \<Rightarrow> sv_step B cb m pc t)"

definition stop_listening ::
  "nat \<Rightarrow> server_callback \<Rightarrow> memory \<Rightarrow> nat \<Rightarrow> RpcServerThread \<Rightarrow> (('r, unit) outcome \<times> RpcServerThread) option" where
  "stop_listening B cb m n t = stop_listening_join ((sv_own_step B cb m ^^ n) (stop_listening_signal t))"

lemma fst_sv_drive: "fst (sv_drive B cb m (t, h)) = sv_own_step B cb m t"
  by (simp add: sv_drive_def sv_own_step_def split: option.split prod.split)

lemma fst_sv_drives: "fst ((sv_drive B cb m ^^ n) (t, h)) = (sv_own_step B cb m ^^ n) t"
proof (induction n)
  case (Suc n)
  then show ?case using fst_sv_drive [of B cb m "(sv_own_step B cb m ^^ n) t"]
    by (cases "(sv_drive B cb m ^^ n) (t, h)") simp
qed simp

definition sv_stop_rank :: "nat \<Rightarrow> RpcServerThread \<Rightarrow> nat" where
  "sv_stop_rank B t = (case sv_thread t of
     Some (SvSpin _ _ _) \<Rightarrow> 5
   | Some (SvTake _ _) \<Rightarrow> 4
   | Some (SvCopy _ _) \<Rightarrow> 4
   | Some (SvFor _) \<Rightarrow> 3
   | Some SvCheck \<Rightarrow> 2
   | Some SvLoop \<Rightarrow> 1
   | Some (SvCall i) \<Rightarrow> 2 + (B - i)
   | _ \<Rightarrow> 0)"

lemma rx_wf_own_step: "rx_wf (sv_rx_queue t) \<Longrightarrow> rx_wf (sv_rx_queue (sv_own_step B cb m t))"
proof (cases "sv_thread t")
  case (Some pc)
  assume "rx_wf (sv_rx_queue t)"
  then show ?thesis
    using rxq.invar_advance [of "sv_rx_queue t"] Some
    by (cases pc) (auto simp: sv_own_step_def sv_step_simps sv_step_def [of _ _ _ "SvCall _"] split: option.split)
qed (simp add: sv_own_step_def)

lemma sv_ok_running:
  "sv_ok B cb tid tx0 (t, h) \<Longrightarrow> sv_thread t = Some pc \<Longrightarrow> pc \<noteq> SvFault"
  by (auto simp: sv_ok_def sv_at_def)

lemma sv_stop_step:
  assumes "sv_ok B cb tid tx0 (t, h)" and "rx_wf (sv_rx_queue t)" and "sv_stop_signal t"
    and "sv_thread t = Some pc" and "pc \<noteq> SvDone"
  shows "sv_stop_rank B (sv_own_step B cb m t) < sv_stop_rank B t" and "sv_thread (sv_own_step B cb m t) \<noteq> None"
proof -
  obtain log calls where h: "h = (log, calls)" by (cases h)
  have "pc \<noteq> SvFault" using sv_ok_running [OF assms(1,4)] .
  moreover have "sv_req_pckt_1 t ! i = Some (log ! length calls)" if "pc = SvCall i" "i < B" for i
    using sv_call_next(1) assms(1,4) that by (simp add: h)
  ultimately show "sv_stop_rank B (sv_own_step B cb m t) < sv_stop_rank B t" and "sv_thread (sv_own_step B cb m t) \<noteq> None"
    using assms(2-5)
    by (cases pc; auto simp: sv_own_step_def sv_stop_rank_def sv_step_simps sv_step_def [of _ _ _ "SvCall _"])+
qed

lemma sv_done_stays: "sv_thread t = Some SvDone \<Longrightarrow> (sv_own_step B cb m ^^ n) t = t"
  by (induction n) (simp_all add: sv_own_step_def sv_step_end)

lemma sv_reaches_end:
  assumes "sv_ok B cb tid tx0 (t, h)" and "rx_wf (sv_rx_queue t)" and "sv_stop_signal t" and "sv_thread t \<noteq> None"
    and "sv_stop_rank B t \<le> n"
  shows "sv_thread ((sv_own_step B cb m ^^ n) t) = Some SvDone"
  using assms
proof (induction n arbitrary: t h)
  case 0
  then obtain pc where pc: "sv_thread t = Some pc" by auto
  then show ?case using 0 sv_stop_step(1) [OF 0(1-3) pc] by fastforce
next
  case (Suc n)
  obtain pc where pc: "sv_thread t = Some pc" using Suc.prems(4) by auto
  show ?case
  proof (cases "pc = SvDone")
    case True
    then show ?thesis using pc sv_done_stays [of t "Suc n" B cb m] by (simp del: funpow.simps)
  next
    case False
    note step = sv_stop_step [OF Suc.prems(1-3) pc False, of m]
    obtain log calls where h: "h = (log, calls)" by (cases h)
    obtain h' where d: "sv_drive B cb m (t, h) = (sv_own_step B cb m t, h')"
      by (metis fst_sv_drive prod.collapse)
    then have "sv_ok B cb tid tx0 (sv_own_step B cb m t, h')"
      using sv_drive_ok Suc.prems(1,2) h by metis
    moreover have "sv_stop_signal (sv_own_step B cb m t)"
      using sv_drive_stop [of B cb m "(t, h)"] d Suc.prems(3) by simp
    ultimately have "sv_thread ((sv_own_step B cb m ^^ n) (sv_own_step B cb m t)) = Some SvDone"
      using Suc.IH rx_wf_own_step Suc.prems(2,5) step by fastforce
    then show ?thesis by (simp add: funpow_swap1)
  qed
qed

lemma sv_stops:
  assumes "sv_ok B cb tid tx0 (t, h)" and "rx_wf (sv_rx_queue t)" and "sv_thread t \<noteq> None" and "B + 5 \<le> n"
  shows "\<exists>t'. stop_listening B cb m n t = Some (Done (), t') \<and> sv_thread t' = None"
proof -
  let ?t = "stop_listening_signal t"
  have "sv_con B cb m (t, h) (?t, h)" by (rule sc_signal)
  then have "sv_ok B cb tid tx0 (?t, h)" using sv_con_ok assms(1,2) by fastforce
  moreover have "sv_stop_rank B ?t \<le> B + 5"
    by (auto simp: sv_stop_rank_def split: option.split sv_pc.split)
  ultimately have "sv_thread ((sv_own_step B cb m ^^ n) ?t) = Some SvDone"
    using sv_reaches_end [of B cb tid tx0 ?t h n m] assms(2-4) by (simp add: stop_listening_signal_def)
  then show ?thesis by (simp add: stop_listening_def stop_listening_join_def)
qed

section \<open>Properties\<close>

text \<open>A thread on a flow, as constructed and told to listen.\<close>

definition sv_listening :: "nic_flows \<Rightarrow> u64 \<Rightarrow> RpcServerThread \<Rightarrow> bool" where
  "sv_listening nf flow t \<longleftrightarrow> nf_rx_flow_buffer nf flow \<noteq> 0 \<and> nf_mtu_size_bytes nf = 64 \<and>
     (\<exists>t0 aligned_alloc tid pin cpu r. mk_RpcServerThread 4096 aligned_alloc nf flow tid = (Done t0 :: (unit, _) outcome)
        \<and> start_listening pin cpu t0 = (Done r :: (unit, _) outcome, t))"

lemma mk_flow_queues_Done:
  assumes "mk_flow_queues page_size aligned_alloc nf flow = (Done (t, r) :: (unit, _) outcome)"
  shows "\<exists>r0. mk_RxQueue (nf_rx_flow_buffer nf flow) (nf_mtu_size_bytes nf) l_rx_queue_size = Some r0
    \<and> RxQueue_init page_size aligned_alloc r0 = (Done () :: (unit, unit) outcome, r)"
  using assms by (auto simp: mk_flow_queues_def split: option.splits prod.splits outcome.splits)

lemma sv_listening_start:
  assumes "sv_listening nf flow t" and "slots_blank m (nf_rx_flow_buffer nf flow) 8"
  shows "svc.start_ok B cb (sv_thread_id t) (sv_tx_queue t) (nf_rx_flow_buffer nf flow) 8 m (t, [], [])"
    and "rx_ring (nf_rx_flow_buffer nf flow) 8 (sv_rx_queue t)"
proof -
  obtain t0 aligned_alloc tid pin cpu r where nz: "nf_rx_flow_buffer nf flow \<noteq> 0" "nf_mtu_size_bytes nf = 64"
    and mk: "mk_RpcServerThread 4096 aligned_alloc nf flow tid = (Done t0 :: (unit, _) outcome)"
    and st: "start_listening pin cpu t0 = (Done r :: (unit, _) outcome, t)"
    using assms(1) unfolding sv_listening_def by blast
  obtain tq rq where q: "mk_flow_queues 4096 aligned_alloc nf flow = (Done (tq, rq) :: (unit, _) outcome)"
    and t0: "t0 = \<lparr>sv_thread_id = tid, sv_nic_flow_id = flow, sv_tx_queue = tq,
          sv_rx_queue = rq, sv_thread = None, sv_stop_signal = False, sv_req_pckt_1 = []\<rparr>"
    using mk by (auto simp: mk_RpcServerThread_def split: outcome.splits)
  have "fresh_rx (nf_rx_flow_buffer nf flow) 64 3 rq"
    using mk_flow_queues_Done [OF q] nz unfolding fresh_rx_def l_rx_queue_size_def by auto
  moreover have t: "t = t0\<lparr>sv_thread := Some SvLoop\<rparr>"
    using st by (auto simp: t0 start_listening_def Let_def split: if_splits)
  ultimately show ring: "rx_ring (nf_rx_flow_buffer nf flow) 8 (sv_rx_queue t)"
    by (auto simp: rx_ring_def t0 intro!: exI [of _ 3])
  then show "svc.start_ok B cb (sv_thread_id t) (sv_tx_queue t) (nf_rx_flow_buffer nf flow) 8 m (t, [], [])"
    using assms(2) by (simp add: svc.start_ok_def t t0 sv_ok_def sv_at_def sv_view_defs)
qed


lemma batch_prefix:
  assumes "calls = take (length calls) log" and "length log = length calls + i" and "i < B" and "B dvd length calls"
  shows "calls = take (B * (length log div B)) log"
proof -
  obtain k where k: "length calls = B * k" using assms(4) by (auto simp: dvd_def)
  then have "length log div B = k" using assms(2,3) by (simp add: div_mult_self4 [of B] add.commute)
  then show ?thesis using assms(1) k by simp
qed

lemma batch_handled:
  assumes "0 < B" and "rx_ring buff d q0" and "svc.sys_inv B cb tid tx0 buff d q0 (m, sent, t, sent, calls)"
    and "\<not> sv_stop_signal t"
  shows "\<exists>n \<le> sv_rank B (t, sent, calls). \<exists>t'. (sv_drive B cb m ^^ n) (t, sent, calls)
    = (t', sent, take (B * (length sent div B)) sent)"
  using assms(3,4)
proof (induction "sv_rank B (t, sent, calls)" arbitrary: t calls rule: less_induct)
  case less
  let ?c = "(t, sent, calls)"
  have ok: "sv_ok B cb tid tx0 ?c" and p: "poll_inv buff d q0 sent (sv_view ?c)"
    using less.prems(1) by (simp_all add: svc.sys_inv_def)
  obtain pc where pc: "sv_thread t = Some pc" "sv_at B ?c pc"
    using ok less.prems(2) by (auto simp: sv_ok_def split: option.splits)
  have pre: "calls = take (length calls) sent" using ok by (simp add: sv_ok_def)
  consider (calling) "(\<exists>i. pc = SvFor i \<and> \<not> i < B) \<or> pc = SvCheck \<or> (\<exists>i. pc = SvCall i)"
    | (handled) "\<exists>i < B. length sent = length calls + i \<and> B dvd length calls"
    using pc p assms(1) by (cases pc) (auto simp: sv_at_defs poll_inv_def phase_inv_def sv_view_defs)
  then show ?case
  proof cases
    case handled
    then have "calls = take (B * (length sent div B)) sent" using batch_prefix [OF pre] by blast
    then show ?thesis by (intro exI [of _ 0]) simp
  next
    case calling
    obtain t' log' calls' where d: "sv_drive B cb m ?c = (t', log', calls')" by (metis surj_pair)
    have inv: "svc.sys_inv B cb tid tx0 buff d q0 (m, sent, t', log', calls')"
      using svc.sys_inv_con [OF assms(2) less.prems(1) sc_thread] d by simp
    have "rx_wf (prxq (sv_view ?c))" using svc.poll_inv_rx_wf [OF assms(2) p] by simp
    moreover have "ph (sv_view ?c) = Idle" using calling pc(1) by (auto simp: sv_view_defs)
    ultimately have "length sent < length log' \<or> log' = sent \<and> sv_rank B (t', log', calls') < sv_rank B ?c"
      using sv_drive_progress [OF assms(1) ok, of m] less.prems(2) d by simp
    moreover have "\<not> length sent < length log'" using inv by (simp add: svc.sys_inv_def poll_inv_def)
    ultimately have log: "log' = sent" and rank: "sv_rank B (t', sent, calls') < sv_rank B ?c" by auto
    have "\<not> sv_stop_signal t'" using sv_drive_stop [of B cb m ?c] less.prems(2) d by simp
    then obtain n t'' where n: "n \<le> sv_rank B (t', sent, calls')"
      "(sv_drive B cb m ^^ n) (t', sent, calls') = (t'', sent, take (B * (length sent div B)) sent)"
      using less.hyps [OF rank] inv log by blast
    then have "(sv_drive B cb m ^^ Suc n) ?c = (t'', sent, take (B * (length sent div B)) sent)"
      using d log by (simp add: funpow_swap1)
    then show ?thesis using n(1) rank by (intro exI [of _ "Suc n"]) auto
  qed
qed

lemma all_batches_handled:
  assumes "0 < B" and "sv_listening nf flow t" and "slots_blank m (nf_rx_flow_buffer nf flow) 8"
    and "(rx_system (nf_rx_flow_buffer nf flow) 8 sv_view (sv_con B cb))\<^sup>*\<^sup>* (m, [], t, [], []) (m', sent, t', log, calls)"
    and "\<not> sv_stop_signal t'"
  shows "\<exists>n \<le> (B + 8) * (length sent - length log) + (B + 7). \<exists>t''.
    (sv_drive B cb m' ^^ n) (t', log, calls) = (t'', sent, take (B * (length sent div B)) sent)"
proof -
  obtain b where b: "B = Suc b" using assms(1) by (cases B) auto
  note start = sv_listening_start [OF assms(2,3)]
  have inv: "svc.sys_inv B cb (sv_thread_id t) (sv_tx_queue t) (nf_rx_flow_buffer nf flow) 8 (sv_rx_queue t) (m', sent, t', log, calls)"
    using svc.sys_inv_reachable [OF assms(4) start(1)] by simp
  obtain n where n: "n \<le> (B + 8) * (length sent - length log)"
    "fst (snd ((sv_drive B cb m' ^^ n) (t', log, calls))) = sent"
    using svd.all_delivered [OF start(2) inv [unfolded b]] assms(5) b by auto
  have step: "svc.sys_inv B cb (sv_thread_id t) (sv_tx_queue t) (nf_rx_flow_buffer nf flow) 8 (sv_rx_queue t)
      (m', sent, (sv_drive B cb m' ^^ n) (t', log, calls)) \<and> \<not> sv_stop_signal (fst ((sv_drive B cb m' ^^ n) (t', log, calls)))" for n
  proof (induction n)
    case (Suc n)
    then show ?case using svc.sys_inv_con [OF start(2) _ sc_thread] by (auto simp: sv_drive_stop)
  qed (use inv assms(5) in simp)
  obtain t1 calls1 where c1: "(sv_drive B cb m' ^^ n) (t', log, calls) = (t1, sent, calls1)" using n(2) by (metis prod.collapse)
  obtain k t2 where k: "k \<le> sv_rank B (t1, sent, calls1)"
    "(sv_drive B cb m' ^^ k) (t1, sent, calls1) = (t2, sent, take (B * (length sent div B)) sent)"
    using batch_handled [OF assms(1) start(2)] step [of n] unfolding c1 by (metis fst_conv)
  have "k \<le> B + 7" using k(1) by (auto simp: sv_rank_def split: option.splits sv_pc.splits if_splits)
  moreover have "(sv_drive B cb m' ^^ (k + n)) (t', log, calls) = (t2, sent, take (B * (length sent div B)) sent)"
    using c1 k(2) by (simp add: funpow_add)
  ultimately show ?thesis using n(1) by (intro exI [of _ "k + n"]) auto
qed


section \<open>Examples\<close>

definition nf8 :: nic_flows where
  "nf8 = \<lparr>nf_tx_flow_buffer = (\<lambda>_. 0x1000), nf_rx_flow_buffer = (\<lambda>_. 0x2000), nf_mtu_size_bytes = 64\<rparr>"

definition sv8 :: RpcServerThread where
  "sv8 = \<lparr>sv_thread_id = 3, sv_nic_flow_id = 0, sv_tx_queue = tx8, sv_rx_queue = rx8, sv_thread = Some SvLoop,
     sv_stop_signal = False, sv_req_pckt_1 = []\<rparr>"

definition count_calls :: server_callback where
  "count_calls h p q = q\<lparr>tx_q_tail := tx_q_tail q + 1\<rparr>"

lemma sv8_listening: "sv_listening nf8 0 sv8"
proof -
  let ?t0 = "sv8\<lparr>sv_thread := None\<rparr>"
  have "mk_RpcServerThread 4096 (\<lambda>_ _. True) nf8 0 3 = (Done ?t0 :: (unit, _) outcome)"
    by (simp add: mk_RpcServerThread_def mk_flow_queues_def mk_TxQueue_def mk_RxQueue_def TxQueue_init_def RxQueue_init_def
        cfg_defs int_one_shl_small nf8_def sv8_def tx8_def rx8_def)
  moreover have "start_listening (\<lambda>_. False) 4 ?t0 = (Done 1 :: (unit, _) outcome, sv8)"
    by (simp add: start_listening_def sv8_def)
  ultimately show ?thesis unfolding sv_listening_def by (auto simp: nf8_def)
qed

lemma sv8_reaches:
  "(rx_system 0x2000 8 sv_view (sv_con B cb))\<^sup>*\<^sup>* (\<lambda>_. 0, [], sv8, [], [])
     (mem5, [nop_pckt 5], (sv_drive B cb mem5 ^^ n) (sv8, [], []))"
proof (induction n)
  case 0
  have "dev_may_send 8 [] 0 (nop_pckt 5)"
    by (simp add: dev_may_send_def seen_id_def) (simp add: nop_pckt_def)
  then show ?case
    using rs_dev [where d = 8 and sent = "[]" and view = sv_view and c = "(sv8, [], [])" and p = "nop_pckt 5"
        and buff = "0x2000" and con = "sv_con B cb" and m = "\<lambda>_. 0" and pad = 0]
    by (auto simp: mem5_def)
next
  case (Suc n)
  then show ?case by (auto intro: rtranclp.rtrancl_into_rtrancl rs_con sc_thread)
qed



end
