(* ===== verification/Nic_Buffers.thy ===== *)
theory Nic_Buffers
  imports Nic_Life
begin

text \<open>
  The shared buffers: what a successful configuration of the data plane establishes about the
  regions of the flows, and that the queues of one flow stay inside the region of that flow.
\<close>

section \<open>Address ranges\<close>

definition bytes_at :: "u64 \<Rightarrow> nat \<Rightarrow> u64 set" where
  "bytes_at a n = {x. unat (x - a) < n}"

lemma bytes_at_offset:
  assumes "off + n \<le> 2 ^ 64"
  shows "x \<in> bytes_at (a + of_nat off) n \<longleftrightarrow> off \<le> unat (x - a) \<and> unat (x - a) < off + n"
proof (cases "n = 0")
  case False
  have off: "unat (of_nat off :: u64) = off" using assms False by (intro unat_u64_of_nat) simp
  have split: "x - (a + of_nat off) = (x - a) - of_nat off" by simp
  show ?thesis
  proof (cases "off \<le> unat (x - a)")
    case True
    then have "unat ((x - a) - of_nat off) = unat (x - a) - off"
      using off by (subst unat_sub) (simp_all add: word_le_nat_alt)
    then show ?thesis using True by (auto simp: bytes_at_def split)
  next
    case out: False
    have "unat ((x - a) - of_nat off) = unat (x - a) + (2 ^ 64 - off)"
      using out off assms by (simp add: unat_sub_if_size word_size)
    then show ?thesis using out assms by (auto simp: bytes_at_def split)
  qed
qed (auto simp: bytes_at_def)

lemma bytes_at_disjoint:
  assumes "i + k \<le> j" and "j + l \<le> 2 ^ 64"
  shows "bytes_at (a + of_nat i) k \<inter> bytes_at (a + of_nat j) l = {}"
  using assms by (auto simp: bytes_at_offset)

lemma bytes_at_inside:
  assumes "off + k \<le> n" and "n \<le> 2 ^ 64"
  shows "bytes_at (a + of_nat off) k \<subseteq> bytes_at a n"
proof
  fix x
  assume "x \<in> bytes_at (a + of_nat off) k"
  then show "x \<in> bytes_at a n" using assms by (auto simp: bytes_at_offset) (simp add: bytes_at_def)
qed

lemma bytes_at_ends: "x \<in> bytes_at a n \<Longrightarrow> unat a + n \<le> 2 ^ 64 \<Longrightarrow> unat a \<le> unat x \<and> unat x < unat a + n"
  using bytes_at_offset [of "unat a" n x 0] by simp

section \<open>Allocation\<close>

text \<open>What is assumed of the page size.\<close>

definition page_ok :: "'h opae \<Rightarrow> bool" where
  "page_ok x \<longleftrightarrow> 0 < unat (get_page_size x) \<and> unat (get_page_size x) \<le> 2 ^ 32"

lemma one_page_nat:
  fixes a p :: nat
  assumes "0 < p" and "a div p \<le> 1" and "a mod p = 0" and "0 < a"
  shows "a = p"
proof -
  have "a = a div p * p" using assms(3) div_mult_mod_eq [of a p] by linarith
  moreover have "a div p \<noteq> 0" using assms(4) calculation by (metis mult_is_0 not_gr0)
  ultimately show ?thesis using assms(2) by (metis le_antisym less_one linorder_not_le nat_mult_1)
qed

lemma round_up_nat:
  fixes a p :: nat
  assumes "0 < p"
  shows "(a + p - a mod p) mod p = 0" and "(a + p - a mod p) div p = Suc (a div p)"
proof -
  have "a + p - a mod p = Suc (a div p) * p"
    using div_mult_mod_eq [of a p] unfolding mult_Suc by linarith
  then show "(a + p - a mod p) mod p = 0" and "(a + p - a mod p) div p = Suc (a div p)"
    using assms by (simp_all only: mod_mult_self2_is_0 mod_mult_self1_is_0 nonzero_mult_div_cancel_right neq0_conv)
qed

lemma round_up_one_page:
  assumes "round_up_to_pagesize x sz s = (y, s')" and "y = Done m \<or> y = Exit m" and "page_ok x"
    and "0 < unat sz" and "unat sz \<le> 2 ^ 63" and "\<not> m div get_page_size x > 1"
  shows "m = get_page_size x \<and> unat sz \<le> unat (get_page_size x)"
proof -
  let ?P = "get_page_size x"
  have P: "0 < unat ?P" "unat ?P \<le> 2 ^ 32" using assms(3) by (auto simp: page_ok_def)
  have P0: "?P \<noteq> 0" using P(1) by (simp add: unat_gt_0)
  have m1: "unat m div unat ?P \<le> 1"
    using assms(6) by (simp add: word_less_nat_alt unat_div not_less)
  show ?thesis
  proof (cases "sz mod ?P = 0")
    case True
    then have "m = sz" using assms(1,2) P0
      by (auto simp: round_up_to_pagesize_def Let_def bnd_def guardM_def whenM_def exit_with_def)
    moreover have "unat sz mod unat ?P = 0" using True by (metis unat_0 unat_mod)
    ultimately have "unat m = unat ?P" using one_page_nat [OF P(1) m1] assms(4) by simp
    then show ?thesis using \<open>m = sz\<close> by (simp add: word_unat_eq_iff)
  next
    case False
    then have m: "m = sz + ?P - sz mod ?P" using assms(1,2) P0
      by (auto simp: round_up_to_pagesize_def Let_def bnd_def guardM_def whenM_def ret_def expect_def
          assertM_def split: if_splits)
    have "unat (sz mod ?P) \<le> unat sz + unat ?P"
      by (simp add: unat_mod trans_le_add1)
    moreover have "unat (sz + ?P) = unat sz + unat ?P" using assms(5) P(2) by (intro unat_u64_add) simp
    ultimately have m': "unat m = unat sz + unat ?P - unat sz mod unat ?P"
      unfolding m by (subst unat_sub) (simp_all add: word_le_nat_alt unat_mod)
    then have "unat sz div unat ?P = 0" using m1 round_up_nat(2) [OF P(1), of "unat sz"] by simp
    moreover have "unat m = unat ?P"
      using one_page_nat [OF P(1) m1] round_up_nat(1) [OF P(1), of "unat sz"] m' P(1) 
      by (metis add_gr_0 diff_is_0_eq mod_le_divisor not_gr0 not_less add.commute add_le_imp_le_diff)
    ultimately show ?thesis using P(1) by (simp add: word_unat_eq_iff div_eq_0_iff less_imp_le)
  qed
qed

text \<open>
  A buffer that was allocated lies in one page that was registered with the device, after the
  offset that was asked for.
\<close>

lemma alloc_buffer_Done:
  assumes "alloc_buffer x fpga sz ws0 io0 aa w = (Done (p, ws, io), w')"
    and "page_ok x" and "0 < unat sz" and "unat sz \<le> 2 ^ 63" and "unat aa \<le> 2 ^ 32"
  shows "\<exists>q huge h. EvPrepare q \<in> set (evs w') \<and> q = fst (x_mmap x (get_page_size x) huge h)
    \<and> p = q + of_nat (unat aa * 4096) \<and> unat aa * 4096 + unat sz \<le> unat (get_page_size x)"
proof -
  let ?P = "get_page_size x" and ?off = "aa * llc_anti_aliasing_offset"
  have "\<exists>m s1 q h pr s2. call (round_up_to_pagesize x sz) w = (Done m :: (u64 \<times> u64 \<times> u64, _) outcome, s1)
      \<and> \<not> m div ?P > 1 \<and> x_mmap x m enable_hugepages (hw s1) = (q, h)
      \<and> call (bnd (prepare_pages x fpga ?P q 0 (unat (m div ?P)) ws0) (\<lambda>w. ret (Some w)))
          (s1\<lparr>hw := h\<rparr>) = (Done pr :: (u64 \<times> u64 \<times> u64, _) outcome, s2)
      \<and> evs w' = evs s2 \<and> pr \<noteq> None \<and> \<not> sz + ?off > m \<and> p = q + ?off"
    using assms(1) unfolding alloc_buffer_def Let_def
    by (auto simp: bnd_Done xcall_Done whenM_exit_Done exit_with_Done ret_Done expect_Done fpgaGetIOAddress_def
        split: prod.splits option.splits)
  then obtain m s1 q h pr s2 where r: "call (round_up_to_pagesize x sz) w = (Done m :: (u64 \<times> u64 \<times> u64, _) outcome, s1)"
    and m: "\<not> m div ?P > 1" and q: "x_mmap x m enable_hugepages (hw s1) = (q, h)"
    and prep: "call (bnd (prepare_pages x fpga ?P q 0 (unat (m div ?P)) ws0) (\<lambda>w. ret (Some w)))
          (s1\<lparr>hw := h\<rparr>) = (Done pr :: (u64 \<times> u64 \<times> u64, _) outcome, s2)"
    and s2: "evs w' = evs s2" "pr \<noteq> None" and fits: "\<not> sz + ?off > m" and p: "p = q + ?off"
    by blast
  obtain y where "round_up_to_pagesize x sz w = (y, s1)" "y = Done m \<or> y = Exit m"
    using r by (auto simp: call_Done)
  from round_up_one_page [OF this assms(2-4) m]
  have mP: "m = ?P" and sz: "unat sz \<le> unat ?P" by auto
  have P: "0 < unat ?P" "unat ?P \<le> 2 ^ 32" using assms(2) by (auto simp: page_ok_def)
  have "EvPrepare q \<in> set (evs s2)"
  proof -
    have "unat (m div ?P) = 1" using P(1) by (simp add: mP unat_div)
    then show ?thesis using prep s2(2)
      by (auto simp: call_Done bnd_Done ret_Done fpgaPrepareBuffer_def xcall_def bnd_def whenM_def exit_with_def
          ret_def split: prod.splits if_splits outcome.splits)
  qed
  moreover have off: "?off = of_nat (unat aa * 4096)" by (simp add: cfg_defs)
  moreover have "unat aa * 4096 + unat sz \<le> unat ?P"
  proof -
    have "unat aa * 4096 < 2 ^ 64" using assms(5) by simp
    then have "unat ?off = unat aa * 4096" unfolding off by (rule unat_u64_of_nat)
    moreover have "unat (sz + ?off) = unat sz + unat ?off"
      using calculation assms(4,5) by (intro unat_u64_add) simp
    ultimately show ?thesis using fits by (simp add: mP word_less_nat_alt)
  qed
  ultimately show ?thesis using q p s2(1) unfolding mP by (metis fst_conv)
qed

text \<open>A failed allocation returns the null pointer.\<close>

definition exits_only :: "('r \<Rightarrow> bool) \<Rightarrow> ('s, 'r, 'a) body \<Rightarrow> bool" where
  "exits_only S m \<longleftrightarrow> (\<forall>s r. fst (m s) = Exit r \<longrightarrow> S r)"

lemma exits_only_never: "never_exits m \<Longrightarrow> exits_only S m"
  by (simp add: exits_only_def never_exits_def)

lemma exits_only_basic:
  "exits_only S (call m)" "exits_only S (xcall es f)" "exits_only S (expect b)" "exits_only S (ret a)"
  by (intro exits_only_never aux_rules)+

lemma exits_only_exit: "S r \<Longrightarrow> exits_only S (exit_with r)" "S r \<Longrightarrow> exits_only S (whenM b (exit_with r))"
  by (simp_all add: exits_only_def whenM_def exit_with_def ret_def)

lemma exits_only_bnd:
  assumes "exits_only S m" and "\<And>a. exits_only S (g a)"
  shows "exits_only S (bnd m g)"
  unfolding exits_only_def
proof (intro allI impI)
  fix s r
  assume r: "fst (bnd m g s) = Exit r"
  obtain y s1 where m: "m s = (y, s1)" by (metis surj_pair)
  have "fst (m s) = Exit r \<Longrightarrow> S r" and "fst (g a s1) = Exit r \<Longrightarrow> S r" for a
    using assms unfolding exits_only_def by blast+
  then show "S r" using r m by (cases y) (auto simp: bnd_def)
qed

lemma exits_only_splits:
  "(\<And>a b. exits_only S (g a b)) \<Longrightarrow> exits_only S (case p of (a, b) \<Rightarrow> g a b)"
  "exits_only S n \<Longrightarrow> (\<And>a. exits_only S (f a)) \<Longrightarrow> exits_only S (case v of None \<Rightarrow> n | Some a \<Rightarrow> f a)"
  by (simp_all split: prod.split option.split)

lemma alloc_buffer_Exit: "alloc_buffer x fpga sz ws0 io0 aa w = (Exit r, w') \<Longrightarrow> fst r = 0"
proof -
  have "exits_only (\<lambda>r. fst r = 0) (alloc_buffer x fpga sz ws0 io0 aa)"
    unfolding alloc_buffer_def Let_def fpgaGetIOAddress_def
    by (intro exits_only_bnd exits_only_splits exits_only_exit exits_only_basic fst_conv)
  moreover assume "alloc_buffer x fpga sz ws0 io0 aa w = (Exit r, w')"
  then have "fst (alloc_buffer x fpga sz ws0 io0 aa w) = Exit r" by simp
  ultimately show "fst r = 0" unfolding exits_only_def by blast
qed

section \<open>Regions of the flows\<close>

text \<open>
  The contract between a nic and the queues: while the nic is \<open>ready\<close>, every flow has a transmit and
  a receive region of eight cache lines, all inside the shared \<open>region\<close> and without overlap. The
  lemmas are about the transmit ring of a flow.
\<close>

lemma tx_send_outside:
  assumes "fresh_tx buff 64 l q" and "\<And>p. p \<in> set ps \<Longrightarrow> pckt_wf p" and "a \<notin> bytes_at buff (64 * 2 ^ unat l)"
  shows "fst (fold tx_send ps (m, (tx_advance () ^^ k) q)) a = m a"
  using assms(2)
proof (induction ps arbitrary: m k)
  case (Cons p ps)
  let ?i = "k mod 2 ^ unat l" and ?p = "stamped (2 ^ unat l) k p"
  have l: "(2 :: nat) ^ unat l \<le> 2 ^ 30" using assms(1) by (intro power_increasing) (simp_all add: fresh_tx_def)
  have "?i < 2 ^ unat l" by (rule mod_less_divisor) simp
  then have i: "?i * 64 + 64 \<le> 64 * 2 ^ unat l" by linarith
  have "bytes_at (buff + of_nat (?i * 64)) 64 \<subseteq> bytes_at buff (64 * 2 ^ unat l)"
    by (rule bytes_at_inside [OF i]) (use l in simp)
  then have "a \<notin> bytes_at (buff + of_nat (?i * 64)) 64" using assms(3) by blast
  then have "64 \<le> unat (a - (buff + of_nat ?i * 64))" by (simp add: bytes_at_def not_less)
  moreover have "length (pckt_bytes 0 ?p) = 64"
    using Cons.prems length_pckt_bytes [of ?p 0] by (simp add: cfg_defs)
  ultimately have "write_pckt m (buff + of_nat ?i * 64) 0 ?p a = m a"
    unfolding write_pckt_def by (intro store_bytes_outside) simp
  then show ?case
    using Cons.IH [of "write_pckt m (buff + of_nat ?i * 64) 0 ?p" "Suc k"] Cons.prems tx_send_nth [OF assms(1), of p m k]
    by simp
qed simp

definition flow_regions :: "u64 \<Rightarrow> (u64 \<Rightarrow> u64) \<Rightarrow> (u64 \<Rightarrow> u64) \<Rightarrow> u64 set \<Rightarrow> bool" where
  "flow_regions n tx rx R \<longleftrightarrow>
     (\<forall>i<n. bytes_at (tx i) 512 \<subseteq> R \<and> bytes_at (rx i) 512 \<subseteq> R) \<and>
     (\<forall>i<n. \<forall>j<n. bytes_at (tx i) 512 \<inter> bytes_at (rx j) 512 = {}) \<and>
     (\<forall>i<n. \<forall>j<n. i \<noteq> j \<longrightarrow> bytes_at (tx i) 512 \<inter> bytes_at (tx j) 512 = {}
        \<and> bytes_at (rx i) 512 \<inter> bytes_at (rx j) 512 = {})"

locale flow_nic =
  fixes ready :: "'n \<Rightarrow> bool" and flows :: "'n \<Rightarrow> u64" and region :: "'n \<Rightarrow> u64 set"
    and tx rx :: "'n \<Rightarrow> u64 \<Rightarrow> u64"
  assumes inside: "ready n \<Longrightarrow> i < flows n \<Longrightarrow> bytes_at (tx n i) 512 \<subseteq> region n \<and> bytes_at (rx n i) 512 \<subseteq> region n"
    and tx_tx: "ready n \<Longrightarrow> i < flows n \<Longrightarrow> j < flows n \<Longrightarrow> i \<noteq> j \<Longrightarrow> bytes_at (tx n i) 512 \<inter> bytes_at (tx n j) 512 = {}"
    and rx_rx: "ready n \<Longrightarrow> i < flows n \<Longrightarrow> j < flows n \<Longrightarrow> i \<noteq> j \<Longrightarrow> bytes_at (rx n i) 512 \<inter> bytes_at (rx n j) 512 = {}"
    and tx_rx: "ready n \<Longrightarrow> i < flows n \<Longrightarrow> j < flows n \<Longrightarrow> bytes_at (tx n i) 512 \<inter> bytes_at (rx n j) 512 = {}"
begin

lemma regions: "ready n \<Longrightarrow> region n \<subseteq> R \<Longrightarrow> flow_regions (flows n) (tx n) (rx n) R"
  unfolding flow_regions_def using inside tx_tx rx_rx tx_rx by (meson order_trans)

lemma send_isolated:
  assumes "ready n" and "i < flows n" and "fresh_tx (tx n i) 64 l_tx_queue_size q"
    and "\<And>p. p \<in> set ps \<Longrightarrow> pckt_wf p"
  shows "\<forall>a. (a \<notin> region n \<or> (\<exists>j < flows n. a \<in> bytes_at (rx n j) 512)
      \<or> (\<exists>j < flows n. j \<noteq> i \<and> a \<in> bytes_at (tx n j) 512))
    \<longrightarrow> fst (fold tx_send ps (m, (tx_advance () ^^ k) q)) a = m a"
proof (intro allI impI)
  fix a
  assume "a \<notin> region n \<or> (\<exists>j < flows n. a \<in> bytes_at (rx n j) 512)
      \<or> (\<exists>j < flows n. j \<noteq> i \<and> a \<in> bytes_at (tx n j) 512)"
  then have "a \<notin> bytes_at (tx n i) 512"
    using inside [OF assms(1,2)] tx_rx [OF assms(1,2)] tx_tx [OF assms(1,2)] by blast
  then show "fst (fold tx_send ps (m, (tx_advance () ^^ k) q)) a = m a"
    by (intro tx_send_outside [OF assms(3,4)]) (simp_all add: cfg_defs)
qed

end

text \<open>Two arrays of equal queues, one after the other.\<close>

lemma two_arrays:
  assumes "i < n" and "j < n" and "unat n * 1024 \<le> 2 ^ 64"
  shows "bytes_at (p + i * 512) 512 \<subseteq> bytes_at p (unat n * 1024)"
    and "bytes_at (p + n * 512 + i * 512) 512 \<subseteq> bytes_at p (unat n * 1024)"
    and "i \<noteq> j \<Longrightarrow> bytes_at (p + i * 512) 512 \<inter> bytes_at (p + j * 512) 512 = {}"
    and "i \<noteq> j \<Longrightarrow> bytes_at (p + n * 512 + i * 512) 512 \<inter> bytes_at (p + n * 512 + j * 512) 512 = {}"
    and "bytes_at (p + i * 512) 512 \<inter> bytes_at (p + n * 512 + j * 512) 512 = {}"
proof -
  have ij: "unat i < unat n" "unat j < unat n" using assms by (simp_all add: word_less_nat_alt)
  have tx: "p + c * 512 = p + of_nat (unat c * 512)" for c :: u64 by simp
  have rx: "p + n * 512 + c * 512 = p + of_nat (unat n * 512 + unat c * 512)" for c :: u64 by (simp add: add.assoc)
  have mem: "x \<in> bytes_at (p + of_nat off) 512 \<longleftrightarrow> off \<le> unat (x - p) \<and> unat (x - p) < off + 512"
    if "off + 512 \<le> unat n * 1024" for off x
    using that assms(3) by (intro bytes_at_offset) linarith
  have fit: "unat i * 512 + 512 \<le> unat n * 1024" "unat j * 512 + 512 \<le> unat n * 1024"
    "unat n * 512 + unat i * 512 + 512 \<le> unat n * 1024" "unat n * 512 + unat j * 512 + 512 \<le> unat n * 1024"
    using ij by linarith+
  show "bytes_at (p + i * 512) 512 \<subseteq> bytes_at p (unat n * 1024)"
    unfolding tx by (rule bytes_at_inside [OF fit(1) assms(3)])
  show "bytes_at (p + n * 512 + i * 512) 512 \<subseteq> bytes_at p (unat n * 1024)"
    unfolding rx by (rule bytes_at_inside [OF fit(3) assms(3)])
  show "bytes_at (p + i * 512) 512 \<inter> bytes_at (p + n * 512 + j * 512) 512 = {}"
    unfolding rx unfolding tx set_eq_iff Int_iff mem [OF fit(1)] mem [OF fit(4)] using ij by (auto simp del: of_nat_add)
  assume "i \<noteq> j"
  then have "unat i < unat j \<or> unat j < unat i" by (metis linorder_neqE_nat word_unat_eq_iff)
  then show "bytes_at (p + i * 512) 512 \<inter> bytes_at (p + j * 512) 512 = {}"
    and "bytes_at (p + n * 512 + i * 512) 512 \<inter> bytes_at (p + n * 512 + j * 512) 512 = {}"
    unfolding rx unfolding tx set_eq_iff Int_iff mem [OF fit(1)] mem [OF fit(2)] mem [OF fit(3)] mem [OF fit(4)]
    by auto
qed

section \<open>Configured nics\<close>

definition polling_ready :: "NicPollingCCIP \<Rightarrow> bool" where
  "polling_ready n \<longleftrightarrow> pl_tx_offset_bytes n = 0 \<and> pl_rx_offset_bytes n = pl_num_of_flows n * 512
     \<and> pl_tx_queue_size_bytes n = 512 \<and> pl_rx_queue_size_bytes n = 512
     \<and> unat (pl_num_of_flows n) * 1024 \<le> 2 ^ 32"

definition polling_region :: "NicPollingCCIP \<Rightarrow> u64 set" where
  "polling_region n = bytes_at (pl_buf n) (unat (pl_num_of_flows n) * 1024)"

definition dma_ready :: "NicDmaCCIP \<Rightarrow> bool" where
  "dma_ready n \<longleftrightarrow> dm_tx_offset_bytes n = 0 \<and> dm_rx_offset_bytes n = dm_num_of_flows n * 512
     \<and> dm_tx_queue_size_bytes n = 512 \<and> dm_rx_queue_size_bytes n = 512
     \<and> unat (dm_num_of_flows n) * 1024 \<le> 2 ^ 32"

definition dma_region :: "NicDmaCCIP \<Rightarrow> u64 set" where
  "dma_region n = bytes_at (dm_buf n) (unat (dm_num_of_flows n) * 1024)"

interpretation pollingf: flow_nic polling_ready pl_num_of_flows polling_region
  polling_get_tx_flow_buffer polling_get_rx_flow_buffer
proof (unfold_locales, goal_cases)
  case (1 n i)
  then show ?case using two_arrays(1,2) [of i "pl_num_of_flows n" i "pl_buf n"]
    by (simp add: polling_ready_def polling_region_def polling_get_tx_flow_buffer_def polling_get_rx_flow_buffer_def)
next
  case (2 n i j)
  then show ?case using two_arrays(3) [of i "pl_num_of_flows n" j "pl_buf n"]
    by (simp add: polling_ready_def polling_get_tx_flow_buffer_def)
next
  case (3 n i j)
  then show ?case using two_arrays(4) [of i "pl_num_of_flows n" j "pl_buf n"]
    by (simp add: polling_ready_def polling_get_rx_flow_buffer_def)
next
  case (4 n i j)
  then show ?case using two_arrays(5) [of i "pl_num_of_flows n" j "pl_buf n"]
    by (simp add: polling_ready_def polling_get_tx_flow_buffer_def polling_get_rx_flow_buffer_def)
qed

interpretation dmaf: flow_nic dma_ready dm_num_of_flows dma_region
  dma_get_tx_flow_buffer dma_get_rx_flow_buffer
proof (unfold_locales, goal_cases)
  case (1 n i)
  then show ?case using two_arrays(1,2) [of i "dm_num_of_flows n" i "dm_buf n"]
    by (simp add: dma_ready_def dma_region_def dma_get_tx_flow_buffer_def dma_get_rx_flow_buffer_def)
next
  case (2 n i j)
  then show ?case using two_arrays(3) [of i "dm_num_of_flows n" j "dm_buf n"]
    by (simp add: dma_ready_def dma_get_tx_flow_buffer_def)
next
  case (3 n i j)
  then show ?case using two_arrays(4) [of i "dm_num_of_flows n" j "dm_buf n"]
    by (simp add: dma_ready_def dma_get_rx_flow_buffer_def)
next
  case (4 n i j)
  then show ?case using two_arrays(5) [of i "dm_num_of_flows n" j "dm_buf n"]
    by (simp add: dma_ready_def dma_get_tx_flow_buffer_def dma_get_rx_flow_buffer_def)
qed

lemma queue_512: "queue_bytes l_tx_queue_size = 512" "queue_bytes l_rx_queue_size = 512"
  by (simp_all add: queue_bytes_def get_mtu_size_bytes_def mtu_cls_def cfg_defs)

lemma polling_alloc_Done:
  assumes "polling_alloc_queues x aa (n, w) = (Done u, s')"
  shows "\<exists>p ws pa w'. alloc_buffer x (accel_handle n) (pl_num_of_flows n * 512 + pl_num_of_flows n * 512)
      (pl_wsid n) (pl_buf_pa n) aa w = (Done (p, ws, pa), w') \<and> p \<noteq> 0
    \<and> s' = (n\<lparr>pl_tx_queue_size_bytes := 512, pl_tx_buff_size_bytes := pl_num_of_flows n * 512,
        pl_rx_queue_size_bytes := 512, pl_rx_buff_size_bytes := pl_num_of_flows n * 512,
        pl_buf := p, pl_wsid := ws, pl_buf_pa := pa, pl_tx_offset_bytes := 0,
        pl_rx_offset_bytes := pl_num_of_flows n * 512\<rparr>, w')"
  using assms unfolding polling_alloc_queues_def Let_def queue_512
  by (auto simp: done_simps dest: alloc_buffer_Exit)

lemma polling_configure_Done:
  assumes "polling_configure_data_plane x aa (n, w) = (Done r, (n', w'))"
    and "page_ok x" and "0 < pl_num_of_flows n" and "pl_num_of_flows n \<le> 2 ^ 32" and "aa \<le> 2 ^ 32"
  shows "r = 0 \<and> dp_configured n' \<and> pl_num_of_flows n' = pl_num_of_flows n \<and> polling_ready n'
    \<and> unat aa * 4096 + unat (pl_num_of_flows n) * 1024 \<le> unat (get_page_size x)
    \<and> (\<exists>q. EvPrepare q \<in> set (evs w') \<and> polling_region n' \<subseteq> bytes_at q (unat (get_page_size x)))
    \<and> (\<exists>es. evs w' = es @ [EvWrite (base_nic_addr n' + iRegMemTxAddr) (pl_buf_pa (n') div CL 1 + pl_tx_offset_bytes (n') div CL 1),
        EvWrite (base_nic_addr n' + iRegMemRxAddr) (pl_buf_pa (n') div CL 1 + pl_rx_offset_bytes (n') div CL 1),
        EvWrite (base_nic_addr n' + iRegNumOfFlows) (pl_num_of_flows (n')),
        EvWrite (base_nic_addr n' + iRegRxQueueSize) (pl_tx_queue_size_bytes (n') div CL 1),
        EvWrite (base_nic_addr n' + iRegTxQueueSize) (pl_rx_queue_size_bytes (n') div CL 1),
        EvWrite (base_nic_addr n' + iRegPollingRate) polling_rate,
        EvWrite (base_nic_addr n' + lRegTxBatchSize) l_rx_batch_size])"
proof -
  let ?N = "pl_num_of_flows n"
  have N: "unat (?N * 512 + ?N * 512) = unat ?N * 1024"
  proof -
    have "?N * 512 + ?N * 512 = of_nat (unat ?N * 1024)" by simp
    moreover have "unat ?N * 1024 < 2 ^ 64" using assms(4) by (simp add: word_le_nat_alt)
    ultimately show ?thesis using unat_u64_of_nat by metis
  qed
  obtain s1 s2 where a: "polling_alloc_queues x aa s1 = (Done (), s2)" and s1: "fst s1 = n"
    and n': "n' = fst s2\<lparr>dp_configured := True\<rparr>" and r: "r = 0"
    and w': "evs w' = evs (snd s2) @ [EvWrite (base_nic_addr (fst s2) + iRegMemTxAddr) (pl_buf_pa (fst s2) div CL 1 + pl_tx_offset_bytes (fst s2) div CL 1),
        EvWrite (base_nic_addr (fst s2) + iRegMemRxAddr) (pl_buf_pa (fst s2) div CL 1 + pl_rx_offset_bytes (fst s2) div CL 1),
        EvWrite (base_nic_addr (fst s2) + iRegNumOfFlows) (pl_num_of_flows (fst s2)),
        EvWrite (base_nic_addr (fst s2) + iRegRxQueueSize) (pl_tx_queue_size_bytes (fst s2) div CL 1),
        EvWrite (base_nic_addr (fst s2) + iRegTxQueueSize) (pl_rx_queue_size_bytes (fst s2) div CL 1),
        EvWrite (base_nic_addr (fst s2) + iRegPollingRate) polling_rate,
        EvWrite (base_nic_addr (fst s2) + lRegTxBatchSize) l_rx_batch_size]"
    using assms(1) unfolding polling_configure_data_plane_def
    by (auto simp: done_simps split: prod.splits)
  obtain p ws pa w2 where alloc: "alloc_buffer x (accel_handle n) (?N * 512 + ?N * 512) (pl_wsid n) (pl_buf_pa n) aa (snd s1)
      = (Done (p, ws, pa), w2)"
    and s2: "s2 = (n\<lparr>pl_tx_queue_size_bytes := 512, pl_tx_buff_size_bytes := ?N * 512,
        pl_rx_queue_size_bytes := 512, pl_rx_buff_size_bytes := ?N * 512,
        pl_buf := p, pl_wsid := ws, pl_buf_pa := pa, pl_tx_offset_bytes := 0,
        pl_rx_offset_bytes := ?N * 512\<rparr>, w2)"
    using polling_alloc_Done [of x aa n "snd s1"] a s1 by (cases s1) auto
  obtain q huge h where q: "EvPrepare q \<in> set (evs w2)" "q = fst (x_mmap x (get_page_size x) huge h)"
    "p = q + of_nat (unat aa * 4096)" and fits: "unat aa * 4096 + unat ?N * 1024 \<le> unat (get_page_size x)"
    using alloc_buffer_Done [OF alloc assms(2)] assms(3-5) unfolding N
    by (auto simp: word_less_nat_alt word_le_nat_alt)
  have "bytes_at p (unat ?N * 1024) \<subseteq> bytes_at q (unat (get_page_size x))"
    unfolding q(3) by (rule bytes_at_inside [OF fits]) (use assms(2) in \<open>simp add: page_ok_def\<close>)
  moreover have "unat ?N * 1024 \<le> 2 ^ 32" using fits assms(2) by (simp add: page_ok_def)
  ultimately show ?thesis
    using q(1) fits w' by (auto simp: n' r s2 polling_ready_def polling_region_def)
qed

lemma dma_alloc_Done:
  assumes "dma_alloc_queues x aa (n, w) = (Done u, s')"
  shows "\<exists>p ws pa w'. alloc_buffer x (accel_handle n) (dm_num_of_flows n * 512 + dm_num_of_flows n * 512)
      (dm_wsid n) (dm_buf_pa n) aa w = (Done (p, ws, pa), w') \<and> p \<noteq> 0
    \<and> s' = (n\<lparr>dm_tx_queue_size_bytes := 512, dm_tx_buff_size_bytes := dm_num_of_flows n * 512,
        dm_rx_queue_size_bytes := 512, dm_rx_buff_size_bytes := dm_num_of_flows n * 512,
        dm_buf := p, dm_wsid := ws, dm_buf_pa := pa, dm_tx_offset_bytes := 0,
        dm_rx_offset_bytes := dm_num_of_flows n * 512\<rparr>, w')"
  using assms unfolding dma_alloc_queues_def Let_def queue_512
  by (auto simp: done_simps dest: alloc_buffer_Exit)

lemma dma_configure_Done:
  assumes "dma_configure_data_plane x aa (n, w) = (Done r, (n', w'))"
    and "page_ok x" and "0 < dm_num_of_flows n" and "dm_num_of_flows n \<le> 2 ^ 32" and "aa \<le> 2 ^ 32"
  shows "r = 0 \<and> dp_configured n' \<and> dm_num_of_flows n' = dm_num_of_flows n \<and> dma_ready n'
    \<and> unat aa * 4096 + unat (dm_num_of_flows n) * 1024 \<le> unat (get_page_size x)
    \<and> (\<exists>q. EvPrepare q \<in> set (evs w') \<and> dma_region n' \<subseteq> bytes_at q (unat (get_page_size x)))
    \<and> (\<exists>es. evs w' = es @ [EvWrite (base_nic_addr n' + iRegMemTxAddr) (dm_buf_pa (n') div CL 1 + dm_tx_offset_bytes (n') div CL 1),
        EvWrite (base_nic_addr n' + iRegMemRxAddr) (dm_buf_pa (n') div CL 1 + dm_rx_offset_bytes (n') div CL 1),
        EvWrite (base_nic_addr n' + iRegNumOfFlows) (dm_num_of_flows (n')),
        EvWrite (base_nic_addr n' + lRegRxBatchSize) tx_batch_size,
        EvWrite (base_nic_addr n' + lRegTxBatchSize) l_rx_batch_size])"
proof -
  let ?N = "dm_num_of_flows n"
  have N: "unat (?N * 512 + ?N * 512) = unat ?N * 1024"
  proof -
    have "?N * 512 + ?N * 512 = of_nat (unat ?N * 1024)" by simp
    moreover have "unat ?N * 1024 < 2 ^ 64" using assms(4) by (simp add: word_le_nat_alt)
    ultimately show ?thesis using unat_u64_of_nat by metis
  qed
  obtain s1 s2 where a: "dma_alloc_queues x aa s1 = (Done (), s2)" and s1: "fst s1 = n"
    and n': "n' = fst s2\<lparr>dp_configured := True\<rparr>" and r: "r = 0"
    and w': "evs w' = evs (snd s2) @ [EvWrite (base_nic_addr (fst s2) + iRegMemTxAddr) (dm_buf_pa (fst s2) div CL 1 + dm_tx_offset_bytes (fst s2) div CL 1),
        EvWrite (base_nic_addr (fst s2) + iRegMemRxAddr) (dm_buf_pa (fst s2) div CL 1 + dm_rx_offset_bytes (fst s2) div CL 1),
        EvWrite (base_nic_addr (fst s2) + iRegNumOfFlows) (dm_num_of_flows (fst s2)),
        EvWrite (base_nic_addr (fst s2) + lRegRxBatchSize) tx_batch_size,
        EvWrite (base_nic_addr (fst s2) + lRegTxBatchSize) l_rx_batch_size]"
    using assms(1) unfolding dma_configure_data_plane_def
    by (auto simp: done_simps split: prod.splits)
  obtain p ws pa w2 where alloc: "alloc_buffer x (accel_handle n) (?N * 512 + ?N * 512) (dm_wsid n) (dm_buf_pa n) aa (snd s1)
      = (Done (p, ws, pa), w2)"
    and s2: "s2 = (n\<lparr>dm_tx_queue_size_bytes := 512, dm_tx_buff_size_bytes := ?N * 512,
        dm_rx_queue_size_bytes := 512, dm_rx_buff_size_bytes := ?N * 512,
        dm_buf := p, dm_wsid := ws, dm_buf_pa := pa, dm_tx_offset_bytes := 0,
        dm_rx_offset_bytes := ?N * 512\<rparr>, w2)"
    using dma_alloc_Done [of x aa n "snd s1"] a s1 by (cases s1) auto
  obtain q huge h where q: "EvPrepare q \<in> set (evs w2)" "q = fst (x_mmap x (get_page_size x) huge h)"
    "p = q + of_nat (unat aa * 4096)" and fits: "unat aa * 4096 + unat ?N * 1024 \<le> unat (get_page_size x)"
    using alloc_buffer_Done [OF alloc assms(2)] assms(3-5) unfolding N
    by (auto simp: word_less_nat_alt word_le_nat_alt)
  have "bytes_at p (unat ?N * 1024) \<subseteq> bytes_at q (unat (get_page_size x))"
    unfolding q(3) by (rule bytes_at_inside [OF fits]) (use assms(2) in \<open>simp add: page_ok_def\<close>)
  moreover have "unat ?N * 1024 \<le> 2 ^ 32" using fits assms(2) by (simp add: page_ok_def)
  ultimately show ?thesis
    using q(1) fits w' by (auto simp: n' r s2 dma_ready_def dma_region_def)
qed

section \<open>Properties\<close>




text \<open>
  C22. The receive regions of the MMIO nic overlap: the distance between the receive buffers of two
  neighbouring flows is one cache line, but each of them is used as a ring of eight, so the second
  slot that flow \<open>i\<close> polls is the first slot that flow \<open>i + 1\<close> polls.
\<close>

theorem mmio_rx_overlap:
  assumes "fresh_rx (mmio_get_rx_flow_buffer n i) get_mtu_size_bytes l_rx_queue_size q"
    and "fresh_rx (mmio_get_rx_flow_buffer n (i + 1)) get_mtu_size_bytes l_rx_queue_size q'"
  shows "\<exists>ptr last last'. get_read_ptr (rx_advance r q) = (Done (ptr, last) :: (unit, _) outcome)
    \<and> get_read_ptr q' = (Done (ptr, last') :: (unit, _) outcome)"
proof -
  have "mmio_get_rx_flow_buffer n i + 64 = mmio_get_rx_flow_buffer n (i + 1)"
    by (simp add: mmio_get_rx_flow_buffer_def CL_def cfg_defs algebra_simps)
  then have "get_read_ptr (rx_advance r q) = (Done (mmio_get_rx_flow_buffer n (i + 1), - 1) :: (unit, _) outcome)"
    using rx_read_result [OF assms(1), of "[r]"] by (simp add: get_mtu_size_bytes_def mtu_cls_def cfg_defs)
  moreover have "get_read_ptr q' = (Done (mmio_get_rx_flow_buffer n (i + 1), - 1) :: (unit, _) outcome)"
    using rx_read_result [OF assms(2), of "[]"] by (simp add: cfg_defs)
  ultimately show ?thesis by blast
qed

text \<open>
  C23. A failed DMA notification blocks the nic: if the driver refuses the write, the call returns 1
  with the lock still held, and the next notification of a valid flow and bucket locks it again.
\<close>

theorem dma_notify_error_keeps_lock:
  assumes "flow < dm_num_of_flows n" and "bucket < dm_tx_queue_size_bytes n" and "\<not> dm_notification_lock n"
    and "fst (x_WriteMMIO64 x (accel_handle n) (base_nic_addr n + iRegCcipDmaTrg) (flow + bucket) (hw w)) \<noteq> FPGA_OK"
    and "flow' < dm_num_of_flows n" and "bucket' < dm_tx_queue_size_bytes n"
  shows "\<exists>n' w'. dma_notify_nic_of_new_dma x flow bucket (n, w) = (Exit 1, (n', w'))
    \<and> dm_notification_lock n' \<and> fst (dma_notify_nic_of_new_dma x flow' bucket' (n', w'')) = Undef"
proof -
  let ?n = "n\<lparr>dm_notification_lock := True\<rparr>"
  obtain res h where "x_WriteMMIO64 x (accel_handle n) (base_nic_addr n + iRegCcipDmaTrg) (flow + bucket) (hw w) = (res, h)"
    by fastforce
  then have "\<exists>w'. dma_notify_nic_of_new_dma x flow bucket (n, w) = (Exit 1, (?n, w'))"
    using assms(1-4)
    by (simp add: dma_notify_nic_of_new_dma_def run_defs assert_obj_def upd_obj_def nic_write_def get_obj_def
        on_world_def fpgaWriteMMIO64_def xcall_def)
  moreover have "fst (dma_notify_nic_of_new_dma x flow' bucket' (?n, w'')) = Undef"
    using assms(5,6) by (simp add: dma_notify_nic_of_new_dma_def run_defs assert_obj_def)
  ultimately show ?thesis by (metis NicDmaCCIP.select_convs(11) NicDmaCCIP.surjective NicDmaCCIP.update_convs(11))
qed

section \<open>Examples\<close>

definition nic_pl :: NicPollingCCIP where
  "nic_pl = (mk_NicPollingCCIP 5 0 0 0 2 True)\<lparr>connected := True\<rparr>"

definition nic_dm :: NicDmaCCIP where
  "nic_dm = (mk_NicDmaCCIP 5 0 0 0 2 True)\<lparr>connected := True\<rparr>"

lemma page_ok_nic_x: "page_ok nic_x"
  by (simp add: page_ok_def get_page_size_def cfg_defs nic_x_def quiet_def)

lemmas plane_eval = nic_eval nic_example nic_pl_def nic_dm_def



lemma fresh_tx_at: "buff \<noteq> 0 \<Longrightarrow> \<exists>q. fresh_tx buff 64 3 q"
  by (auto simp: fresh_tx_def mk_TxQueue_def TxQueue_init_def int_one_shl_small
      intro!: exI [of _ "\<lambda>_ _. True"])

lemma fresh_rx_at: "buff \<noteq> 0 \<Longrightarrow> \<exists>q. fresh_rx buff 64 3 q"
  by (auto simp: fresh_rx_def mk_RxQueue_def RxQueue_init_def int_one_shl_small
      intro!: exI [of _ "\<lambda>_ _. True"])


theorem mmio_rx_overlap_witness:
  "\<exists>q q' ptr last last'. fresh_rx (mmio_get_rx_flow_buffer (mk_NicMmioCCIP 0 0 0 0 0 0 2 True) 1) get_mtu_size_bytes l_rx_queue_size q
    \<and> get_read_ptr (rx_advance 7 q) = (Done (ptr, last) :: (unit, _) outcome)
    \<and> get_read_ptr q' = (Done (ptr, last') :: (unit, _) outcome)"
proof -
  let ?n = "mk_NicMmioCCIP 0 0 0 0 0 0 2 True"
  have "mmio_get_rx_flow_buffer ?n 1 \<noteq> 0" "mmio_get_rx_flow_buffer ?n (1 + 1) \<noteq> 0"
    by (simp_all add: mmio_get_rx_flow_buffer_def mk_NicMmioCCIP_def NicCCIP.extend_def mk_NicCCIP_def CL_def cfg_defs)
  then obtain q q' where q: "fresh_rx (mmio_get_rx_flow_buffer ?n 1) get_mtu_size_bytes l_rx_queue_size q"
    "fresh_rx (mmio_get_rx_flow_buffer ?n (1 + 1)) get_mtu_size_bytes l_rx_queue_size q'"
    using fresh_rx_at unfolding get_mtu_size_bytes_def mtu_cls_def cfg_defs mult_1 by metis
  then show ?thesis using mmio_rx_overlap [OF q, of 7] by blast
qed

theorem dma_notify_error_keeps_lock_witness:
  "\<exists>n' w'. dma_notify_nic_of_new_dma (quiet\<lparr>x_WriteMMIO64 := \<lambda>_ _ _ h. (FPGA_BUSY, h)\<rparr>) 1 3
      (nic_dm\<lparr>dm_tx_queue_size_bytes := 512\<rparr>, nic_w0) = (Exit 1, (n', w'))
    \<and> dm_notification_lock n'
    \<and> fst (dma_notify_nic_of_new_dma (quiet\<lparr>x_WriteMMIO64 := \<lambda>_ _ _ h. (FPGA_BUSY, h)\<rparr>) 0 0 (n', nic_w0)) = Undef"
  by (rule dma_notify_error_keeps_lock)
    (simp_all add: nic_dm_def mk_NicDmaCCIP_def NicCCIP.extend_def mk_NicCCIP_def quiet_def)

end
