(* ===== verification/Rpc_Runtime.thy ===== *)
theory Rpc_Runtime
  imports Rpc_Server Nic_Buffers
begin

text \<open>
  The objects an application holds: the non-blocking client (\<^verbatim>\<open>rpc_client_nonblocking_base\<close>), the pool of
  clients (\<^verbatim>\<open>rpc_client_pool.h\<close>) and the threaded server (\<^verbatim>\<open>rpc_threaded_server\<close>). Pool and server own a
  nic of any of the three kinds. The lemmas show that their flag agrees with the stage of the nic and that
  clients get flows, and so buffers, of their own.
\<close>

section \<open>Environment\<close>

text \<open>A kind of nic: its virtual methods, constructor, destructor and accessors.\<close>

record ('m, 'h) nic_kind =
  nk_class :: "('m, 'h) nic_class"
  nk_new :: "u64 \<Rightarrow> u64 \<Rightarrow> bool \<Rightarrow> 'm NicCCIP_scheme"
  nk_delete :: "('m, 'h, unit) nic_method"
  nk_flows :: "'m NicCCIP_scheme \<Rightarrow> nic_flows"
  nk_mmio :: bool

definition polling_kind :: "u64 \<Rightarrow> u64 \<Rightarrow> u64 \<Rightarrow> 'h opae \<Rightarrow> (_, 'h) nic_kind" where
  "polling_kind h ws pa x = \<lparr>nk_class = polling_class x, nk_new = mk_NicPollingCCIP h ws pa,
     nk_delete = NicPollingCCIP_dtor x,
     nk_flows = (\<lambda>n. \<lparr>nf_tx_flow_buffer = polling_get_tx_flow_buffer n, nf_rx_flow_buffer = polling_get_rx_flow_buffer n,
       nf_mtu_size_bytes = get_mtu_size_bytes\<rparr>), nk_mmio = False\<rparr>"

definition dma_kind :: "u64 \<Rightarrow> u64 \<Rightarrow> u64 \<Rightarrow> 'h opae \<Rightarrow> (_, 'h) nic_kind" where
  "dma_kind h ws pa x = \<lparr>nk_class = dma_class x, nk_new = mk_NicDmaCCIP h ws pa, nk_delete = NicDmaCCIP_dtor x,
     nk_flows = (\<lambda>n. \<lparr>nf_tx_flow_buffer = dma_get_tx_flow_buffer n, nf_rx_flow_buffer = dma_get_rx_flow_buffer n,
       nf_mtu_size_bytes = get_mtu_size_bytes\<rparr>), nk_mmio = False\<rparr>"

definition mmio_kind :: "u64 \<Rightarrow> u64 \<Rightarrow> u64 \<Rightarrow> u64 \<Rightarrow> u64 \<Rightarrow> 'h opae \<Rightarrow> (_, 'h) nic_kind" where
  "mmio_kind h ws pa tx sz x = \<lparr>nk_class = mmio_class x l_tx_queue_size, nk_new = mk_NicMmioCCIP h ws pa tx sz,
     nk_delete = NicMmioCCIP_dtor x,
     nk_flows = (\<lambda>n. \<lparr>nf_tx_flow_buffer = mmio_get_tx_flow_buffer n, nf_rx_flow_buffer = mmio_get_rx_flow_buffer n,
       nf_mtu_size_bytes = get_mtu_size_bytes\<rparr>), nk_mmio = True\<rparr>"

text \<open>
  The build (kind of nic, physical network, simulation) and the system (OPAE, C library). \<open>rt_stack\<close> is
  what the stack holds where an address is parsed.
\<close>

record ('m, 'h) rt_env =
  rt_kind :: "('m, 'h) nic_kind"
  rt_x :: "'h opae"
  rt_uuid :: string
  rt_phy :: bool
  rt_ase :: bool
  rt_inet_pton :: "string \<Rightarrow> u32 \<Rightarrow> u32"
  rt_stack :: u32
  rt_page_size :: nat
  rt_aligned_alloc :: "nat \<Rightarrow> nat \<Rightarrow> bool"

section \<open>Owners of a nic\<close>

text \<open>The members pool and server have in common; the size is the number of clients or of threads.\<close>

record 'm nic_owner =
  ow_size :: u64
  ow_base_nic_addr :: u64
  ow_nic :: "'m NicCCIP_scheme option"
  ow_nic_is_started :: bool

text \<open>A call through the pointer to the nic, which is null before \<^verbatim>\<open>init_nic\<close>.\<close>

definition on_nic :: "('m, 'h) rt_env \<Rightarrow> nic_call \<Rightarrow> (('m, 'z) nic_owner_scheme \<times> 'h world, 'r, int) body" where
  "on_nic e c = (\<lambda>(p, w). case ow_nic p of
     None \<Rightarrow> (Undef, (p, w))
   | Some n \<Rightarrow> (case call (nic_do (nk_class (rt_kind e)) (rt_x e) (rt_uuid e) (rt_phy e) c) (n, w) of
       (y, (n', w')) \<Rightarrow> (y, (p\<lparr>ow_nic := Some n'\<rparr>, w'))))"

text \<open>Assigning a new nic to the pointer deletes the one it owned.\<close>

definition new_nic :: "('m, 'h) rt_env \<Rightarrow> bool \<Rightarrow> (('m, 'z) nic_owner_scheme \<times> 'h world, 'r, unit) body" where
  "new_nic e master = (\<lambda>(p, w).
     let p' = p\<lparr>ow_nic := Some (nk_new (rt_kind e) (ow_base_nic_addr p) (ow_size p) master)\<rparr> in
     case ow_nic p of
       None \<Rightarrow> (Done (), (p', w))
     | Some n \<Rightarrow> (case nk_delete (rt_kind e) (n, w) of
         (Abort, (_, w')) \<Rightarrow> (Abort, (p', w'))
       | (Undef, (_, w')) \<Rightarrow> (Undef, (p', w'))
       | (_, (_, w')) \<Rightarrow> (Done (), (p', w'))))"

definition init_nic_with ::
  "('m, 'h) rt_env \<Rightarrow> bool \<Rightarrow> u64 \<Rightarrow> PhyAddr \<Rightarrow> IPv4 \<Rightarrow> int \<Rightarrow> (('m, 'z) nic_owner_scheme \<times> 'h world, int, int) body" where
  "init_nic_with e master llc_anti_aliasing cl_phy_addr cl_ipv4_addr bus =
     bnd (new_nic e master) (\<lambda>_.
     bnd (on_nic e (Connect bus)) (\<lambda>res.
     bnd (whenM (res \<noteq> 0) (exit_with res)) (\<lambda>_.
     bnd (on_nic e (Configure llc_anti_aliasing)) (\<lambda>res.
     bnd (whenM (res \<noteq> 0) (exit_with res)) (\<lambda>_.
     bnd (on_nic e (Initialize cl_phy_addr cl_ipv4_addr)) (\<lambda>res.
     bnd (whenM (res \<noteq> 0) (exit_with res)) (\<lambda>_.
     ret 0)))))))"

definition start_owned :: "('m, 'h) rt_env \<Rightarrow> (('m, 'z) nic_owner_scheme \<times> 'h world, int, int) body" where
  "start_owned e =
     bnd (on_nic e Start) (\<lambda>res.
     bnd (whenM (res \<noteq> 0) (exit_with res)) (\<lambda>_.
     bnd (upd_obj (\<lambda>p. p\<lparr>ow_nic_is_started := True\<rparr>)) (\<lambda>_.
     ret 0)))"

definition stop_owned :: "('m, 'h) rt_env \<Rightarrow> (('m, 'z) nic_owner_scheme \<times> 'h world, int, int) body" where
  "stop_owned e =
     bnd (on_nic e Stop) (\<lambda>res.
     bnd (whenM (res \<noteq> 0) (exit_with res)) (\<lambda>_.
     bnd (upd_obj (\<lambda>p. p\<lparr>ow_nic_is_started := False\<rparr>)) (\<lambda>_.
     ret 0)))"

section \<open>Client\<close>

record RpcClientNonBlock =
  cl_client_id :: u16
  cl_nic_flow_id :: u64
  cl_tx_queue :: TxQueue
  cl_rpc_id_cnt :: u16
  cl_c_id :: ConnectionId
  cl_cq :: CompletionQueue

text \<open>\<open>raw_c_id\<close> is the value of the connection id before the client is connected.\<close>

definition mk_RpcClientNonBlock ::
  "nat \<Rightarrow> (nat \<Rightarrow> nat \<Rightarrow> bool) \<Rightarrow> bool \<Rightarrow> nic_flows \<Rightarrow> u64 \<Rightarrow> u16 \<Rightarrow> ConnectionId \<Rightarrow> ('r, RpcClientNonBlock) outcome" where
  "mk_RpcClientNonBlock page_size aligned_alloc mmio nf nic_flow_id client_id raw_c_id =
     (if mmio \<and> l_tx_queue_size \<noteq> 0 then Abort
      else case mk_TxQueue (nf_tx_flow_buffer nf nic_flow_id) (nf_mtu_size_bytes nf) l_tx_queue_size of
        None \<Rightarrow> Undef
      | Some t0 \<Rightarrow> (case TxQueue_init page_size aligned_alloc t0 of
          (Done _, t) \<Rightarrow>
            (case mk_CompletionQueue page_size aligned_alloc nic_flow_id (nf_rx_flow_buffer nf nic_flow_id)
                    (nf_mtu_size_bytes nf) of
               Done q0 \<Rightarrow> (case bind_cq q0 of
                   (Done _, q) \<Rightarrow> Done \<lparr>cl_client_id = client_id, cl_nic_flow_id = nic_flow_id, cl_tx_queue = t,
                     cl_rpc_id_cnt = 0, cl_c_id = raw_c_id, cl_cq = q\<rparr>
                 | (Exit r, _) \<Rightarrow> Exit r
                 | (Abort, _) \<Rightarrow> Abort
                 | (Undef, _) \<Rightarrow> Undef)
             | Exit r \<Rightarrow> Exit r
             | Abort \<Rightarrow> Abort
             | Undef \<Rightarrow> Undef)
        | (Exit r, _) \<Rightarrow> Exit r
        | (Abort, _) \<Rightarrow> Abort
        | (Undef, _) \<Rightarrow> Undef))"

definition get_completion_queue :: "RpcClientNonBlock \<Rightarrow> CompletionQueue" where
  "get_completion_queue c = cl_cq c"

text \<open>
  The body of the destructor unbinds the completion queue, while the completion thread takes \<open>n\<close> more steps;
  \<open>None\<close> if it has not ended by then.
\<close>

definition RpcClientNonBlock_dtor ::
  "u32 option \<Rightarrow> memory \<Rightarrow> nat \<Rightarrow> RpcClientNonBlock \<Rightarrow> ((unit, unit) outcome \<times> RpcClientNonBlock) option" where
  "RpcClientNonBlock_dtor tsc m n c =
     map_option (\<lambda>(y, q). (y, c\<lparr>cl_cq := q\<rparr>))
       (unbind_join (((\<lambda>q. case cq_thread q of None \<Rightarrow> q | Some pc \<Rightarrow> cq_step tsc m pc q) ^^ n) (unbind_signal (cl_cq c))))"

section \<open>Client pool\<close>

record 'm RpcClientPool = "'m nic_owner" +
  rpc_client_pool :: "RpcClientNonBlock list"
  rpc_client_cnt :: u64

definition mk_RpcClientPool :: "u64 \<Rightarrow> u64 \<Rightarrow> 'm RpcClientPool" where
  "mk_RpcClientPool base max_pool_size = \<lparr>ow_size = max_pool_size, ow_base_nic_addr = base,
     ow_nic = None, ow_nic_is_started = False, rpc_client_pool = [], rpc_client_cnt = 0\<rparr>"

definition pool_init_nic :: "('m, 'h) rt_env \<Rightarrow> int \<Rightarrow> ('m RpcClientPool \<times> 'h world, int, int) body" where
  "pool_init_nic e bus = init_nic_with e (\<not> rt_ase e) 0
     \<lparr>phy_b0 = 0x1A, phy_b1 = 0x2B, phy_b2 = 0x3C, phy_b3 = 0x4D, phy_b4 = 0x5E, phy_b5 = 0x6D\<rparr>
     (mk_IPv4 (rt_inet_pton e) (rt_stack e) ''192.168.0.1'' 0) bus"

definition pool_start_nic :: "('m, 'h) rt_env \<Rightarrow> ('m RpcClientPool \<times> 'h world, int, int) body" where
  "pool_start_nic e = start_owned e"

definition pool_stop_nic :: "('m, 'h) rt_env \<Rightarrow> ('m RpcClientPool \<times> 'h world, int, int) body" where
  "pool_stop_nic e = stop_owned e"

definition pool_check_hw_errors :: "('m, 'h) rt_env \<Rightarrow> ('m RpcClientPool \<times> 'h world, int, int) body" where
  "pool_check_hw_errors e = on_nic e CheckErrors"

definition pool_run_perf_thread :: "('m, 'h) rt_env \<Rightarrow> ('m RpcClientPool \<times> 'h world, int, int) body" where
  "pool_run_perf_thread e = on_nic e RunPerf"

text \<open>The result is the position of the new client in the pool, or \<open>None\<close> for a null pointer.\<close>

definition pool_pop :: "('m, 'h) rt_env \<Rightarrow> ConnectionId \<Rightarrow> ('m RpcClientPool \<times> 'h world, 'r, nat option) body" where
  "pool_pop e raw_c_id = (\<lambda>(p, w).
     if rpc_client_cnt p < ow_size p then
       (case ow_nic p of
          None \<Rightarrow> (Undef, (p, w))
        | Some n \<Rightarrow> (case mk_RpcClientNonBlock (rt_page_size e) (rt_aligned_alloc e) (nk_mmio (rt_kind e)) (nk_flows (rt_kind e) n)
                (rpc_client_cnt p) (ucast (rpc_client_cnt p)) raw_c_id of
            Done c \<Rightarrow> (Done (Some (length (rpc_client_pool p))),
              (p\<lparr>rpc_client_pool := rpc_client_pool p @ [c], rpc_client_cnt := rpc_client_cnt p + 1\<rparr>, w))
          | Exit r \<Rightarrow> (Exit r, (p, w))
          | Abort \<Rightarrow> (Abort, (p, w))
          | Undef \<Rightarrow> (Undef, (p, w))))
     else (Done None, (p, w)))"

text \<open>The body of the destructor; a failed stop is ignored.\<close>

definition RpcClientPool_dtor :: "('m, 'h) rt_env \<Rightarrow> ('m RpcClientPool \<times> 'h world, unit, unit) body" where
  "RpcClientPool_dtor e =
     bnd (get_obj ow_nic_is_started) (\<lambda>s.
     whenM s (bnd (call (pool_stop_nic e)) (\<lambda>_. ret ())))"

text \<open>Calls on client number \<open>i\<close> of the pool.\<close>

definition client_connect ::
  "('m, 'h) rt_env \<Rightarrow> nat \<Rightarrow> IPv4 \<Rightarrow> ConnectionId \<Rightarrow> ('m RpcClientPool \<times> 'h world, int, int) body" where
  "client_connect e i server_addr cid =
     bnd (upd_obj (\<lambda>p. p\<lparr>rpc_client_pool := (rpc_client_pool p)[i := (rpc_client_pool p ! i)\<lparr>cl_c_id := cid\<rparr>]\<rparr>)) (\<lambda>_.
     bnd (get_obj (\<lambda>p. rpc_client_pool p ! i)) (\<lambda>c.
     on_nic e (AddConn (cl_c_id c) server_addr (ucast (cl_nic_flow_id c)))))"

definition client_disconnect :: "('m, 'h) rt_env \<Rightarrow> nat \<Rightarrow> ('m RpcClientPool \<times> 'h world, int, int) body" where
  "client_disconnect e i =
     bnd (get_obj (\<lambda>p. rpc_client_pool p ! i)) (\<lambda>c.
     on_nic e (CloseConn (cl_c_id c)))"

section \<open>Threaded server\<close>

record 'm RpcThreadedServer = "'m nic_owner" +
  ts_threads :: "RpcServerThread list"
  ts_thread_cnt :: u64

definition rx_tx_anti_aliasing :: u64 where
  "rx_tx_anti_aliasing = (if enable_hugepages then 1 else 0)"

definition mk_RpcThreadedServer :: "u64 \<Rightarrow> u64 \<Rightarrow> 'm RpcThreadedServer" where
  "mk_RpcThreadedServer base max_num_of_threads = \<lparr>ow_size = max_num_of_threads,
     ow_base_nic_addr = base, ow_nic = None, ow_nic_is_started = False, ts_threads = [], ts_thread_cnt = 0\<rparr>"

definition server_init_nic :: "('m, 'h) rt_env \<Rightarrow> int \<Rightarrow> ('m RpcThreadedServer \<times> 'h world, int, int) body" where
  "server_init_nic e bus = init_nic_with e True rx_tx_anti_aliasing
     \<lparr>phy_b0 = 0x1A, phy_b1 = 0x2B, phy_b2 = 0x3C, phy_b3 = 0x4D, phy_b4 = 0x5E, phy_b5 = 0xFF\<rparr>
     (mk_IPv4 (rt_inet_pton e) (rt_stack e) ''192.168.0.2'' 0) bus"

definition server_start_nic :: "('m, 'h) rt_env \<Rightarrow> ('m RpcThreadedServer \<times> 'h world, int, int) body" where
  "server_start_nic e = start_owned e"

definition server_stop_nic :: "('m, 'h) rt_env \<Rightarrow> ('m RpcThreadedServer \<times> 'h world, int, int) body" where
  "server_stop_nic e = stop_owned e"

definition server_check_hw_errors :: "('m, 'h) rt_env \<Rightarrow> ('m RpcThreadedServer \<times> 'h world, int, int) body" where
  "server_check_hw_errors e = on_nic e CheckErrors"

text \<open>
  A thread that cannot be pinned is destroyed while it runs. \<open>pin\<close> says whether the system pins a thread.
\<close>

definition run_new_listening_thread ::
  "('m, 'h) rt_env \<Rightarrow> (int \<Rightarrow> bool) \<Rightarrow> int \<Rightarrow> ('m RpcThreadedServer \<times> 'h world, 'r, int) body" where
  "run_new_listening_thread e pin pin_cpu = (\<lambda>(p, w).
     if ts_thread_cnt p < ow_size p then
       (case ow_nic p of
          None \<Rightarrow> (Undef, (p, w))
        | Some n \<Rightarrow> (case mk_RpcServerThread (rt_page_size e) (rt_aligned_alloc e) (nk_flows (rt_kind e) n)
                (ts_thread_cnt p) (ucast (ts_thread_cnt p)) of
            Done t \<Rightarrow>
              (case start_listening pin pin_cpu t of
                 (Done r, t') \<Rightarrow>
                   if r \<noteq> 0 then
                     (case RpcServerThread_dtor t' of
                        Done _ \<Rightarrow> (Done 1, (p, w))
                      | Abort \<Rightarrow> (Abort, (p, w))
                      | _ \<Rightarrow> (Undef, (p, w)))
                   else (Done 0, (p\<lparr>ts_threads := ts_threads p @ [t'], ts_thread_cnt := ts_thread_cnt p + 1\<rparr>, w))
               | (Exit r, t') \<Rightarrow> (Exit r, (p, w))
               | (Abort, t') \<Rightarrow> (Abort, (p, w))
               | (Undef, t') \<Rightarrow> (Undef, (p, w)))
          | Exit r \<Rightarrow> (Exit r, (p, w))
          | Abort \<Rightarrow> (Abort, (p, w))
          | Undef \<Rightarrow> (Undef, (p, w))))
     else (Done 1, (p, w)))"

definition server_connect ::
  "('m, 'h) rt_env \<Rightarrow> IPv4 \<Rightarrow> ConnectionId \<Rightarrow> ConnectionFlowId \<Rightarrow> ('m RpcThreadedServer \<times> 'h world, int, int) body" where
  "server_connect e client_addr cid c_flow_id = on_nic e (AddConn cid client_addr c_flow_id)"

definition server_disconnect :: "('m, 'h) rt_env \<Rightarrow> ConnectionId \<Rightarrow> ('m RpcThreadedServer \<times> 'h world, int, int) body" where
  "server_disconnect e cid = on_nic e (CloseConn cid)"

definition server_run_perf_thread :: "('m, 'h) rt_env \<Rightarrow> ('m RpcThreadedServer \<times> 'h world, int, int) body" where
  "server_run_perf_thread e = on_nic e RunPerf"

definition server_set_lb :: "('m, 'h) rt_env \<Rightarrow> u32 \<Rightarrow> ('m RpcThreadedServer \<times> 'h world, int, int) body" where
  "server_set_lb e lb = on_nic e (SetLb lb)"

text \<open>Stopping the threads one after the other, each of them with \<open>n\<close> more steps.\<close>

fun stop_threads ::
  "nat \<Rightarrow> (u16 \<Rightarrow> server_callback) \<Rightarrow> memory \<Rightarrow> nat \<Rightarrow> RpcServerThread list
    \<Rightarrow> (('r, unit) outcome \<times> RpcServerThread list) option" where
  "stop_threads B cbs m n [] = Some (Done (), [])"
| "stop_threads B cbs m n (t # ts) =
     (case stop_listening B (cbs (sv_thread_id t)) m n t of
        None \<Rightarrow> None
      | Some (Done _, t') \<Rightarrow> map_option (\<lambda>(y, ts'). (y, t' # ts')) (stop_threads B cbs m n ts)
      | Some (y, t') \<Rightarrow> Some (y, t' # ts))"

fun destroy_threads :: "RpcServerThread list \<Rightarrow> (unit, unit) outcome" where
  "destroy_threads [] = Done ()"
| "destroy_threads (t # ts) = (case RpcServerThread_dtor t of Done _ \<Rightarrow> destroy_threads ts | y \<Rightarrow> y)"

definition stop_all_listening_threads ::
  "nat \<Rightarrow> (u16 \<Rightarrow> server_callback) \<Rightarrow> memory \<Rightarrow> nat \<Rightarrow> 'm RpcThreadedServer \<Rightarrow> ((unit, int) outcome \<times> 'm RpcThreadedServer) option" where
  "stop_all_listening_threads B cbs m n p =
     (case stop_threads B cbs m n (ts_threads p) :: ((unit, unit) outcome \<times> _) option of
        None \<Rightarrow> None
      | Some (Done _, ts) \<Rightarrow> (case destroy_threads ts of
            Done _ \<Rightarrow> Some (Done 0, p\<lparr>ts_threads := [], ts_thread_cnt := 0\<rparr>)
          | Abort \<Rightarrow> Some (Abort, p\<lparr>ts_threads := ts\<rparr>)
          | _ \<Rightarrow> Some (Undef, p\<lparr>ts_threads := ts\<rparr>))
      | Some (Abort, ts) \<Rightarrow> Some (Abort, p\<lparr>ts_threads := ts\<rparr>)
      | Some (_, ts) \<Rightarrow> Some (Undef, p\<lparr>ts_threads := ts\<rparr>))"

definition RpcThreadedServer_dtor ::
  "nat \<Rightarrow> (u16 \<Rightarrow> server_callback) \<Rightarrow> memory \<Rightarrow> nat \<Rightarrow> ('m, 'h) rt_env \<Rightarrow> 'm RpcThreadedServer \<times> 'h world
    \<Rightarrow> ((unit, unit) outcome \<times> 'm RpcThreadedServer \<times> 'h world) option" where
  "RpcThreadedServer_dtor B cbs m n e = (\<lambda>(p, w).
     case (if ts_threads p \<noteq> [] then stop_all_listening_threads B cbs m n p else Some (Done 0, p)) of
       None \<Rightarrow> None
     | Some (Done _, p') \<Rightarrow> Some (whenM (ow_nic_is_started p') (bnd (call (server_stop_nic e)) (\<lambda>_. ret ())) (p', w))
     | Some (Abort, p') \<Rightarrow> Some (Abort, (p', w))
     | Some (_, p') \<Rightarrow> Some (Undef, (p', w)))"

text \<open>Calls on a server thread, which reaches the nic of its server.\<close>

definition thread_register_connection ::
  "('m, 'h) rt_env \<Rightarrow> ConnectionId \<Rightarrow> IPv4 \<Rightarrow> ('m RpcThreadedServer \<times> 'h world, int, int) body" where
  "thread_register_connection e cid server_addr = on_nic e (AddConn cid server_addr 0)"

definition thread_remove_connection :: "('m, 'h) rt_env \<Rightarrow> ConnectionId \<Rightarrow> ('m RpcThreadedServer \<times> 'h world, int, int) body" where
  "thread_remove_connection e cid = on_nic e (CloseConn cid)"

section \<open>What the calls leave alone\<close>

text \<open>The methods of the base class do not see the members of a derived class.\<close>

lemma stable_on_conn_manager [stable_rules]: "stable NicCCIP.more (on_conn_manager f)"
  by (simp add: stable_def on_conn_manager_def split: prod.split)

lemmas stable_quiet = stable_rules stable_keeps [OF keeps_on_world] stable_keeps [OF keeps_get_obj]
  stable_keeps [OF keeps_expect] stable_keeps [OF keeps_exit_with] stable_keeps [OF keeps_ret]
  stable_keeps [OF keeps_assert_obj] stable_keeps [OF keeps_nic_cfg] stable_keeps [OF keeps_nic_read]
  stable_keeps [OF keeps_read_status] stable_keeps [OF keeps_wait_status]
  stable_keeps [OF keeps_register_connection] stable_keeps [OF keeps_remove_connection]
  stable_keeps [OF keeps_get_nic_hw_status] stable_keeps [OF keeps_check_hw_errors] stable_keeps [OF keeps_set_lb]

lemma stable_more_connect: "stable NicCCIP.more (connect_to_nic x uuid bus)"
  unfolding connect_to_nic_def by (intro stable_quiet) (simp_all split: sum.split)

lemma stable_more_start: "stable NicCCIP.more (start_nic x)"
  unfolding start_nic_def by (intro stable_quiet) simp

lemma stable_more_stop: "stable NicCCIP.more (stop_nic x)"
  unfolding stop_nic_def stop_perf_def by (intro stable_quiet) simp_all

lemma stable_more_initialize: "stable NicCCIP.more (initialize_nic x phy_build uuid phy ip)"
  unfolding initialize_nic_def check_network_mode_def initialize_phy_network_def by (intro stable_quiet) simp_all

lemma stable_more_perf: "stable NicCCIP.more run_perf_thread"
  unfolding run_perf_thread_def by (intro stable_quiet) simp_all

lemma stable_more_conn:
  "stable NicCCIP.more (nic_open_connection x cid ip flow)" "stable NicCCIP.more (nic_add_connection x cid ip flow)"
  "stable NicCCIP.more (nic_close_connection x cid)"
  unfolding nic_open_connection_def nic_add_connection_def nic_close_connection_def by ((intro stable_quiet)+)

lemmas stable_more = stable_more_connect stable_more_start stable_more_stop stable_more_initialize stable_more_perf
  stable_more_conn

lemma stable_comp: "stable f m \<Longrightarrow> (\<And>n n'. f n = f n' \<Longrightarrow> g n = g n') \<Longrightarrow> stable g m"
  unfolding stable_def by blast

text \<open>The calls a program makes once the nic is set up.\<close>

fun owner_call :: "nic_call \<Rightarrow> bool" where
  "owner_call (Configure _) = False"
| "owner_call (NotifyDma _ _) = False"
| "owner_call _ = True"

lemma stable_nic_do:
  assumes "owner_call c" and "stable NicCCIP.more (vt_start k)" and "stable NicCCIP.more (vt_stop k)"
  shows "stable NicCCIP.more (nic_do k x uuid b c)"
  using assms by (cases c) (auto simp: nic_do_def intro!: stable_quiet stable_more)

lemma stable_more_class:
  "stable NicCCIP.more (polling_start x)" "stable NicCCIP.more (polling_stop x)"
  "stable NicCCIP.more (dma_start x)" "stable NicCCIP.more (dma_stop x)"
  "stable NicCCIP.more (mmio_start x)" "stable NicCCIP.more (mmio_stop x)"
  unfolding polling_start_def polling_stop_def dma_start_def dma_stop_def mmio_start_def mmio_stop_def
  by ((intro stable_quiet stable_more)+)

lemma flows_of_more:
  "NicCCIP.more n = NicCCIP.more n' \<Longrightarrow> nk_flows (polling_kind h ws pa x) n = nk_flows (polling_kind h ws pa x) n'"
  "NicCCIP.more d = NicCCIP.more d' \<Longrightarrow> nk_flows (dma_kind h ws pa x) d = nk_flows (dma_kind h ws pa x) d'"
  "NicCCIP.more m = NicCCIP.more m' \<Longrightarrow> nk_flows (mmio_kind h ws pa tx sz x) m = nk_flows (mmio_kind h ws pa tx sz x) m'"
  by (cases n; cases n'; cases d; cases d'; cases m; cases m';
      simp add: polling_kind_def dma_kind_def mmio_kind_def polling_get_tx_flow_buffer_def polling_get_rx_flow_buffer_def
        dma_get_tx_flow_buffer_def dma_get_rx_flow_buffer_def mmio_get_tx_flow_buffer_def mmio_get_rx_flow_buffer_def fun_eq_iff)+

section \<open>The stage of an owned nic\<close>

text \<open>
  An owner whose nic is set up: the nic is initialised or running, the flag says which, and the flow
  buffers are \<open>nf\<close>.
\<close>

definition own_inv :: "('m, 'h) rt_env \<Rightarrow> nic_flows \<Rightarrow> ('m, 'z) nic_owner_scheme \<Rightarrow> bool" where
  "own_inv e nf p \<longleftrightarrow> (\<exists>n. ow_nic p = Some n \<and> nic_inv n \<and> nk_flows (rt_kind e) n = nf
     \<and> (nic_stage n = Initialized \<or> nic_stage n = Running) \<and> (ow_nic_is_started p \<longleftrightarrow> nic_stage n = Running))"

abbreviation env_do :: "('m, 'h) rt_env \<Rightarrow> nic_call \<Rightarrow> ('m, 'h, int) nic_method" where
  "env_do e c \<equiv> nic_do (nk_class (rt_kind e)) (rt_x e) (rt_uuid e) (rt_phy e) c"

lemma on_nic_Done:
  "on_nic e c (p, w) = (Done r, (p', w')) \<longleftrightarrow>
    (\<exists>n n'. ow_nic p = Some n \<and> call (env_do e c) (n, w) = (Done r :: (unit, _) outcome, (n', w')) \<and> p' = p\<lparr>ow_nic := Some n'\<rparr>)"
  by (auto simp: on_nic_def call_def split: option.splits prod.splits outcome.splits)

locale owned_nic =
  fixes e :: "('m, 'h) rt_env"
  assumes do_follows: "nic_inv n \<Longrightarrow> ends (follows c n) (env_do e c) n"
    and do_flows: "owner_call c \<Longrightarrow> stable (nk_flows (rt_kind e)) (env_do e c)"
    and new_fresh: "unat flows + 100 \<le> 2 ^ 32 \<Longrightarrow> nic_inv (nk_new (rt_kind e) base flows master)
      \<and> nic_stage (nk_new (rt_kind e) base flows master) = Fresh"
begin

lemma call_step:
  assumes "call (env_do e c) (n, w) = (Done r :: (unit, _) outcome, (n', w'))" and "nic_inv n"
  shows "nic_inv n' \<and> life_step c r (nic_stage n) = Some (nic_stage n')"
proof -
  obtain y where y: "env_do e c (n, w) = (y, (n', w'))" "y = Done r \<or> y = Exit r"
    using assms(1) by (auto simp: call_def split: prod.splits outcome.splits)
  then show ?thesis using endsD [OF do_follows [OF assms(2)] y(1)] by (auto simp: follows_def)
qed

lemma call_flows:
  assumes "call (env_do e c) (n, w) = (Done r :: (unit, _) outcome, (n', w'))" and "owner_call c"
  shows "nk_flows (rt_kind e) n' = nk_flows (rt_kind e) n"
proof -
  have "fst (snd (env_do e c (n, w))) = n'"
    using assms(1) by (auto simp: call_def split: prod.splits outcome.splits)
  then show ?thesis using do_flows [OF assms(2)] unfolding stable_def by blast
qed

lemma init_ends:
  assumes "init_nic_with e master aa phy ip bus (p, w) = (Done r, (p', w'))" and "ow_nic p = None"
    and "unat (ow_size p) + 100 \<le> 2 ^ 32"
  shows "\<exists>n1 w1 n2 w2 n. call (env_do e (Connect bus)) (nk_new (rt_kind e) (ow_base_nic_addr p) (ow_size p) master, w)
        = (Done 0 :: (unit, _) outcome, (n1, w1))
    \<and> call (env_do e (Configure aa)) (n1, w1) = (Done 0 :: (unit, _) outcome, (n2, w2))
    \<and> p' = p\<lparr>ow_nic := Some n\<rparr> \<and> nic_inv n \<and> nic_stage n = Initialized \<and> nk_flows (rt_kind e) n = nk_flows (rt_kind e) n2
    \<and> r = 0"
proof -
  let ?n = "nk_new (rt_kind e) (ow_base_nic_addr p) (ow_size p) master"
  obtain n1 w1 n2 w2 n3 where 1: "call (env_do e (Connect bus)) (?n, w) = (Done 0 :: (unit, _) outcome, (n1, w1))"
    and 2: "call (env_do e (Configure aa)) (n1, w1) = (Done 0 :: (unit, _) outcome, (n2, w2))"
    and 3: "call (env_do e (Initialize phy ip)) (n2, w2) = (Done 0 :: (unit, _) outcome, (n3, w'))"
    and p': "p' = p\<lparr>ow_nic := Some n3\<rparr>" "r = 0"
    using assms(1,2) by (auto simp: init_nic_with_def done_simps new_nic_def on_nic_Done)
  have f: "nic_inv ?n" "nic_stage ?n = Fresh" using new_fresh [OF assms(3)] by blast+
  have s1: "nic_inv n1" "nic_stage n1 = Connected" using call_step [OF 1 f(1)] f(2) by (simp_all add: life_step_def)
  have s2: "nic_inv n2" "nic_stage n2 = Configured" using call_step [OF 2 s1(1)] s1(2) by (simp_all add: life_step_def)
  have "nic_inv n3" "nic_stage n3 = Initialized" using call_step [OF 3 s2(1)] s2(2) by (simp_all add: life_step_def)
  moreover have "nk_flows (rt_kind e) n3 = nk_flows (rt_kind e) n2" using call_flows [OF 3] by simp
  ultimately show ?thesis using 1 2 p' by blast
qed

lemma owner_flags:
  assumes "call (env_do e c) (n, w) = (Done r :: (unit, _) outcome, (n', w'))" and "own_inv e nf p" and "ow_nic p = Some n"
    and "owner_call c" and "f = (if c = Start \<and> r = 0 then True else if c = Stop \<and> r = 0 then False else ow_nic_is_started p)"
  shows "own_inv e nf (p\<lparr>ow_nic := Some n', ow_nic_is_started := f\<rparr>)"
proof -
  have n: "nic_inv n" "nk_flows (rt_kind e) n = nf" "nic_stage n = Initialized \<or> nic_stage n = Running"
    "ow_nic_is_started p \<longleftrightarrow> nic_stage n = Running"
    using assms(2,3) by (auto simp: own_inv_def)
  note s = call_step [OF assms(1) n(1)]
  have "nk_flows (rt_kind e) n' = nf" using call_flows [OF assms(1,4)] n(2) by simp
  moreover have "(nic_stage n' = Initialized \<or> nic_stage n' = Running) \<and> (f \<longleftrightarrow> nic_stage n' = Running)"
    using s n(3,4) assms(5) by (cases c) (auto simp: life_step_def split: if_splits)
  ultimately show ?thesis using s by (simp add: own_inv_def)
qed

end

lemma start_owned_Done:
  assumes "call (start_owned e) (p, w) = (Done r :: (unit, _) outcome, (p', w'))"
  shows "\<exists>n n'. ow_nic p = Some n \<and> call (env_do e Start) (n, w) = (Done r :: (unit, _) outcome, (n', w'))
    \<and> p' = p\<lparr>ow_nic := Some n', ow_nic_is_started := (if r = 0 then True else ow_nic_is_started p)\<rparr>"
  using assms by (auto simp: start_owned_def on_nic_def call_def run_defs upd_obj_def
      split: option.splits prod.splits outcome.splits if_splits)

lemma stop_owned_Done:
  assumes "call (stop_owned e) (p, w) = (Done r :: (unit, _) outcome, (p', w'))"
  shows "\<exists>n n'. ow_nic p = Some n \<and> call (env_do e Stop) (n, w) = (Done r :: (unit, _) outcome, (n', w'))
    \<and> p' = p\<lparr>ow_nic := Some n', ow_nic_is_started := (if r = 0 then False else ow_nic_is_started p)\<rparr>"
  using assms by (auto simp: stop_owned_def on_nic_def call_def run_defs upd_obj_def
      split: option.splits prod.splits outcome.splits if_splits)

text \<open>The three builds.\<close>

definition polling_env :: "u64 \<Rightarrow> u64 \<Rightarrow> u64 \<Rightarrow> (_, 'h) rt_env \<Rightarrow> (_, 'h) rt_env" where
  "polling_env h ws pa e = e\<lparr>rt_kind := polling_kind h ws pa (rt_x e)\<rparr>"

definition dma_env :: "u64 \<Rightarrow> u64 \<Rightarrow> u64 \<Rightarrow> (_, 'h) rt_env \<Rightarrow> (_, 'h) rt_env" where
  "dma_env h ws pa e = e\<lparr>rt_kind := dma_kind h ws pa (rt_x e)\<rparr>"

definition mmio_env :: "u64 \<Rightarrow> u64 \<Rightarrow> u64 \<Rightarrow> u64 \<Rightarrow> u64 \<Rightarrow> (_, 'h) rt_env \<Rightarrow> (_, 'h) rt_env" where
  "mmio_env h ws pa tx sz e = e\<lparr>rt_kind := mmio_kind h ws pa tx sz (rt_x e)\<rparr>"

lemma kind_class [simp]:
  "nk_class (polling_kind h ws pa x) = polling_class x" "nk_class (dma_kind h ws pa x) = dma_class x"
  "nk_class (mmio_kind h ws pa tx sz x) = mmio_class x l_tx_queue_size"
  by (simp_all add: polling_kind_def dma_kind_def mmio_kind_def)

interpretation ownp: owned_nic "polling_env h ws pa e" for h ws pa e
proof (unfold_locales, goal_cases)
  case (1 n c)
  then show ?case using pollingc.follows_do by (simp add: polling_env_def polling_kind_def)
next
  case (2 c)
  have "stable NicCCIP.more (nic_do (polling_class (rt_x e)) (rt_x e) (rt_uuid e) (rt_phy e) c)"
    by (intro stable_nic_do 2) (simp_all add: polling_class_def stable_more_class)
  then have "stable (nk_flows (polling_kind h ws pa (rt_x e))) (nic_do (polling_class (rt_x e)) (rt_x e) (rt_uuid e) (rt_phy e) c)"
    by (rule stable_comp) (rule flows_of_more(1))
  then show ?case by (simp add: polling_env_def)
next
  case (3 flows base master)
  then show ?case using fresh_nic(1,2) by (simp add: polling_env_def polling_kind_def)
qed

interpretation ownd: owned_nic "dma_env h ws pa e" for h ws pa e
proof (unfold_locales, goal_cases)
  case (1 n c)
  then show ?case using dmac.follows_do by (simp add: dma_env_def dma_kind_def)
next
  case (2 c)
  have "stable NicCCIP.more (nic_do (dma_class (rt_x e)) (rt_x e) (rt_uuid e) (rt_phy e) c)"
    by (intro stable_nic_do 2) (simp_all add: dma_class_def stable_more_class)
  then have "stable (nk_flows (dma_kind h ws pa (rt_x e))) (nic_do (dma_class (rt_x e)) (rt_x e) (rt_uuid e) (rt_phy e) c)"
    by (rule stable_comp) (rule flows_of_more(2))
  then show ?case by (simp add: dma_env_def)
next
  case (3 flows base master)
  then show ?case using fresh_nic(3,4) by (simp add: dma_env_def dma_kind_def)
qed

interpretation ownm: owned_nic "mmio_env h ws pa tx sz e" for h ws pa tx sz e
proof (unfold_locales, goal_cases)
  case (1 n c)
  then show ?case using mmioc.follows_do by (simp add: mmio_env_def mmio_kind_def)
next
  case (2 c)
  have "stable NicCCIP.more (nic_do (mmio_class (rt_x e) l_tx_queue_size) (rt_x e) (rt_uuid e) (rt_phy e) c)"
    by (intro stable_nic_do 2) (simp_all add: mmio_class_def stable_more_class)
  then have "stable (nk_flows (mmio_kind h ws pa tx sz (rt_x e))) (nic_do (mmio_class (rt_x e) l_tx_queue_size) (rt_x e) (rt_uuid e) (rt_phy e) c)"
    by (rule stable_comp) (rule flows_of_more(3))
  then show ?case by (simp add: mmio_env_def)
next
  case (3 flows base master)
  then show ?case using fresh_nic(5,6) by (simp add: mmio_env_def mmio_kind_def)
qed

section \<open>Clients of a pool\<close>

text \<open>Client \<open>i\<close> of a pool has flow \<open>i\<close> and its queues are on the buffers of that flow.\<close>

definition client_of :: "nic_flows \<Rightarrow> nat \<Rightarrow> RpcClientNonBlock \<Rightarrow> bool" where
  "client_of nf i c \<longleftrightarrow> cl_nic_flow_id c = of_nat i \<and> cl_client_id c = of_nat i
     \<and> tx_q (cl_tx_queue c) = nf_tx_flow_buffer nf (of_nat i) \<and> rx_q (cq_rx_queue (cl_cq c)) = nf_rx_flow_buffer nf (of_nat i)"

definition pool_inv :: "('m, 'h) rt_env \<Rightarrow> nic_flows \<Rightarrow> 'm RpcClientPool \<Rightarrow> bool" where
  "pool_inv e nf p \<longleftrightarrow> own_inv e nf p \<and> length (rpc_client_pool p) = unat (rpc_client_cnt p)
     \<and> rpc_client_cnt p \<le> ow_size p \<and> (\<forall>i < length (rpc_client_pool p). client_of nf i (rpc_client_pool p ! i))"

lemma mk_client:
  assumes "mk_RpcClientNonBlock page_size aligned_alloc mmio nf flow cid raw = (Done c :: (unit, _) outcome)"
  shows "cl_nic_flow_id c = flow" "cl_client_id c = cid" "tx_q (cl_tx_queue c) = nf_tx_flow_buffer nf flow"
    "rx_q (cq_rx_queue (cl_cq c)) = nf_rx_flow_buffer nf flow"
  using assms
  by (auto simp: mk_RpcClientNonBlock_def mk_CompletionQueue_def bind_cq_def mk_TxQueue_def mk_RxQueue_def TxQueue_init_def
      RxQueue_init_def Let_def split: if_splits option.splits prod.splits outcome.splits)

text \<open>The calls of a program on a pool and its clients.\<close>

inductive pool_step :: "('m, 'h) rt_env \<Rightarrow> 'm RpcClientPool \<times> 'h world \<Rightarrow> 'm RpcClientPool \<times> 'h world \<Rightarrow> bool" for e where
  pst_start: "call (pool_start_nic e) s = (Done r :: (unit, _) outcome, s') \<Longrightarrow> pool_step e s s'"
| pst_stop: "call (pool_stop_nic e) s = (Done r :: (unit, _) outcome, s') \<Longrightarrow> pool_step e s s'"
| pst_check: "call (pool_check_hw_errors e) s = (Done r :: (unit, _) outcome, s') \<Longrightarrow> pool_step e s s'"
| pst_perf: "call (pool_run_perf_thread e) s = (Done r :: (unit, _) outcome, s') \<Longrightarrow> pool_step e s s'"
| pst_pop: "pool_pop e raw s = (Done c :: (unit, _) outcome, s') \<Longrightarrow> pool_step e s s'"
| pst_connect: "i < length (rpc_client_pool (fst s)) \<Longrightarrow> call (client_connect e i ip cid) s = (Done r :: (unit, _) outcome, s') \<Longrightarrow> pool_step e s s'"
| pst_disconnect: "i < length (rpc_client_pool (fst s)) \<Longrightarrow> call (client_disconnect e i) s = (Done r :: (unit, _) outcome, s') \<Longrightarrow> pool_step e s s'"

context owned_nic
begin

lemma pool_call:
  assumes "call (on_nic e c) (p, w) = (Done r :: (unit, _) outcome, (p', w'))" and "pool_inv e nf p" and "owner_call c"
    and "c \<noteq> Start" and "c \<noteq> Stop"
  shows "pool_inv e nf p'"
proof -
  obtain n n' where n: "ow_nic p = Some n" "call (env_do e c) (n, w) = (Done r :: (unit, _) outcome, (n', w'))"
    and p': "p' = p\<lparr>ow_nic := Some n'\<rparr>"
    using assms(1) by (auto simp: on_nic_def call_def split: option.splits prod.splits outcome.splits)
  have "own_inv e nf (p\<lparr>ow_nic := Some n', ow_nic_is_started := ow_nic_is_started p\<rparr>)"
    using owner_flags [OF n(2) _ n(1) assms(3) refl] assms(2,4,5) by (simp add: pool_inv_def)
  then show ?thesis using assms(2) p' by (simp add: pool_inv_def)
qed

lemma pool_switch:
  assumes "ow_nic p = Some n" and "call (env_do e c) (n, w) = (Done r :: (unit, _) outcome, (n', w'))" and "pool_inv e nf p"
    and "c = Start \<and> f = (if r = 0 then True else ow_nic_is_started p) \<or> c = Stop \<and> f = (if r = 0 then False else ow_nic_is_started p)"
  shows "pool_inv e nf (p\<lparr>ow_nic := Some n', ow_nic_is_started := f\<rparr>)"
proof -
  have "own_inv e nf (p\<lparr>ow_nic := Some n', ow_nic_is_started := f\<rparr>)"
    by (rule owner_flags [OF assms(2) _ assms(1)]) (use assms(3,4) in \<open>auto simp: pool_inv_def\<close>)
  then show ?thesis using assms(3) by (simp add: pool_inv_def)
qed

lemma pop_inv:
  assumes "pool_pop e raw (p, w) = (Done y :: (unit, _) outcome, (p', w'))" and "pool_inv e nf p"
  shows "pool_inv e nf p'"
proof (cases "rpc_client_cnt p < ow_size p")
  case False
  then show ?thesis using assms by (simp add: pool_pop_def)
next
  case True
  obtain n c where n: "ow_nic p = Some n"
    and c: "mk_RpcClientNonBlock (rt_page_size e) (rt_aligned_alloc e) (nk_mmio (rt_kind e)) (nk_flows (rt_kind e) n)
        (rpc_client_cnt p) (ucast (rpc_client_cnt p)) raw = (Done c :: (unit, _) outcome)"
    and p': "p' = p\<lparr>rpc_client_pool := rpc_client_pool p @ [c], rpc_client_cnt := rpc_client_cnt p + 1\<rparr>"
    using assms(1) True by (auto simp: pool_pop_def split: option.splits outcome.splits)
  have len: "length (rpc_client_pool p) = unat (rpc_client_cnt p)" using assms(2) by (simp add: pool_inv_def)
  have nf: "nk_flows (rt_kind e) n = nf" using assms(2) n by (auto simp: pool_inv_def own_inv_def)
  have "client_of nf (length (rpc_client_pool p)) c"
    using mk_client [OF c [unfolded nf]] by (simp add: client_of_def len)
  moreover have "unat (rpc_client_cnt p + 1) = Suc (unat (rpc_client_cnt p))" "rpc_client_cnt p + 1 \<le> ow_size p"
    using True by unat_arith+
  ultimately show ?thesis
    using assms(2) len by (auto simp: p' pool_inv_def own_inv_def nth_append less_Suc_eq)
qed

lemma connect_inv:
  assumes "call (client_connect e i ip cid) (p, w) = (Done r :: (unit, _) outcome, (p', w'))" and "pool_inv e nf p"
    and "i < length (rpc_client_pool p)"
  shows "pool_inv e nf p'"
proof -
  let ?c = "(rpc_client_pool p ! i)\<lparr>cl_c_id := cid\<rparr>"
  let ?p = "p\<lparr>rpc_client_pool := (rpc_client_pool p)[i := ?c]\<rparr>"
  have "pool_inv e nf ?p"
    using assms(2,3) by (auto simp: pool_inv_def own_inv_def client_of_def nth_list_update)
  moreover have "call (on_nic e (AddConn cid ip (ucast (cl_nic_flow_id (rpc_client_pool p ! i))))) (?p, w)
      = (Done r :: (unit, _) outcome, (p', w'))"
    using assms(1,3) by (simp add: client_connect_def call_def bnd_def upd_obj_def get_obj_def modifyM_def gets_def)
  ultimately show ?thesis using pool_call by simp
qed

lemma pool_step_inv:
  assumes "pool_step e s s'" and "pool_inv e nf (fst s)"
  shows "pool_inv e nf (fst s')"
proof -
  obtain p w where s: "s = (p, w)" by (cases s)
  obtain p' w' where s': "s' = (p', w')" by (cases s')
  have inv: "pool_inv e nf p" using assms(2) s by simp
  from assms(1) have "pool_inv e nf p'"
  proof cases
    case (pst_start r)
    then show ?thesis
      using start_owned_Done [of e p w r p' w'] pool_switch [OF _ _ inv] by (fastforce simp: s s' pool_start_nic_def)
  next
    case (pst_stop r)
    then show ?thesis
      using stop_owned_Done [of e p w r p' w'] pool_switch [OF _ _ inv] by (fastforce simp: s s' pool_stop_nic_def)
  next
    case (pst_check r)
    then show ?thesis using pool_call [OF _ inv] by (simp add: s s' pool_check_hw_errors_def)
  next
    case (pst_perf r)
    then show ?thesis using pool_call [OF _ inv] by (simp add: s s' pool_run_perf_thread_def)
  next
    case (pst_pop raw c)
    then show ?thesis using pop_inv inv by (simp add: s s')
  next
    case (pst_connect i ip cid r)
    then show ?thesis using connect_inv inv by (simp add: s s')
  next
    case (pst_disconnect i r)
    then have "call (on_nic e (CloseConn (cl_c_id (rpc_client_pool p ! i)))) (p, w) = (Done r :: (unit, _) outcome, (p', w'))"
      by (simp add: s s' client_disconnect_def call_def bnd_def get_obj_def gets_def)
    then show ?thesis using pool_call [OF _ inv] by simp
  qed
  then show ?thesis by (simp add: s')
qed

end

lemma exits_only_aux: "aux m \<Longrightarrow> exits_only (\<lambda>r. r = 1) m"
  by (simp add: exits_only_def aux_def)

lemma exits_only_state:
  "exits_only S (get_obj f)" "exits_only S (upd_obj u)" "exits_only S (assert_obj q)" "exits_only S (on_world (call m))"
  by (intro exits_only_never aux_rules)+

lemma polling_configure_exits: "exits_only (\<lambda>r. r = 1) (polling_configure_data_plane x aa)"
  unfolding polling_configure_data_plane_def polling_alloc_queues_def Let_def
  by (intro exits_only_bnd exits_only_splits exits_only_exit exits_only_basic exits_only_state
      exits_only_aux [OF aux_nic_cfg] exits_only_aux [OF aux_access(1)] exits_only_never refl)

lemma polling_flows:
  "nk_flows (polling_kind h ws pa x) n = \<lparr>nf_tx_flow_buffer = polling_get_tx_flow_buffer n,
     nf_rx_flow_buffer = polling_get_rx_flow_buffer n, nf_mtu_size_bytes = get_mtu_size_bytes\<rparr>"
  by (simp add: polling_kind_def)

lemma polling_env_sel [simp]:
  "rt_kind (polling_env h ws pa e) = polling_kind h ws pa (rt_x e)" "rt_x (polling_env h ws pa e) = rt_x e"
  "rt_page_size (polling_env h ws pa e) = rt_page_size e" "rt_aligned_alloc (polling_env h ws pa e) = rt_aligned_alloc e"
  by (simp_all add: polling_env_def)

text \<open>After a successful set-up of the polling nic the flow buffers are disjoint parts of one page.\<close>

lemma polling_set_up:
  assumes "page_ok (rt_x e)" and "0 < flows" and "unat flows + 100 \<le> 2 ^ 32"
    and "init_nic_with (polling_env h ws pa e) master 0 phy ip bus (p, w) = (Done r, (p', w'))"
    and "ow_nic p = None" and "ow_size p = flows"
  shows "\<exists>n nf q. p' = p\<lparr>ow_nic := Some n\<rparr> \<and> nic_inv n \<and> nic_stage n = Initialized
    \<and> nk_flows (polling_kind h ws pa (rt_x e)) n = nf
    \<and> flow_regions flows (nf_tx_flow_buffer nf) (nf_rx_flow_buffer nf) (bytes_at q (unat (get_page_size (rt_x e))))"
proof -
  let ?x = "rt_x e" and ?n0 = "mk_NicPollingCCIP h ws pa (ow_base_nic_addr p) flows master"
  obtain n1 w1 n2 w2 n where
    1: "call (env_do (polling_env h ws pa e) (Connect bus)) (?n0, w) = (Done 0 :: (unit, _) outcome, (n1, w1))"
    and 2: "call (env_do (polling_env h ws pa e) (Configure 0)) (n1, w1) = (Done 0 :: (unit, _) outcome, (n2, w2))"
    and n: "p' = p\<lparr>ow_nic := Some n\<rparr>" "nic_inv n" "nic_stage n = Initialized"
      "nk_flows (polling_kind h ws pa ?x) n = nk_flows (polling_kind h ws pa ?x) n2"
    using ownp.init_ends [OF assms(4,5)] assms(3,6) by (auto simp: polling_kind_def [of h ws pa ?x])
  have "fst (snd (connect_to_nic ?x (rt_uuid e) bus (?n0, w))) = n1"
    using 1 by (auto simp: nic_do_def call_def polling_env_def split: prod.splits outcome.splits)
  then have "NicCCIP.more n1 = NicCCIP.more ?n0"
    using stable_more_connect [of ?x "rt_uuid e" bus] unfolding stable_def by blast
  then have flows: "pl_num_of_flows n1 = flows"
    by (cases n1) (simp add: mk_NicPollingCCIP_def NicCCIP.extend_def mk_NicCCIP_def)
  obtain y where y: "polling_configure_data_plane ?x 0 (n1, w1) = (y, (n2, w2))" "y = Done 0 \<or> y = Exit 0"
    using 2 by (auto simp: nic_do_def call_def polling_env_def polling_class_def split: prod.splits outcome.splits)
  have "y \<noteq> Exit 0" using polling_configure_exits [of ?x 0] y(1) unfolding exits_only_def by (metis fst_conv zero_neq_one)
  then have c: "polling_configure_data_plane ?x 0 (n1, w1) = (Done 0, (n2, w2))" using y by simp
  have "flows \<le> 2 ^ 32" using assms(3) by (simp add: word_le_nat_alt)
  then have ready: "polling_ready n2" "pl_num_of_flows n2 = flows"
    and "\<exists>q. polling_region n2 \<subseteq> bytes_at q (unat (get_page_size ?x))"
    using polling_configure_Done [OF c assms(1)] assms(2) flows by auto
  then obtain q where q: "polling_region n2 \<subseteq> bytes_at q (unat (get_page_size ?x))" by blast
  show ?thesis
    using n pollingf.regions [OF ready(1) q] ready(2)
    by (intro exI [of _ n] exI [of _ "nk_flows (polling_kind h ws pa ?x) n"] exI [of _ q]) (simp add: polling_flows)
qed

lemma pool_reachable:
  assumes "(pool_step (polling_env h ws pa e))\<^sup>*\<^sup>* s s'" and "pool_inv (polling_env h ws pa e) nf (fst s)"
  shows "pool_inv (polling_env h ws pa e) nf (fst s')"
  using assms by (induction rule: rtranclp_induct) (auto intro: ownp.pool_step_inv)

lemma init_pool_inv:
  assumes "page_ok (rt_x e)" and "0 < max_clients" and "unat max_clients + 100 \<le> 2 ^ 32"
    and "pool_init_nic (polling_env h ws pa e) bus (mk_RpcClientPool base max_clients, w) = (Done r, s)"
  shows "\<exists>nf q. pool_inv (polling_env h ws pa e) nf (fst s) \<and> ow_size (fst s) = max_clients
    \<and> rpc_client_pool (fst s) = [] \<and> rpc_client_cnt (fst s) = 0
    \<and> flow_regions max_clients (nf_tx_flow_buffer nf) (nf_rx_flow_buffer nf) (bytes_at q (unat (get_page_size (rt_x e))))"
proof -
  obtain p' w' where s: "s = (p', w')" by (cases s)
  let ?p = "mk_RpcClientPool base max_clients"
  obtain n nf q where n: "p' = ?p\<lparr>ow_nic := Some n\<rparr>" "nic_inv n" "nic_stage n = Initialized"
    "nk_flows (polling_kind h ws pa (rt_x e)) n = nf"
    and q: "flow_regions max_clients (nf_tx_flow_buffer nf) (nf_rx_flow_buffer nf) (bytes_at q (unat (get_page_size (rt_x e))))"
    using polling_set_up [OF assms(1-3) assms(4) [unfolded pool_init_nic_def s]] by (auto simp: mk_RpcClientPool_def)
  have "pool_inv (polling_env h ws pa e) nf p'"
    using n by (simp add: pool_inv_def own_inv_def mk_RpcClientPool_def)
  then show ?thesis using q n(1) by (auto simp: s mk_RpcClientPool_def)
qed

lemma pool_step_size: "pool_step e s s' \<Longrightarrow> ow_size (fst s') = ow_size (fst s)"
proof (induction rule: pool_step.induct)
  case (pst_start s r s')
  then show ?case using start_owned_Done [of e "fst s" "snd s" r "fst s'" "snd s'"] by (auto simp: pool_start_nic_def)
next
  case (pst_stop s r s')
  then show ?case using stop_owned_Done [of e "fst s" "snd s" r "fst s'" "snd s'"] by (auto simp: pool_stop_nic_def)
qed (auto simp: pool_check_hw_errors_def pool_run_perf_thread_def pool_pop_def client_connect_def client_disconnect_def
    on_nic_def call_def bnd_def upd_obj_def get_obj_def modifyM_def gets_def
    split: option.splits prod.splits outcome.splits if_splits)

section \<open>Properties\<close>


text \<open>
  C33. A listening thread that cannot be pinned: if the system refuses to pin the new thread to the CPU the
  caller asked for, \<^verbatim>\<open>run_new_listening_thread\<close> does not return its error code. It destroys the thread object
  while the thread runs, which terminates the program. Without a pin, or with one that is granted, the new
  thread listens on the next free flow.
\<close>

theorem listening_thread_pin:
  assumes "ow_nic p = Some n" and "ts_thread_cnt p < ow_size p"
    and "mk_RpcServerThread (rt_page_size e) (rt_aligned_alloc e) (nk_flows (rt_kind e) n) (ts_thread_cnt p) (ucast (ts_thread_cnt p))
      = (Done t :: (int, _) outcome)"
  shows "run_new_listening_thread e pin pin_cpu (p, w) =
    (if pin_cpu \<noteq> -1 \<and> \<not> pin pin_cpu then (Abort :: (int, _) outcome, (p, w))
     else (Done 0, (p\<lparr>ts_threads := ts_threads p @ [t\<lparr>sv_stop_signal := False, sv_thread := Some SvLoop\<rparr>],
            ts_thread_cnt := ts_thread_cnt p + 1\<rparr>, w)))"
proof -
  have "sv_thread t = None"
    using assms(3) by (auto simp: mk_RpcServerThread_def split: outcome.splits)
  then show ?thesis
    using assms by (simp add: run_new_listening_thread_def start_listening_def RpcServerThread_dtor_def Let_def)
qed

lemma stop_threads_done:
  assumes "\<And>t. t \<in> set ts \<Longrightarrow> (\<exists>tx0 h. sv_ok B (cbs (sv_thread_id t)) (sv_thread_id t) tx0 (t, h)) \<and> rx_wf (sv_rx_queue t)
      \<and> sv_thread t \<noteq> None" and "B + 5 \<le> n"
  shows "\<exists>ts'. stop_threads B cbs m n ts = Some (Done (), ts') \<and> length ts' = length ts \<and> (\<forall>t \<in> set ts'. sv_thread t = None)"
  using assms(1)
proof (induction ts)
  case (Cons t ts)
  obtain t' where "stop_listening B (cbs (sv_thread_id t)) m n t = Some (Done () :: ('a, _) outcome, t')" "sv_thread t' = None"
    using Cons.prems [of t] sv_stops assms(2) by (metis list.set_intros(1))
  moreover obtain ts' where "stop_threads B cbs m n ts = Some (Done () :: ('a, _) outcome, ts')" "length ts' = length ts"
    "\<forall>t \<in> set ts'. sv_thread t = None"
    using Cons by auto
  ultimately show ?case by auto
qed simp

text \<open>
  C34. Stopping the server: whatever its listening threads are doing, each of them ends within \<open>B + 5\<close> of its
  own steps after its stop signal, \<open>B\<close> being the batch size, so the loop of
  \<^verbatim>\<open>stop_all_listening_threads\<close> joins all of them.
\<close>

theorem server_threads_join:
  assumes "\<And>t. t \<in> set (ts_threads p) \<Longrightarrow> \<exists>nf flow t0 m0 m1 sent log calls. sv_listening nf flow t0
      \<and> slots_blank m0 (nf_rx_flow_buffer nf flow) 8 \<and> sv_thread t \<noteq> None
      \<and> (rx_system (nf_rx_flow_buffer nf flow) 8 sv_view (sv_con B (cbs (sv_thread_id t0))))\<^sup>*\<^sup>* (m0, [], t0, [], []) (m1, sent, t, log, calls)"
    and "B + 5 \<le> n"
  shows "\<exists>ts'. stop_threads B cbs m n (ts_threads p) = Some (Done () :: (unit, _) outcome, ts')
    \<and> length ts' = length (ts_threads p) \<and> (\<forall>t \<in> set ts'. sv_thread t = None)"
proof (rule stop_threads_done [OF _ assms(2)])
  fix t assume "t \<in> set (ts_threads p)"
  then obtain nf flow t0 m0 m1 sent log calls where l: "sv_listening nf flow t0" "slots_blank m0 (nf_rx_flow_buffer nf flow) 8"
    and n: "sv_thread t \<noteq> None"
    and r: "(rx_system (nf_rx_flow_buffer nf flow) 8 sv_view (sv_con B (cbs (sv_thread_id t0))))\<^sup>*\<^sup>* (m0, [], t0, [], []) (m1, sent, t, log, calls)"
    using assms(1) by blast
  note d = svc.delivered_prefix [OF r sv_listening_start(1) [OF l]]
  have ok: "sv_ok B (cbs (sv_thread_id t0)) (sv_thread_id t0) (sv_tx_queue t0) (t, log, calls)" using d(5) .
  then have "sv_thread_id t = sv_thread_id t0" by (simp add: sv_ok_def)
  then show "(\<exists>tx0 h. sv_ok B (cbs (sv_thread_id t)) (sv_thread_id t) tx0 (t, h)) \<and> rx_wf (sv_rx_queue t) \<and> sv_thread t \<noteq> None"
    using ok d(4) n by auto
qed

section \<open>Examples\<close>

definition rt0 :: "(_, bool \<times> bool) rt_env" where
  "rt0 = \<lparr>rt_kind = polling_kind 0 0 0 nic_x, rt_x = nic_x, rt_uuid = [], rt_phy = False, rt_ase = False,
     rt_inet_pton = (\<lambda>_ _. 0x0100a8c0), rt_stack = 0, rt_page_size = 4096, rt_aligned_alloc = (\<lambda>_ _. True)\<rparr>"

lemma rt0_env: "polling_env 0 0 0 rt0 = rt0"
  by (simp add: polling_env_def rt0_def)

lemma rt0_sel: "rt_x rt0 = nic_x" "rt_kind rt0 = polling_kind 0 0 0 nic_x" "rt_page_size rt0 = 4096" "rt_aligned_alloc rt0 = (\<lambda>_ _. True)"
  by (simp_all add: rt0_def)

lemma pop_succeeds:
  assumes "rt_page_size e = 4096" and "rt_aligned_alloc e = (\<lambda>_ _. True)" and "\<not> nk_mmio (rt_kind e)"
    and "own_inv e nf p" and "rpc_client_cnt p < ow_size p"
  shows "\<exists>p'. pool_pop e raw (p, w) = (Done (Some (length (rpc_client_pool p))) :: (unit, _) outcome, (p', w))
    \<and> length (rpc_client_pool p') = Suc (length (rpc_client_pool p)) \<and> rpc_client_cnt p' = rpc_client_cnt p + 1
    \<and> ow_size p' = ow_size p"
  using assms
  by (auto simp: own_inv_def pool_pop_def mk_RpcClientNonBlock_def mk_TxQueue_def mk_RxQueue_def TxQueue_init_def
      RxQueue_init_def mk_CompletionQueue_def bind_cq_def cfg_defs int_one_shl_small)

lemma pool_init_example: "\<exists>s. pool_init_nic rt0 (-1) (mk_RpcClientPool 0 2, nic_w0) = (Done 0, s)"
proof -
  have "fst (pool_init_nic rt0 (-1) (mk_RpcClientPool 0 2, nic_w0)) = Done 0"
    by (simp add: pool_init_nic_def init_nic_with_def new_nic_def on_nic_def mk_RpcClientPool_def rt0_def polling_kind_def
        nic_eval nic_example)
  then show ?thesis by (metis prod.collapse)
qed


definition srv0 :: "_ RpcThreadedServer" where
  "srv0 = (mk_RpcThreadedServer 0 2)\<lparr>ow_nic := Some (mk_NicPollingCCIP 0 0 0 0 2 True)\<rparr>"

theorem listening_thread_pin_witness:
  "run_new_listening_thread rt0 (\<lambda>_. False) 4 (srv0, nic_w0) = (Abort :: (int, _) outcome, (srv0, nic_w0))"
proof -
  let ?n = "mk_NicPollingCCIP 0 0 0 0 2 True"
  have "ow_nic srv0 = Some ?n" "ts_thread_cnt srv0 = 0" "ts_thread_cnt srv0 < ow_size srv0"
    by (simp_all add: srv0_def mk_RpcThreadedServer_def)
  moreover have "\<exists>t. mk_RpcServerThread 4096 (\<lambda>_ _. True) (nk_flows (rt_kind rt0) ?n) 0 0 = (Done t :: (int, _) outcome)"
    by (simp add: mk_RpcServerThread_def mk_flow_queues_def mk_TxQueue_def mk_RxQueue_def TxQueue_init_def RxQueue_init_def
        cfg_defs int_one_shl_small)
  ultimately show ?thesis
    using listening_thread_pin [of srv0 ?n rt0 _ "\<lambda>_. False" 4 nic_w0] by (auto simp: rt0_sel)
qed

theorem server_threads_join_witness:
  "\<exists>ts'. stop_threads 1 (\<lambda>_. count_calls) mem5 6 [sv8] = Some (Done () :: (unit, _) outcome, ts') \<and> length ts' = 1"
proof -
  let ?p = "srv0\<lparr>ts_threads := [sv8]\<rparr>"
  have "\<exists>nf flow t0 m0 m1 sent log calls. sv_listening nf flow t0
      \<and> slots_blank m0 (nf_rx_flow_buffer nf flow) 8 \<and> sv_thread t \<noteq> None
      \<and> (rx_system (nf_rx_flow_buffer nf flow) 8 sv_view (sv_con 1 count_calls))\<^sup>*\<^sup>* (m0, [], t0, [], []) (m1, sent, t, log, calls)"
    if "t \<in> set (ts_threads ?p)" for t
    using that sv8_listening blank_zero by (auto simp: sv8_def [THEN arg_cong [of _ _ sv_thread]]) blast
  then show ?thesis using server_threads_join [of ?p 1 "\<lambda>_. count_calls" 6 mem5] by auto
qed

end
