(* ===== verification/Mica_Pool.thy ===== *)
theory Mica_Pool
  imports Prelude
begin

text \<open>
  The log-structured allocator of the MICA key-value store (\<^verbatim>\<open>alloc_pool.c\<close>, \<^verbatim>\<open>alloc_pool.h\<close>,
  \<^verbatim>\<open>alloc.h\<close>) with the helpers of \<^verbatim>\<open>util.h\<close> it uses, in the configuration of \<^verbatim>\<open>config.h\<close>: eviction
  on, one pool, no concurrent access (the lock operations are compiled away), assertions on. The
  pool is a ring of \<open>pool_size\<close> bytes whose first two megabytes are mapped a second time behind its
  end; an access outside this window has outcome \<open>Undef\<close>. \<open>log_ok p hs\<close> is the invariant: \<open>hs\<close> are
  the sizes of all items ever allocated, and every item that starts in the last \<open>pool_size\<close> bytes
  of the log still carries its size in its header. Allocation keeps it, always returns, and leaves
  every byte of the surviving part of the log alone.
\<close>

section \<open>Helpers of util.h\<close>

definition MEHCACHED_ROUNDUP8 :: "u64 \<Rightarrow> u64" where
  "MEHCACHED_ROUNDUP8 x = (x + 7) AND NOT 7"

definition MEHCACHED_ROUNDUP2M :: "u64 \<Rightarrow> u64" where
  "MEHCACHED_ROUNDUP2M x = (x + 2097151) AND NOT 2097151"

text \<open>The loop of \<^verbatim>\<open>mehcached_next_power_of_two\<close> stops at the latest when the shift reaches the
  width; shifting by the width or more is undefined.\<close>

fun next_power_loop :: "nat \<Rightarrow> u64 \<Rightarrow> nat \<Rightarrow> nat option" where
  "next_power_loop 0 v s = None"
| "next_power_loop (Suc n) v s = (if push_bit s 1 < v then next_power_loop n v (Suc s) else Some s)"

definition mehcached_next_power_of_two :: "u64 \<Rightarrow> u64 option" where
  "mehcached_next_power_of_two v = map_option (\<lambda>s. push_bit s 1) (next_power_loop 64 v 0)"

section \<open>The pool\<close>

definition MEHCACHED_MINIMUM_POOL_SIZE :: u64 where
  "MEHCACHED_MINIMUM_POOL_SIZE = 2097152"

definition MEHCACHED_ITEM_OFFSET_MASK :: u64 where
  "MEHCACHED_ITEM_OFFSET_MASK = push_bit 48 1 - 1"

text \<open>\<open>pool_data\<close> holds the bytes of the shared-memory entry the pool is mapped to.\<close>

record mehcached_pool =
  pool_access_mode :: u8
  pool_lock :: u32
  pool_data :: "nat \<Rightarrow> u8"
  pool_size :: u64
  pool_mask :: u64
  pool_head :: u64
  pool_tail :: u64

text \<open>Position \<open>v\<close> of the mapped window as a position of the ring.\<close>

definition pool_index :: "mehcached_pool \<Rightarrow> nat \<Rightarrow> nat" where
  "pool_index p v = (if v < unat (pool_size p) then v else v - unat (pool_size p))"

definition in_window :: "mehcached_pool \<Rightarrow> nat \<Rightarrow> nat \<Rightarrow> bool" where
  "in_window p v n \<longleftrightarrow> v + n \<le> unat (pool_size p) + unat MEHCACHED_MINIMUM_POOL_SIZE"

definition window_bytes :: "mehcached_pool \<Rightarrow> nat \<Rightarrow> nat \<Rightarrow> u8 list" where
  "window_bytes p v n = map (\<lambda>i. pool_data p (pool_index p (v + i))) [0..<n]"

fun put_bytes :: "(nat \<Rightarrow> nat) \<Rightarrow> nat \<Rightarrow> u8 list \<Rightarrow> (nat \<Rightarrow> u8) \<Rightarrow> nat \<Rightarrow> u8" where
  "put_bytes f v [] d = d"
| "put_bytes f v (b # bs) d = put_bytes f (Suc v) bs (d(f v := b))"

definition put_window :: "mehcached_pool \<Rightarrow> nat \<Rightarrow> u8 list \<Rightarrow> mehcached_pool" where
  "put_window p v bs = p\<lparr>pool_data := put_bytes (pool_index p) v bs (pool_data p)\<rparr>"

definition pool_load :: "nat \<Rightarrow> nat \<Rightarrow> (mehcached_pool, 'r, u8 list) body" where
  "pool_load v n = bnd (guardM (\<lambda>p. in_window p v n)) (\<lambda>_. gets (\<lambda>p. window_bytes p v n))"

definition pool_store :: "nat \<Rightarrow> u8 list \<Rightarrow> (mehcached_pool, 'r, unit) body" where
  "pool_store v bs = bnd (guardM (\<lambda>p. in_window p v (length bs))) (\<lambda>_. modifyM (\<lambda>p. put_window p v bs))"

definition mehcached_pool_reset :: "mehcached_pool \<Rightarrow> mehcached_pool" where
  "mehcached_pool_reset p = p\<lparr>pool_head := 0, pool_tail := 0\<rparr>"

text \<open>The position of an item relative to the base address of the window.\<close>

definition mehcached_pool_item :: "mehcached_pool \<Rightarrow> u64 \<Rightarrow> nat" where
  "mehcached_pool_item p pool_offset = unat (pool_offset AND pool_mask p)"

definition mehcached_pool_check_invariants :: "(mehcached_pool, 'r, unit) body" where
  "mehcached_pool_check_invariants = assertM (\<lambda>p. pool_tail p - pool_head p \<le> pool_size p)"

definition mehcached_pool_pop_head :: "(mehcached_pool, 'r, unit) body" where
  "mehcached_pool_pop_head =
     bnd (gets (\<lambda>p. mehcached_pool_item p (pool_head p))) (\<lambda>v.
     bnd (pool_load v 8) (\<lambda>bs.
     bnd (modifyM (\<lambda>p. p\<lparr>pool_head := pool_head p + le_dec bs\<rparr>)) (\<lambda>_.
     mehcached_pool_check_invariants)))"

text \<open>
  The loop of \<^verbatim>\<open>mehcached_pool_push_tail\<close>. A header that reads zero makes it spin for ever without
  a side effect, which has outcome \<open>Undef\<close>; every other iteration moves the head by a byte or more,
  so that \<open>pool_size + 1\<close> iterations are enough.
\<close>

fun pop_loop :: "nat \<Rightarrow> u64 \<Rightarrow> (mehcached_pool, 'r, unit) body" where
  "pop_loop 0 v = guardM (\<lambda>_. False)"
| "pop_loop (Suc n) v = bnd (gets (\<lambda>p. v > pool_head p + pool_size p)) (\<lambda>b.
     if b then bnd mehcached_pool_pop_head (\<lambda>_. pop_loop n v) else ret ())"

definition mehcached_pool_push_tail :: "u32 \<Rightarrow> (mehcached_pool, 'r, u64) body" where
  "mehcached_pool_push_tail item_size =
     bnd (assertM (\<lambda>_. ucast item_size = MEHCACHED_ROUNDUP8 (ucast item_size))) (\<lambda>_.
     bnd (assertM (\<lambda>p. ucast item_size \<le> pool_size p)) (\<lambda>_.
     bnd (gets pool_tail) (\<lambda>item_offset.
     bnd (gets (\<lambda>p. unat (pool_size p))) (\<lambda>n.
     bnd (pop_loop (Suc n) (item_offset + ucast item_size)) (\<lambda>_.
     bnd (gets (\<lambda>p. mehcached_pool_item p item_offset)) (\<lambda>v.
     bnd (pool_store v (le_enc 8 (ucast item_size :: u64))) (\<lambda>_.
     bnd (modifyM (\<lambda>p. p\<lparr>pool_tail := pool_tail p + ucast item_size\<rparr>)) (\<lambda>_.
     bnd mehcached_pool_check_invariants (\<lambda>_.
     ret (item_offset AND MEHCACHED_ITEM_OFFSET_MASK))))))))))"

definition mehcached_pool_allocate :: "u32 \<Rightarrow> (mehcached_pool, 'r, u64) body" where
  "mehcached_pool_allocate item_size = mehcached_pool_push_tail item_size"

definition mehcached_pool_is_valid :: "mehcached_pool \<Rightarrow> u64 \<Rightarrow> bool" where
  "mehcached_pool_is_valid p pool_offset \<longleftrightarrow>
     (pool_tail p - pool_offset) AND MEHCACHED_ITEM_OFFSET_MASK \<le> pool_size p"

section \<open>Rounding\<close>

definition ru8 :: "nat \<Rightarrow> nat" where
  "ru8 n = (n + 7) div 8 * 8"

lemma ru8_bounds: "n \<le> ru8 n" "ru8 n < n + 8"
  unfolding ru8_def by presburger+

lemma ru8_dvd [simp]: "8 dvd ru8 n"
  by (simp add: ru8_def)

lemma ru8_self: "8 dvd n \<Longrightarrow> ru8 n = n"
  by (auto simp: ru8_def)

lemma ru8_mono: "m \<le> n \<Longrightarrow> ru8 m \<le> ru8 n"
  unfolding ru8_def by (simp add: div_le_mono)

lemma and_not_mask: "(x :: u64) AND NOT (mask k) = push_bit k (drop_bit k x)"
  by (rule bit_eqI) (auto simp: bit_simps)

lemma unat_round_down: "unat (push_bit k (drop_bit k (x :: u64))) = unat x div 2 ^ k * 2 ^ k"
proof -
  have le: "unat x div 2 ^ k * 2 ^ k \<le> unat x" by simp
  have "unat x div 2 ^ k * 2 ^ k < 2 ^ 64" using unat_u64_less [of x] le by linarith
  then have "take_bit 64 (push_bit k (drop_bit k (unat x))) = unat x div 2 ^ k * 2 ^ k"
    by (metis drop_bit_eq_div push_bit_eq_mult take_bit_nat_eq_self)
  moreover have "take_bit 64 (unat x) = unat x" using unat_u64_less [of x] by (simp add: take_bit_nat_eq_self)
  ultimately show ?thesis by (simp add: unsigned_push_bit_eq unsigned_drop_bit_eq)
qed

lemma mask_words: "(7 :: u64) = mask 3" "(2097151 :: u64) = mask 21"
  by (simp_all add: mask_eq_decr_exp)

lemma unat_ROUNDUP8:
  assumes "unat x + 7 < 2 ^ 64"
  shows "unat (MEHCACHED_ROUNDUP8 x) = ru8 (unat x)"
proof -
  have "MEHCACHED_ROUNDUP8 x = push_bit 3 (drop_bit 3 (x + 7))"
    unfolding MEHCACHED_ROUNDUP8_def and_not_mask [symmetric] mask_words(1) [symmetric] ..
  moreover have "unat (x + 7) = unat x + 7" using assms by (subst unat_u64_add) simp_all
  ultimately show ?thesis by (simp only: unat_round_down ru8_def) simp
qed

lemma ROUNDUP8_self_iff:
  assumes "unat x + 7 < 2 ^ 64"
  shows "x = MEHCACHED_ROUNDUP8 x \<longleftrightarrow> 8 dvd unat x"
proof
  assume "x = MEHCACHED_ROUNDUP8 x"
  then have "unat x = ru8 (unat x)" using unat_ROUNDUP8 [OF assms] by simp
  then show "8 dvd unat x" by (metis ru8_dvd)
next
  assume "8 dvd unat x"
  then have "unat (MEHCACHED_ROUNDUP8 x) = unat x" using unat_ROUNDUP8 [OF assms] by (simp add: ru8_self)
  then show "x = MEHCACHED_ROUNDUP8 x" by (metis word_unat_eq_iff)
qed

section \<open>The ring as a log\<close>

definition pool_wf :: "mehcached_pool \<Rightarrow> bool" where
  "pool_wf p \<longleftrightarrow> (\<exists>s. 21 \<le> s \<and> s \<le> 46 \<and> pool_size p = 2 ^ s \<and> pool_mask p = pool_size p - 1)"

text \<open>Byte \<open>a\<close> of the log, for an offset that counts every byte ever allocated.\<close>

definition log_bytes :: "mehcached_pool \<Rightarrow> nat \<Rightarrow> nat \<Rightarrow> u8 list" where
  "log_bytes p a n = map (\<lambda>i. pool_data p ((a + i) mod unat (pool_size p))) [0..<n]"

definition log_put :: "mehcached_pool \<Rightarrow> nat \<Rightarrow> u8 list \<Rightarrow> mehcached_pool" where
  "log_put p a bs = p\<lparr>pool_data := put_bytes (\<lambda>v. v mod unat (pool_size p)) a bs (pool_data p)\<rparr>"

lemma length_log_bytes [simp]: "length (log_bytes p a n) = n"
  by (simp add: log_bytes_def)

lemma log_put_sel [simp]:
  "pool_size (log_put p a bs) = pool_size p" "pool_mask (log_put p a bs) = pool_mask p"
  "pool_head (log_put p a bs) = pool_head p" "pool_tail (log_put p a bs) = pool_tail p"
  by (simp_all add: log_put_def)

lemma pool_wf_log_put [simp]: "pool_wf (log_put p a bs) = pool_wf p"
  by (simp add: pool_wf_def)

lemma put_bytes_cong:
  "(\<And>i. i < length bs \<Longrightarrow> f (v + i) = g (w + i)) \<Longrightarrow> put_bytes f v bs d = put_bytes g w bs d"
proof (induction bs arbitrary: v w d)
  case (Cons b bs)
  have "f (Suc v + i) = g (Suc w + i)" if "i < length bs" for i using Cons.prems [of "Suc i"] that by simp
  moreover have "f v = g w" using Cons.prems [of 0] by simp
  ultimately show ?case using Cons.IH [of "Suc v" "Suc w"] by simp
qed simp

lemma put_bytes_other: "(\<And>i. i < length bs \<Longrightarrow> f (v + i) \<noteq> x) \<Longrightarrow> put_bytes f v bs d x = d x"
proof (induction bs arbitrary: v d)
  case (Cons b bs)
  have "f (Suc v + i) \<noteq> x" if "i < length bs" for i using Cons.prems [of "Suc i"] that by simp
  then show ?case using Cons.IH [of "Suc v"] Cons.prems [of 0] by simp
qed simp

lemma put_bytes_nth:
  "inj_on f {v..<v + length bs} \<Longrightarrow> i < length bs \<Longrightarrow> put_bytes f v bs d (f (v + i)) = bs ! i"
proof (induction bs arbitrary: v d i)
  case (Cons b bs)
  have inj: "inj_on f {Suc v..<Suc v + length bs}"
    by (rule inj_on_subset [OF Cons.prems(1)]) auto
  show ?case
  proof (cases i)
    case 0
    have "f (Suc v + j) \<noteq> f v" if "j < length bs" for j
      using inj_onD [OF Cons.prems(1), of "Suc v + j" v] that by auto
    then show ?thesis using 0 by (simp add: put_bytes_other)
  next
    case (Suc j)
    then show ?thesis using Cons.IH [OF inj, of j] Cons.prems(2) by simp
  qed
qed simp

lemma mod_eq_close:
  assumes "a mod n = b mod n" and "a \<le> b" and "b < a + (n :: nat)"
  shows "a = b"
proof -
  have "n dvd b - a" using assms(1) [symmetric] assms(2) by (simp add: mod_eq_dvd_iff_nat)
  then show ?thesis using assms by (auto dest: dvd_imp_le)
qed

lemma inj_on_ring: "m \<le> n \<Longrightarrow> inj_on (\<lambda>v. v mod n) {a..<a + (m :: nat)}"
proof (rule inj_onI)
  fix x y
  assume "m \<le> n" "x \<in> {a..<a + m}" "y \<in> {a..<a + m}" "x mod n = y mod n"
  then show "x = y" using mod_eq_close [of x n y] mod_eq_close [of y n x] by (cases "x \<le> y") auto
qed

lemma log_bytes_put_inside:
  assumes "length bs \<le> unat (pool_size p)" and "k + n \<le> length bs"
  shows "log_bytes (log_put p a bs) (a + k) n = take n (drop k bs)"
proof (rule nth_equalityI)
  fix i
  assume "i < length (log_bytes (log_put p a bs) (a + k) n)"
  then show "log_bytes (log_put p a bs) (a + k) n ! i = take n (drop k bs) ! i"
    using assms put_bytes_nth [OF inj_on_ring [OF assms(1)], where i = "k + i" and d = "pool_data p"]
    by (simp add: log_bytes_def log_put_def add.assoc)
qed (use assms in simp)

lemma log_bytes_put_before:
  assumes "a + n \<le> b" and "b + length bs \<le> a + unat (pool_size p)"
  shows "log_bytes (log_put p b bs) a n = log_bytes p a n"
proof -
  have "put_bytes (\<lambda>v. v mod unat (pool_size p)) b bs (pool_data p) ((a + i) mod unat (pool_size p))
      = pool_data p ((a + i) mod unat (pool_size p))" if "i < n" for i
  proof (rule put_bytes_other)
    fix j
    assume "j < length bs"
    then show "(b + j) mod unat (pool_size p) \<noteq> (a + i) mod unat (pool_size p)"
      using mod_eq_close [of "a + i" "unat (pool_size p)" "b + j"] assms that by auto
  qed
  then show ?thesis by (simp add: log_bytes_def log_put_def)
qed

lemma log_bytes_put_after:
  assumes "b + length bs \<le> a" and "a + n \<le> b + unat (pool_size p)"
  shows "log_bytes (log_put p b bs) a n = log_bytes p a n"
proof -
  have "put_bytes (\<lambda>v. v mod unat (pool_size p)) b bs (pool_data p) ((a + i) mod unat (pool_size p))
      = pool_data p ((a + i) mod unat (pool_size p))" if "i < n" for i
  proof (rule put_bytes_other)
    fix j
    assume "j < length bs"
    then show "(b + j) mod unat (pool_size p) \<noteq> (a + i) mod unat (pool_size p)"
      using mod_eq_close [of "b + j" "unat (pool_size p)" "a + i"] assms that by auto
  qed
  then show ?thesis by (simp add: log_bytes_def log_put_def)
qed

lemma log_bytes_append: "log_bytes p a (m + n) = log_bytes p a m @ log_bytes p (a + m) n"
  by (rule nth_equalityI) (auto simp: log_bytes_def nth_append)

section \<open>Accesses inside the window\<close>

lemma pool_wf_size:
  assumes "pool_wf p"
  shows "2097152 \<le> unat (pool_size p)" "unat (pool_size p) \<le> 2 ^ 46" "8 dvd unat (pool_size p)"
proof -
  obtain s where s: "21 \<le> s" "s \<le> 46" "pool_size p = 2 ^ s" using assms by (auto simp: pool_wf_def)
  have eq: "unat (pool_size p) = 2 ^ s"
    using s by (simp add: unat_two_power_u64)
  show "2097152 \<le> unat (pool_size p)" using power_increasing [OF s(1), of "2 :: nat"] eq by simp
  show "unat (pool_size p) \<le> 2 ^ 46" using power_increasing [OF s(2), of "2 :: nat"] eq by simp
  have "(2 :: nat) ^ 3 dvd 2 ^ s" by (rule le_imp_power_dvd) (use s in simp)
  then show "8 dvd unat (pool_size p)" using eq by simp
qed

lemma pool_item_mod:
  assumes "pool_wf p"
  shows "mehcached_pool_item p a = unat a mod unat (pool_size p)"
proof -
  obtain s where s: "s \<le> 46" "pool_size p = 2 ^ s" "pool_mask p = 2 ^ s - 1"
    using assms by (auto simp: pool_wf_def)
  have "a AND pool_mask p = take_bit s a" by (simp add: s take_bit_eq_mask mask_eq_decr_exp)
  moreover have "unat (pool_size p) = 2 ^ s" using s by (simp add: unat_two_power_u64)
  ultimately show ?thesis unfolding mehcached_pool_item_def by (simp only: unsigned_take_bit_eq take_bit_nat_def)
qed

lemma window_ok:
  assumes "pool_wf p" and "k + n \<le> 2097152"
  shows "in_window p (a mod unat (pool_size p) + k) n"
proof -
  have "a mod unat (pool_size p) < unat (pool_size p)" using pool_wf_size(1) [OF assms(1)] by (intro mod_less_divisor) simp
  then show ?thesis using assms(2) by (simp add: in_window_def MEHCACHED_MINIMUM_POOL_SIZE_def)
qed

lemma pool_index_mod:
  assumes "pool_wf p" and "k < 2097152"
  shows "pool_index p (a mod unat (pool_size p) + k) = (a + k) mod unat (pool_size p)"
proof -
  have pos: "a mod unat (pool_size p) < unat (pool_size p)" using pool_wf_size(1) [OF assms(1)] by (intro mod_less_divisor) simp
  have "(a + k) mod unat (pool_size p) = (a mod unat (pool_size p) + k) mod unat (pool_size p)"
    by (simp add: mod_add_left_eq)
  moreover have "a mod unat (pool_size p) + k - unat (pool_size p) < unat (pool_size p)"
    using pos assms(2) pool_wf_size(1) [OF assms(1)] by linarith
  ultimately show ?thesis by (simp add: pool_index_def le_mod_geq)
qed

lemma window_bytes_log:
  assumes "pool_wf p" and "k + n \<le> 2097152"
  shows "window_bytes p (a mod unat (pool_size p) + k) n = log_bytes p (a + k) n"
proof -
  have "pool_index p (a mod unat (pool_size p) + k + i) = (a + k + i) mod unat (pool_size p)" if "i < n" for i
    using pool_index_mod [OF assms(1), of "k + i" a] assms(2) that by (simp add: add.assoc)
  then show ?thesis by (simp add: window_bytes_def log_bytes_def)
qed

lemma put_window_log:
  assumes "pool_wf p" and "k + length bs \<le> 2097152"
  shows "put_window p (a mod unat (pool_size p) + k) bs = log_put p (a + k) bs"
proof -
  have "put_bytes (pool_index p) (a mod unat (pool_size p) + k) bs (pool_data p)
      = put_bytes (\<lambda>v. v mod unat (pool_size p)) (a + k) bs (pool_data p)"
  proof (rule put_bytes_cong)
    fix i
    assume "i < length bs"
    then show "pool_index p (a mod unat (pool_size p) + k + i) = (a + k + i) mod unat (pool_size p)"
      using pool_index_mod [OF assms(1), of "k + i" a] assms(2) by (simp add: add.assoc)
  qed
  then show ?thesis by (simp add: put_window_def log_put_def)
qed

lemma pool_load_log:
  assumes "pool_wf p" and "k + n \<le> 2097152"
  shows "pool_load (a mod unat (pool_size p) + k) n p = (Done (log_bytes p (a + k) n), p)"
  using window_ok [OF assms] window_bytes_log [OF assms] by (simp add: pool_load_def run_defs)

lemma pool_store_log:
  assumes "pool_wf p" and "k + length bs \<le> 2097152"
  shows "pool_store (a mod unat (pool_size p) + k) bs p = (Done (), log_put p (a + k) bs)"
  using window_ok [OF assms] put_window_log [OF assms] by (simp add: pool_store_def run_defs)

section \<open>The allocator keeps the log\<close>

text \<open>\<open>hs\<close> are the sizes of the items in the order of allocation; the first \<open>length xs\<close> of them have
  been popped.\<close>

definition log_sizes_ok :: "mehcached_pool \<Rightarrow> nat list \<Rightarrow> bool" where
  "log_sizes_ok p hs \<longleftrightarrow> pool_tail p = of_nat (sum_list hs) \<and> sum_list hs + unat (pool_size p) < 2 ^ 64
     \<and> (\<forall>n \<in> set hs. 24 \<le> n \<and> n \<le> 2097152 \<and> 8 dvd n)"

definition log_head_ok :: "mehcached_pool \<Rightarrow> nat list \<Rightarrow> bool" where
  "log_head_ok p hs \<longleftrightarrow> (\<exists>xs ys. hs = xs @ ys \<and> pool_head p = of_nat (sum_list xs)
     \<and> sum_list ys \<le> unat (pool_size p))"

definition log_headers_ok :: "mehcached_pool \<Rightarrow> nat list \<Rightarrow> bool" where
  "log_headers_ok p hs \<longleftrightarrow> (\<forall>xs n ys. hs = xs @ n # ys \<longrightarrow> n + sum_list ys \<le> unat (pool_size p)
     \<longrightarrow> log_bytes p (sum_list xs) 8 = le_enc 8 (of_nat n :: u64))"

definition log_ok :: "mehcached_pool \<Rightarrow> nat list \<Rightarrow> bool" where
  "log_ok p hs \<longleftrightarrow> pool_wf p \<and> log_sizes_ok p hs \<and> log_head_ok p hs \<and> log_headers_ok p hs"

lemma log_sizes_in: "log_sizes_ok p hs \<Longrightarrow> n \<in> set hs \<Longrightarrow> 24 \<le> n \<and> n \<le> 2097152 \<and> 8 dvd n"
  by (simp add: log_sizes_ok_def)

lemma pop_head_log:
  assumes "pool_wf p" and "log_sizes_ok p (xs @ n # ys)" and "log_headers_ok p (xs @ n # ys)"
    and "pool_head p = of_nat (sum_list xs)" and "n + sum_list ys \<le> unat (pool_size p)"
  shows "mehcached_pool_pop_head p = (Done (), p\<lparr>pool_head := of_nat (sum_list xs + n)\<rparr>)"
proof -
  have small: "sum_list xs + n + sum_list ys + unat (pool_size p) < 2 ^ 64" and tail: "pool_tail p = of_nat (sum_list xs + n + sum_list ys)"
    using assms(2) by (simp_all add: log_sizes_ok_def add.assoc)
  then have "unat (of_nat (sum_list xs) :: u64) = sum_list xs" by (intro unat_u64_of_nat) simp
  then have item: "mehcached_pool_item p (pool_head p) = sum_list xs mod unat (pool_size p)"
    using pool_item_mod [OF assms(1)] assms(4) by simp
  have "log_bytes p (sum_list xs) 8 = le_enc 8 (of_nat n :: u64)"
    using assms(3,5) by (simp add: log_headers_ok_def)
  then have load: "pool_load (sum_list xs mod unat (pool_size p)) 8 p = (Done (le_enc 8 (of_nat n :: u64)), p)"
    using pool_load_log [OF assms(1), of 0 8 "sum_list xs"] by simp
  have "pool_tail p - of_nat (sum_list xs + n) = of_nat (sum_list ys)" by (simp add: tail)
  moreover have "unat (of_nat (sum_list ys) :: u64) = sum_list ys" by (rule unat_u64_of_nat) (use small in simp)
  ultimately have "pool_tail p - of_nat (sum_list xs + n) \<le> pool_size p"
    using assms(5) by (simp add: word_le_nat_alt)
  then show ?thesis
    by (simp add: mehcached_pool_pop_head_def mehcached_pool_check_invariants_def run_defs item [unfolded assms(4)] load assms(4))
qed

lemma log_bytes_head [simp]: "log_bytes (p\<lparr>pool_head := h\<rparr>) = log_bytes p"
  by (simp add: log_bytes_def fun_eq_iff)

lemma log_bytes_tail [simp]: "log_bytes (p\<lparr>pool_tail := h\<rparr>) = log_bytes p"
  by (simp add: log_bytes_def fun_eq_iff)

lemma pop_loop_log:
  assumes "pool_wf p" and "log_sizes_ok p hs" and "log_headers_ok p hs" and "hs = xs @ ys"
    and "pool_head p = of_nat (sum_list xs)" and "sum_list ys \<le> unat (pool_size p)" and "length ys < k"
    and "m \<le> unat (pool_size p)" and "sum_list hs + m + unat (pool_size p) < 2 ^ 64"
  shows "\<exists>xs' ys'. hs = xs' @ ys' \<and> sum_list ys' + m \<le> unat (pool_size p)
    \<and> pop_loop k (of_nat (sum_list hs + m)) p = (Done () :: ('r, unit) outcome, p\<lparr>pool_head := of_nat (sum_list xs')\<rparr>)"
  using assms
proof (induction ys arbitrary: xs p k)
  case Nil
  have "\<not> of_nat (sum_list xs) + of_nat m > of_nat (sum_list xs) + pool_size p"
    using Nil.prems by (simp add: word_le_nat_alt not_less unat_u64_add unat_u64_of_nat)
  then have "pop_loop k (of_nat (sum_list hs + m)) p = (Done (), p\<lparr>pool_head := of_nat (sum_list xs)\<rparr>)"
    using Nil.prems by (cases k) (simp_all add: run_defs)
  then show ?case using Nil.prems by (intro exI [of _ hs] exI [of _ "[]"]) simp
next
  case (Cons n ys)
  obtain k' where k: "k = Suc k'" using Cons.prems(7) by (cases k) auto
  have words: "unat (of_nat (sum_list hs + m) :: u64) = sum_list hs + m"
      "unat (pool_head p + pool_size p) = sum_list xs + unat (pool_size p)"
    using Cons.prems by (simp_all add: unat_u64_of_nat unat_u64_add)
  show ?case
  proof (cases "sum_list (n # ys) + m \<le> unat (pool_size p)")
    case True
    then have "\<not> of_nat (sum_list hs + m) > pool_head p + pool_size p"
      unfolding word_less_nat_alt words using Cons.prems(4) by simp
    then have "pop_loop k (of_nat (sum_list hs + m)) p = (Done (), p\<lparr>pool_head := of_nat (sum_list xs)\<rparr>)"
      using Cons.prems(5) unfolding k by (simp add: run_defs)
    then show ?thesis using True Cons.prems(4) by blast
  next
    case False
    then have go: "of_nat (sum_list hs + m) > pool_head p + pool_size p"
      unfolding word_less_nat_alt words using Cons.prems(4) by simp
    let ?q = "p\<lparr>pool_head := of_nat (sum_list xs + n)\<rparr>"
    have pop: "mehcached_pool_pop_head p = (Done () :: ('r, unit) outcome, ?q)"
      using Cons.prems by (intro pop_head_log) simp_all
    have "\<exists>xs' ys'. hs = xs' @ ys' \<and> sum_list ys' + m \<le> unat (pool_size ?q)
        \<and> pop_loop k' (of_nat (sum_list hs + m)) ?q = (Done () :: ('r, unit) outcome, ?q\<lparr>pool_head := of_nat (sum_list xs')\<rparr>)"
      by (rule Cons.IH [of ?q "xs @ [n]"])
        (use Cons.prems k in \<open>auto simp: log_sizes_ok_def log_headers_ok_def pool_wf_def\<close>)
    then show ?thesis using go pop unfolding k by (simp add: run_defs)
  qed
qed

lemma length_le_sum: "(\<And>n. n \<in> set ns \<Longrightarrow> 1 \<le> n) \<Longrightarrow> length ns \<le> sum_list (ns :: nat list)"
proof (induction ns)
  case (Cons n ns)
  have "length ns \<le> sum_list ns" using Cons by simp
  moreover have "1 \<le> n" using Cons.prems by simp
  ultimately show ?case by simp
qed simp

text \<open>What an allocation does to the pool: only the head, the tail and the header change.\<close>

lemma push_tail_log:
  assumes "log_ok p hs" and "unat item_size = n" and "24 \<le> n" and "n \<le> 2097152" and "8 dvd n"
    and "sum_list hs + n + unat (pool_size p) < 2 ^ 64"
  shows "\<exists>h. mehcached_pool_push_tail item_size p = (Done (of_nat (sum_list hs) AND MEHCACHED_ITEM_OFFSET_MASK) :: ('r, u64) outcome,
      log_put (p\<lparr>pool_head := h, pool_tail := of_nat (sum_list hs + n)\<rparr>) (sum_list hs) (le_enc 8 (of_nat n :: u64)))
    \<and> log_head_ok (p\<lparr>pool_head := h\<rparr>) (hs @ [n])"
proof -
  have wf: "pool_wf p" and sizes: "log_sizes_ok p hs" and headers: "log_headers_ok p hs" using assms(1) by (simp_all add: log_ok_def)
  have tail: "pool_tail p = of_nat (sum_list hs)" using sizes by (simp add: log_sizes_ok_def)
  have w: "ucast item_size = (of_nat n :: u64)" by (simp flip: assms(2))
  have un: "unat (of_nat n :: u64) = n" by (rule unat_u64_of_nat) (use assms(4) in simp)
  obtain xs ys where xy: "hs = xs @ ys" "pool_head p = of_nat (sum_list xs)" "sum_list ys \<le> unat (pool_size p)"
    using assms(1) by (auto simp: log_ok_def log_head_ok_def)
  have "1 \<le> m" if "m \<in> set ys" for m using log_sizes_in [OF sizes, of m] xy(1) that by simp
  then have "length ys \<le> sum_list ys" by (rule length_le_sum)
  then have fuel: "length ys < Suc (unat (pool_size p))" using xy(3) by simp
  have le: "n \<le> unat (pool_size p)" using pool_wf_size(1) [OF wf] assms(4) by simp
  obtain xs' ys' where xy': "hs = xs' @ ys'" "sum_list ys' + n \<le> unat (pool_size p)"
      and pop: "pop_loop (Suc (unat (pool_size p))) (of_nat (sum_list hs + n)) p
        = (Done () :: ('r, unit) outcome, p\<lparr>pool_head := of_nat (sum_list xs')\<rparr>)"
    using pop_loop_log [OF wf sizes headers xy fuel le assms(6)] by blast
  let ?p1 = "p\<lparr>pool_head := of_nat (sum_list xs')\<rparr>"
  have wf1: "pool_wf ?p1" using wf by (simp add: pool_wf_def)
  have us: "unat (of_nat (sum_list hs) :: u64) = sum_list hs" by (rule unat_u64_of_nat) (use assms(6) in simp)
  have item: "mehcached_pool_item ?p1 (of_nat (sum_list hs)) = sum_list hs mod unat (pool_size p)"
    using pool_item_mod [OF wf1] us by simp
  have store: "pool_store (sum_list hs mod unat (pool_size p)) (le_enc 8 (of_nat n :: u64)) ?p1
      = (Done () :: ('r, unit) outcome, log_put ?p1 (sum_list hs) (le_enc 8 (of_nat n :: u64)))"
    using pool_store_log [OF wf1, of 0 "le_enc 8 (of_nat n :: u64)" "sum_list hs"] by simp
  have "of_nat (sum_list hs + n) - of_nat (sum_list xs') = (of_nat (sum_list ys' + n) :: u64)" by (simp add: xy'(1))
  moreover have "unat (of_nat (sum_list ys' + n) :: u64) = sum_list ys' + n" by (rule unat_u64_of_nat) (use assms(6) xy'(1) in simp)
  ultimately have inv: "of_nat (sum_list hs + n) - of_nat (sum_list xs') \<le> pool_size p"
    using xy'(2) by (simp only: word_le_nat_alt)
  have round: "of_nat n = MEHCACHED_ROUNDUP8 (of_nat n)" using ROUNDUP8_self_iff [of "of_nat n"] assms(4,5) un by simp
  have small: "of_nat n \<le> pool_size p" using le un by (simp add: word_le_nat_alt)
  have sum: "of_nat (sum_list hs) + of_nat n = (of_nat (sum_list hs + n) :: u64)" by simp
  have "log_head_ok ?p1 (hs @ [n])"
    unfolding log_head_ok_def using xy' by (intro exI [of _ xs'] exI [of _ "ys' @ [n]"]) simp
  moreover have "mehcached_pool_push_tail item_size p = (Done (of_nat (sum_list hs) AND MEHCACHED_ITEM_OFFSET_MASK) :: ('r, u64) outcome,
      log_put (p\<lparr>pool_head := of_nat (sum_list xs'), pool_tail := of_nat (sum_list hs + n)\<rparr>) (sum_list hs) (le_enc 8 (of_nat n :: u64)))"
    unfolding mehcached_pool_push_tail_def mehcached_pool_check_invariants_def w
    using round small inv pop store item
    by (simp add: run_steps tail log_put_def del: pop_loop.simps)
  ultimately show ?thesis by blast
qed

lemma push_tail_log_ok:
  assumes "log_ok p hs" and "24 \<le> n" and "n \<le> 2097152" and "8 dvd n"
    and "sum_list hs + n + unat (pool_size p) < 2 ^ 64" and "log_head_ok (p\<lparr>pool_head := h\<rparr>) (hs @ [n])"
  shows "log_ok (log_put (p\<lparr>pool_head := h, pool_tail := of_nat (sum_list hs + n)\<rparr>) (sum_list hs) (le_enc 8 (of_nat n :: u64))) (hs @ [n])"
    (is "log_ok ?q _")
proof -
  have wf: "pool_wf p" and sizes: "log_sizes_ok p hs" and headers: "log_headers_ok p hs" using assms(1) by (simp_all add: log_ok_def)
  have "log_headers_ok ?q (hs @ [n])" unfolding log_headers_ok_def
  proof (intro allI impI)
    fix xs m ys
    assume eq: "hs @ [n] = xs @ m # ys" and fits: "m + sum_list ys \<le> unat (pool_size ?q)"
    show "log_bytes ?q (sum_list xs) 8 = le_enc 8 (of_nat m :: u64)"
    proof (cases ys rule: rev_cases)
      case Nil
      then have "hs = xs" "n = m" using eq by auto
      then show ?thesis
        using log_bytes_put_inside [of "le_enc 8 (of_nat n :: u64)" _ 0 8 "sum_list hs"] pool_wf_size(1) [OF wf] by simp
    next
      case (snoc zs z)
      then have hs: "hs = xs @ m # zs" "z = n" using eq by auto
      have "8 \<le> m" using log_sizes_in [OF sizes, of m] hs by simp
      then have "log_bytes ?q (sum_list xs) 8 = log_bytes p (sum_list xs) 8"
        using fits snoc hs(2) assms(2) by (subst log_bytes_put_before) (simp_all add: hs(1))
      then show ?thesis using headers fits snoc hs by (simp add: log_headers_ok_def)
    qed
  qed
  moreover have "pool_wf ?q" using wf by (simp add: pool_wf_def)
  moreover have "log_sizes_ok ?q (hs @ [n])" using sizes assms by (auto simp: log_sizes_ok_def)
  moreover have "log_head_ok ?q (hs @ [n])" using assms(6) by (simp add: log_head_ok_def)
  ultimately show ?thesis by (simp add: log_ok_def)
qed

lemma split_cases:
  assumes "xs @ n # ys = xs' @ n' # (ys' :: nat list)"
  shows "(xs = xs' \<and> n = n' \<and> ys = ys') \<or> sum_list xs' + n' \<le> sum_list xs \<or> sum_list xs + n \<le> sum_list xs'"
  using assms
proof (induction xs arbitrary: xs')
  case Nil
  then show ?case by (cases xs') auto
next
  case (Cons x xs)
  then show ?case by (cases xs') fastforce+
qed

text \<open>Writing inside the body of an item that is still in the ring.\<close>

lemma item_put_log_ok:
  assumes "log_ok p (xs @ n # ys)" and "n + sum_list ys \<le> unat (pool_size p)"
    and "8 \<le> k" and "k + length bs \<le> n"
  shows "log_ok (log_put p (sum_list xs + k) bs) (xs @ n # ys)"
proof -
  let ?q = "log_put p (sum_list xs + k) bs"
  have sizes: "log_sizes_ok p (xs @ n # ys)" and headers: "log_headers_ok p (xs @ n # ys)"
    using assms(1) by (simp_all add: log_ok_def)
  have "log_headers_ok ?q (xs @ n # ys)" unfolding log_headers_ok_def
  proof (intro allI impI)
    fix xs' m ys'
    assume eq: "xs @ n # ys = xs' @ m # ys'" and fits: "m + sum_list ys' \<le> unat (pool_size ?q)"
    have m: "8 \<le> m" using log_sizes_in [OF sizes, of m] eq by simp
    have total: "sum_list xs + n + sum_list ys = sum_list xs' + m + sum_list ys'"
      using arg_cong [OF eq, of sum_list] by simp
    have "log_bytes ?q (sum_list xs') 8 = log_bytes p (sum_list xs') 8"
      using split_cases [OF eq]
    proof (elim disjE)
      assume "sum_list xs + n \<le> sum_list xs'"
      then show ?thesis using assms fits m total by (intro log_bytes_put_after) simp_all
    qed (use assms fits m total in \<open>intro log_bytes_put_before, simp_all\<close>)+
    then show "log_bytes ?q (sum_list xs') 8 = le_enc 8 (of_nat m :: u64)"
      using headers fits eq by (simp add: log_headers_ok_def)
  qed
  then show ?thesis using assms(1) by (simp add: log_ok_def log_sizes_ok_def log_head_ok_def)
qed

section \<open>Validity of an offset\<close>

definition age :: "mehcached_pool \<Rightarrow> u64 \<Rightarrow> nat" where
  "age p off = unat ((pool_tail p - off) AND MEHCACHED_ITEM_OFFSET_MASK)"

lemma offset_mask: "w AND MEHCACHED_ITEM_OFFSET_MASK = take_bit 48 w"
  by (simp add: MEHCACHED_ITEM_OFFSET_MASK_def take_bit_eq_mask mask_eq_decr_exp)

lemma is_valid_age: "mehcached_pool_is_valid p off \<longleftrightarrow> age p off \<le> unat (pool_size p)"
  by (simp add: mehcached_pool_is_valid_def age_def word_le_nat_alt)

lemma take_bit_minus_inner: "take_bit k (x - take_bit k y) = take_bit k (x - y :: 'a::len word)"
  by transfer (metis take_bit_diff take_bit_take_bit min.idem)

lemma take_bit_plus_inner: "take_bit k (take_bit k x + y) = take_bit k (x + y :: 'a::len word)"
  by transfer (metis take_bit_add take_bit_take_bit min.idem)

lemma age_of_offset:
  assumes "pool_tail p = of_nat t" and "a \<le> t" and "t - a < 2 ^ 48"
  shows "age p (of_nat a AND MEHCACHED_ITEM_OFFSET_MASK) = t - a"
proof -
  have "take_bit 48 (of_nat t - take_bit 48 (of_nat a)) = take_bit 48 (of_nat t - of_nat a :: u64)"
    by (rule take_bit_minus_inner)
  also have "of_nat t - of_nat a = (of_nat (t - a) :: u64)" using assms(2) by (simp add: of_nat_diff)
  finally have "age p (of_nat a AND MEHCACHED_ITEM_OFFSET_MASK) = unat (take_bit 48 (of_nat (t - a) :: u64))"
    by (simp only: age_def offset_mask assms(1))
  also have "unat (of_nat (t - a) :: u64) = t - a" by (rule unat_u64_of_nat) (use assms(3) in simp)
  then have "unat (take_bit 48 (of_nat (t - a) :: u64)) = t - a"
    using assms(3) by (simp add: unsigned_take_bit_eq take_bit_nat_eq_self)
  finally show ?thesis .
qed

text \<open>When the tail moves by \<open>n\<close>, an offset ages by \<open>n\<close> unless its 48 bits wrap.\<close>

lemma age_advance:
  assumes "pool_tail q = pool_tail p + of_nat n" and "age p off + n < 2 ^ 48"
  shows "age q off = age p off + n"
proof -
  have small: "age p off < 2 ^ 64" "n < 2 ^ 48" using assms(2) by simp_all
  have "take_bit 48 (pool_tail q - off) = take_bit 48 (take_bit 48 (pool_tail p - off) + of_nat n)"
    unfolding assms(1) take_bit_plus_inner by (simp add: algebra_simps)
  also have "take_bit 48 (pool_tail p - off) = of_nat (age p off)"
    by (simp add: age_def offset_mask)
  also have "of_nat (age p off) + of_nat n = (of_nat (age p off + n) :: u64)" by simp
  finally have "age q off = unat (take_bit 48 (of_nat (age p off + n) :: u64))" by (simp only: age_def offset_mask)
  also have "unat (of_nat (age p off + n) :: u64) = age p off + n" by (rule unat_u64_of_nat) (use assms(2) in simp)
  then have "unat (take_bit 48 (of_nat (age p off + n) :: u64)) = age p off + n"
    using assms(2) by (simp only: unsigned_take_bit_eq) (simp add: take_bit_nat_eq_self)
  finally show ?thesis .
qed

end
