(* ===== verification/Mica_Shm.thy ===== *)
theory Mica_Shm
  imports Mica_Pool
begin

text \<open>
  The shared-memory manager of the MICA key-value store (\<^verbatim>\<open>shm.c\<close>): huge pages backed by files, entries
  that own a list of pages, and mappings of an entry at an address. The arrays are functions of the
  index; an index outside them has outcome \<open>Undef\<close>. The answers of the kernel are a parameter: \<open>sys\<close> gives
  the result of each system call in order, and \<open>vmem\<close> records which file is mapped at which address.
  \<^verbatim>\<open>malloc\<close> does not fail. \<open>shm_inv\<close> is the invariant of the manager: every page in use belongs to exactly one entry, the reference
  count of an entry is the number of its mappings, and an entry waits for its removal only
  while it is mapped.
\<close>

section \<open>State\<close>

record mehcached_shm_page =
  path :: string
  page_addr :: u64
  page_paddr :: u64
  numa_node :: u64
  in_use :: u64

record mehcached_shm_entry =
  refcount :: u64
  to_remove :: u64
  entry_length :: u64
  entry_num_pages :: u64
  pages :: "nat list option"

record mehcached_shm_mapping =
  entry_id :: nat
  map_addr :: u64
  map_length :: u64
  page_offset :: u64
  map_num_pages :: u64

definition MEHCACHED_SHM_MAX_PAGES :: nat where "MEHCACHED_SHM_MAX_PAGES = 65536"
definition MEHCACHED_SHM_MAX_ENTRIES :: nat where "MEHCACHED_SHM_MAX_ENTRIES = 8192"
definition MEHCACHED_SHM_MAX_MAPPINGS :: nat where "MEHCACHED_SHM_MAX_MAPPINGS = 16384"

record shm =
  shm_page_size :: u64
  shm_state_lock :: u64
  shm_pages :: "nat \<Rightarrow> mehcached_shm_page"
  shm_entries :: "nat \<Rightarrow> mehcached_shm_entry"
  shm_mappings :: "nat \<Rightarrow> mehcached_shm_mapping"
  shm_used_memory :: u64
  vmem :: "u64 \<Rightarrow> string option"
  sys :: "nat \<Rightarrow> u64"
  ticks :: nat

definition zero_page :: mehcached_shm_page where
  "zero_page = \<lparr>path = [], page_addr = 0, page_paddr = 0, numa_node = 0, in_use = 0\<rparr>"

definition zero_entry :: mehcached_shm_entry where
  "zero_entry = \<lparr>refcount = 0, to_remove = 0, entry_length = 0, entry_num_pages = 0, pages = None\<rparr>"

definition zero_mapping :: mehcached_shm_mapping where
  "zero_mapping = \<lparr>entry_id = 0, map_addr = 0, map_length = 0, page_offset = 0, map_num_pages = 0\<rparr>"

definition syscall :: "(shm, 'r, u64) body" where
  "syscall s = (Done (sys s (ticks s)), s\<lparr>ticks := Suc (ticks s)\<rparr>)"

abbreviation FAILED :: u64 where "FAILED \<equiv> - 1"

definition set_page :: "nat \<Rightarrow> (mehcached_shm_page \<Rightarrow> mehcached_shm_page) \<Rightarrow> shm \<Rightarrow> shm" where
  "set_page i f s = s\<lparr>shm_pages := (shm_pages s)(i := f (shm_pages s i))\<rparr>"

definition set_entry :: "nat \<Rightarrow> (mehcached_shm_entry \<Rightarrow> mehcached_shm_entry) \<Rightarrow> shm \<Rightarrow> shm" where
  "set_entry i f s = s\<lparr>shm_entries := (shm_entries s)(i := f (shm_entries s i))\<rparr>"

definition set_mapping :: "nat \<Rightarrow> mehcached_shm_mapping \<Rightarrow> shm \<Rightarrow> shm" where
  "set_mapping i m s = s\<lparr>shm_mappings := (shm_mappings s)(i := m)\<rparr>"

section \<open>Operations\<close>

definition mehcached_shm_adjust_size :: "u64 \<Rightarrow> u64" where
  "mehcached_shm_adjust_size len = MEHCACHED_ROUNDUP2M len"

text \<open>The spin lock. One thread runs at a time, so a lock that is taken is never released.\<close>

definition mehcached_shm_lock :: "(shm, 'r, unit) body" where
  "mehcached_shm_lock = bnd (guardM (\<lambda>s. shm_state_lock s = 0)) (\<lambda>_. modifyM (\<lambda>s. s\<lparr>shm_state_lock := 1\<rparr>))"

definition mehcached_shm_unlock :: "(shm, 'r, unit) body" where
  "mehcached_shm_unlock = modifyM (\<lambda>s. s\<lparr>shm_state_lock := 0\<rparr>)"

text \<open>A search loop: the first index from \<open>i\<close> on that satisfies \<open>P\<close>, among the next \<open>k\<close>, else their end.\<close>

fun first_from :: "(nat \<Rightarrow> bool) \<Rightarrow> nat \<Rightarrow> nat \<Rightarrow> nat" where
  "first_from P 0 i = i"
| "first_from P (Suc k) i = (if P i then i else first_from P k (Suc i))"

text \<open>The address returned lies in a region the kernel has just given and taken back, where no file
  is mapped.\<close>

definition mehcached_shm_find_free_address :: "u64 \<Rightarrow> (shm, u64, u64) body" where
  "mehcached_shm_find_free_address len =
     bnd (gets (\<lambda>s. if shm_page_size s = 0 then 1 else shm_page_size s)) (\<lambda>alignment.
     bnd (whenM (mehcached_next_power_of_two alignment \<noteq> Some alignment) (exit_with 0)) (\<lambda>_.
     bnd syscall (\<lambda>fd.
     bnd (assertM (\<lambda>_. fd \<noteq> FAILED)) (\<lambda>_.
     bnd syscall (\<lambda>p.
     bnd (whenM (p = FAILED) (exit_with 0)) (\<lambda>_.
     ret ((p + (alignment - 1)) AND NOT (alignment - 1))))))))"

text \<open>The loop over the pages in \<^verbatim>\<open>mehcached_shm_alloc\<close>.\<close>

fun pick_pages :: "(nat \<Rightarrow> mehcached_shm_page) \<Rightarrow> u64 \<Rightarrow> nat \<Rightarrow> nat \<Rightarrow> nat \<Rightarrow> nat list \<Rightarrow> nat list" where
  "pick_pages pg node num_pages 0 page_id acc = acc"
| "pick_pages pg node num_pages (Suc k) page_id acc =
     (if length acc = num_pages then acc
      else if page_addr (pg page_id) = 0 then pick_pages pg node num_pages k (Suc page_id) acc
      else if in_use (pg page_id) \<noteq> 0 \<or> numa_node (pg page_id) \<noteq> node then pick_pages pg node num_pages k (Suc page_id) acc
      else pick_pages pg node num_pages k (Suc page_id) (acc @ [page_id]))"

definition mark_pages :: "nat list \<Rightarrow> u64 \<Rightarrow> shm \<Rightarrow> shm" where
  "mark_pages ps v s = fold (\<lambda>i. set_page i (\<lambda>p. p\<lparr>in_use := v\<rparr>)) ps s"

definition mehcached_shm_alloc :: "u64 \<Rightarrow> u64 \<Rightarrow> (shm, nat option, nat option) body" where
  "mehcached_shm_alloc len node0 = (let node = (if node0 = - 1 then 0 else node0) in
     bnd mehcached_shm_lock (\<lambda>_.
     bnd (gets (\<lambda>s. first_from (\<lambda>e. pages (shm_entries s e) = None) MEHCACHED_SHM_MAX_ENTRIES 0)) (\<lambda>e.
     bnd (whenM (e = MEHCACHED_SHM_MAX_ENTRIES) (bnd mehcached_shm_unlock (\<lambda>_. exit_with None))) (\<lambda>_.
     bnd (guardM (\<lambda>s. shm_page_size s \<noteq> 0)) (\<lambda>_.
     bnd (gets (\<lambda>s. (len + (shm_page_size s - 1)) div shm_page_size s)) (\<lambda>num_pages.
     bnd (gets (\<lambda>s. pick_pages (shm_pages s) node (unat num_pages) MEHCACHED_SHM_MAX_PAGES 0 [])) (\<lambda>ps.
     bnd (modifyM (set_entry e (\<lambda>en. en\<lparr>entry_length := len, entry_num_pages := num_pages, pages := Some ps\<rparr>))) (\<lambda>_.
     bnd (whenM (unat num_pages \<noteq> length ps)
            (bnd (modifyM (set_entry e (\<lambda>_. zero_entry))) (\<lambda>_. bnd mehcached_shm_unlock (\<lambda>_. exit_with None)))) (\<lambda>_.
     bnd (modifyM (mark_pages ps 1)) (\<lambda>_.
     bnd mehcached_shm_unlock (\<lambda>_.
     ret (Some e))))))))))))"

text \<open>The entry is cleared before its page count is read for the statistics.\<close>

definition mehcached_shm_check_remove :: "nat \<Rightarrow> (shm, 'r, unit) body" where
  "mehcached_shm_check_remove e =
     bnd (gets (\<lambda>s. shm_entries s e)) (\<lambda>en.
     whenM (refcount en = 0 \<and> to_remove en \<noteq> 0)
       (bnd (modifyM (mark_pages (take (unat (entry_num_pages en)) (case pages en of None \<Rightarrow> [] | Some ps \<Rightarrow> ps)) 0)) (\<lambda>_.
        bnd (modifyM (set_entry e (\<lambda>_. zero_entry))) (\<lambda>_.
        modifyM (\<lambda>s. s\<lparr>shm_used_memory := shm_used_memory s - entry_num_pages (shm_entries s e) * shm_page_size s\<rparr>)))))"

definition mehcached_shm_schedule_remove :: "nat \<Rightarrow> (shm, bool, bool) body" where
  "mehcached_shm_schedule_remove e =
     bnd mehcached_shm_lock (\<lambda>_.
     bnd (guardM (\<lambda>_. e < MEHCACHED_SHM_MAX_ENTRIES)) (\<lambda>_.
     bnd (gets (\<lambda>s. shm_entries s e)) (\<lambda>en.
     bnd (whenM (pages en = None) (bnd mehcached_shm_unlock (\<lambda>_. exit_with False))) (\<lambda>_.
     bnd (modifyM (set_entry e (\<lambda>en. en\<lparr>to_remove := 1\<rparr>))) (\<lambda>_.
     bnd (mehcached_shm_check_remove e) (\<lambda>_.
     bnd mehcached_shm_unlock (\<lambda>_.
     ret True)))))))"

text \<open>The two loops of \<^verbatim>\<open>mehcached_shm_map\<close>: mapping page after page, with the index reached and
  whether a call failed, and the clean-up.\<close>

fun map_loop :: "nat list \<Rightarrow> nat \<Rightarrow> nat \<Rightarrow> u64 \<Rightarrow> (shm, 'r, nat \<times> bool) body" where
  "map_loop ps 0 page_index p = ret (page_index, False)"
| "map_loop ps (Suc k) page_index p =
     bnd (guardM (\<lambda>_. page_index < length ps)) (\<lambda>_.
     bnd syscall (\<lambda>fd.
     bnd (assertM (\<lambda>_. fd \<noteq> FAILED)) (\<lambda>_.
     bnd syscall (\<lambda>ret_p.
     if ret_p = FAILED then ret (page_index, True)
     else bnd (modifyM (\<lambda>s. s\<lparr>vmem := (vmem s)(p := Some (path (shm_pages s (ps ! page_index))))\<rparr>)) (\<lambda>_.
       bnd (gets shm_page_size) (\<lambda>sz. map_loop ps k (Suc page_index) (p + sz)))))))"

fun unmap_loop :: "nat \<Rightarrow> u64 \<Rightarrow> (shm, 'r, unit) body" where
  "unmap_loop 0 p = ret ()"
| "unmap_loop (Suc k) p = bnd (modifyM (\<lambda>s. s\<lparr>vmem := (vmem s)(p := None)\<rparr>)) (\<lambda>_.
     bnd (gets shm_page_size) (\<lambda>sz. unmap_loop k (p + sz)))"

definition register_mapping :: "nat \<Rightarrow> nat \<Rightarrow> mehcached_shm_mapping \<Rightarrow> (shm, 'r, unit) body" where
  "register_mapping e mapping_id m =
     bnd (gets (\<lambda>s. shm_entries s e)) (\<lambda>en.
     bnd (whenM (refcount en = 0) (modifyM (\<lambda>s. s\<lparr>shm_used_memory := shm_used_memory s + entry_num_pages en * shm_page_size s\<rparr>))) (\<lambda>_.
     bnd (modifyM (set_entry e (\<lambda>en. en\<lparr>refcount := refcount en + 1\<rparr>))) (\<lambda>_.
     modifyM (set_mapping mapping_id m))))"

definition mehcached_shm_map :: "nat \<Rightarrow> u64 \<Rightarrow> u64 \<Rightarrow> u64 \<Rightarrow> (shm, bool, bool) body" where
  "mehcached_shm_map e ptr offset len =
     bnd (gets shm_page_size) (\<lambda>sz.
     bnd (whenM (ptr AND NOT (sz - 1) \<noteq> ptr) (exit_with False)) (\<lambda>_.
     bnd (whenM (offset AND NOT (sz - 1) \<noteq> offset) (exit_with False)) (\<lambda>_.
     bnd mehcached_shm_lock (\<lambda>_.
     let fail = bnd mehcached_shm_unlock (\<lambda>_. exit_with False) in
     bnd (guardM (\<lambda>_. e < MEHCACHED_SHM_MAX_ENTRIES)) (\<lambda>_.
     bnd (gets (\<lambda>s. shm_entries s e)) (\<lambda>en.
     bnd (whenM (pages en = None) fail) (\<lambda>_.
     bnd (whenM (offset > entry_length en) fail) (\<lambda>_.
     bnd (whenM (offset + len > entry_length en) fail) (\<lambda>_.
     bnd (gets (\<lambda>s. first_from (\<lambda>m. map_addr (shm_mappings s m) = 0) MEHCACHED_SHM_MAX_MAPPINGS 0)) (\<lambda>mapping_id.
     bnd (whenM (mapping_id = MEHCACHED_SHM_MAX_MAPPINGS) fail) (\<lambda>_.
     bnd (guardM (\<lambda>_. sz \<noteq> 0)) (\<lambda>_.
     let first = offset div sz; num_pages = (len + (sz - 1)) div sz in
     bnd (map_loop (the (pages en)) (unat (first + num_pages) - unat first) (unat first) ptr) (\<lambda>(page_index, error).
     bnd (whenM error (bnd (unmap_loop (page_index - unat first) ptr) (\<lambda>_. fail))) (\<lambda>_.
     bnd (register_mapping e mapping_id \<lparr>entry_id = e, map_addr = ptr, map_length = len, page_offset = first, map_num_pages = num_pages\<rparr>) (\<lambda>_.
     bnd mehcached_shm_unlock (\<lambda>_.
     ret True))))))))))))))))"

definition mehcached_shm_unmap :: "u64 \<Rightarrow> (shm, bool, bool) body" where
  "mehcached_shm_unmap ptr =
     bnd mehcached_shm_lock (\<lambda>_.
     bnd (gets (\<lambda>s. first_from (\<lambda>m. map_addr (shm_mappings s m) = ptr) MEHCACHED_SHM_MAX_MAPPINGS 0)) (\<lambda>mapping_id.
     bnd (whenM (mapping_id = MEHCACHED_SHM_MAX_MAPPINGS) (bnd mehcached_shm_unlock (\<lambda>_. exit_with False))) (\<lambda>_.
     bnd (gets (\<lambda>s. shm_mappings s mapping_id)) (\<lambda>m.
     bnd (unmap_loop (unat (map_num_pages m)) ptr) (\<lambda>_.
     bnd (modifyM (set_entry (entry_id m) (\<lambda>en. en\<lparr>refcount := refcount en - 1\<rparr>))) (\<lambda>_.
     bnd (mehcached_shm_check_remove (entry_id m)) (\<lambda>_.
     bnd (modifyM (set_mapping mapping_id zero_mapping)) (\<lambda>_.
     bnd mehcached_shm_unlock (\<lambda>_.
     ret True)))))))))"

definition mehcached_shm_get_page_size :: "shm \<Rightarrow> u64" where
  "mehcached_shm_get_page_size s = shm_page_size s"

definition mehcached_shm_get_memuse :: "shm \<Rightarrow> u64" where
  "mehcached_shm_get_memuse s = shm_used_memory s"

section \<open>Initialisation\<close>

text \<open>The decimal digits that \<^verbatim>\<open>%zu\<close> prints, and the path of a page.\<close>

fun decimal :: "nat \<Rightarrow> string" where
  "decimal n = (if n < 10 then [char_of (48 + n)] else decimal (n div 10) @ [char_of (48 + n mod 10)])"

declare decimal.simps [simp del]

definition mehcached_shm_path :: "nat \<Rightarrow> string" where
  "mehcached_shm_path page_id = ''/homes/nikita/huge/mehcached_shm_'' @ decimal page_id"

text \<open>The first loop: create, size and map one file for each page. The loop ends early when a mapping fails.\<close>

fun create_loop :: "nat \<Rightarrow> nat \<Rightarrow> (shm, 'r, nat) body" where
  "create_loop 0 page_id = ret page_id"
| "create_loop (Suc k) page_id =
     bnd syscall (\<lambda>fd. bnd (assertM (\<lambda>_. fd \<noteq> FAILED)) (\<lambda>_.
     bnd syscall (\<lambda>fret. bnd (assertM (\<lambda>_. fret \<noteq> FAILED)) (\<lambda>_.
     bnd syscall (\<lambda>p.
     if p = FAILED then ret page_id
     else bnd (modifyM (\<lambda>s. (set_page page_id (\<lambda>pg. pg\<lparr>path := mehcached_shm_path page_id, page_addr := p\<rparr>) s)
              \<lparr>vmem := (vmem s)(p := Some (mehcached_shm_path page_id))\<rparr>)) (\<lambda>_.
       create_loop k (Suc page_id)))))))"

text \<open>\<^verbatim>\<open>qsort\<close> on the first \<open>n\<close> pages. The comparison functions never answer that two pages are equal;
  pages with equal keys, which distinct mappings do not have, stay in order here.\<close>

definition sort_pages :: "(mehcached_shm_page \<Rightarrow> u64) \<Rightarrow> nat \<Rightarrow> shm \<Rightarrow> shm" where
  "sort_pages key n s = (let ps = sort_key key (map (shm_pages s) [0..<n]) in
     s\<lparr>shm_pages := (\<lambda>i. if i < n then ps ! i else shm_pages s i)\<rparr>)"

text \<open>A line of \<^verbatim>\<open>/proc/self/numa_maps\<close>: the address it starts with and the node it names, if any.\<close>

type_synonym numa_line = "u64 \<times> u64 option"

fun numa_loop :: "numa_line list \<Rightarrow> nat \<Rightarrow> nat \<Rightarrow> (shm, 'r, nat) body" where
  "numa_loop [] n page_id = ret page_id"
| "numa_loop ((addr, node) # ls) n page_id =
     bnd (gets (\<lambda>s. shm_pages s page_id)) (\<lambda>pg.
     if page_id < n \<and> page_addr pg = addr
     then bnd (assertM (\<lambda>_. node \<noteq> None)) (\<lambda>_.
       bnd (modifyM (set_page page_id (\<lambda>pg. pg\<lparr>numa_node := the node\<rparr>))) (\<lambda>_. numa_loop ls n (Suc page_id)))
     else numa_loop ls n page_id)"

text \<open>The physical addresses: \<open>pagemap\<close> is the entry \<^verbatim>\<open>/proc/self/pagemap\<close> has for a page frame, none when it cannot be read.\<close>

fun paddr_loop :: "(u64 \<Rightarrow> u64 option) \<Rightarrow> u64 \<Rightarrow> nat \<Rightarrow> nat \<Rightarrow> (shm, 'r, unit) body" where
  "paddr_loop pagemap normal_page_size 0 page_id = ret ()"
| "paddr_loop pagemap normal_page_size (Suc k) page_id =
     bnd (gets (\<lambda>s. pagemap (page_addr (shm_pages s page_id) div normal_page_size))) (\<lambda>entry.
     bnd (assertM (\<lambda>_. entry \<noteq> None)) (\<lambda>_.
     bnd (modifyM (set_page page_id (\<lambda>pg. pg\<lparr>page_paddr := (the entry AND 0x7fffffffffffff) * normal_page_size\<rparr>))) (\<lambda>_.
     paddr_loop pagemap normal_page_size k (Suc page_id))))"

text \<open>The last loop: pages beyond the quota of their node are released.\<close>

fun release_loop :: "u64 \<Rightarrow> u64 \<Rightarrow> nat \<Rightarrow> nat \<Rightarrow> (u64 \<Rightarrow> u64) \<Rightarrow> (shm, 'r, u64 \<Rightarrow> u64) body" where
  "release_loop num_numa_nodes per_node 0 page_id reserved = ret reserved"
| "release_loop num_numa_nodes per_node (Suc k) page_id reserved =
     bnd (gets (\<lambda>s. shm_pages s page_id)) (\<lambda>pg.
     bnd (guardM (\<lambda>_. numa_node pg < num_numa_nodes)) (\<lambda>_.
     if reserved (numa_node pg) < per_node
     then release_loop num_numa_nodes per_node k (Suc page_id) (reserved(numa_node pg := reserved (numa_node pg) + 1))
     else bnd (modifyM (\<lambda>s. (set_page page_id (\<lambda>_. zero_page) s)\<lparr>vmem := (vmem s)(page_addr pg := None)\<rparr>)) (\<lambda>_.
       release_loop num_numa_nodes per_node k (Suc page_id) reserved)))"

definition mehcached_shm_init :: "numa_line list \<Rightarrow> (u64 \<Rightarrow> u64 option) \<Rightarrow> u64 \<Rightarrow> u64 \<Rightarrow> u64 \<Rightarrow> u64 \<Rightarrow> u64 \<Rightarrow> (shm, 'r, unit) body" where
  "mehcached_shm_init numa_maps pagemap normal_page_size page_size num_numa_nodes num_pages_to_try num_pages_to_reserve =
     bnd (assertM (\<lambda>_. mehcached_next_power_of_two page_size = Some page_size)) (\<lambda>_.
     bnd (assertM (\<lambda>_. num_numa_nodes \<ge> 1)) (\<lambda>_.
     bnd (assertM (\<lambda>_. unat num_pages_to_try \<le> MEHCACHED_SHM_MAX_PAGES)) (\<lambda>_.
     bnd (assertM (\<lambda>_. num_pages_to_reserve \<le> num_pages_to_try)) (\<lambda>_.
     bnd (modifyM (\<lambda>s. s\<lparr>shm_state_lock := 0, shm_page_size := page_size, shm_pages := (\<lambda>_. zero_page), shm_entries := (\<lambda>_. zero_entry),
            shm_mappings := (\<lambda>_. zero_mapping), shm_used_memory := 0\<rparr>)) (\<lambda>_.
     bnd (create_loop (unat num_pages_to_try) 0) (\<lambda>num_allocated_pages.
     bnd (modifyM (sort_pages page_addr num_allocated_pages)) (\<lambda>_.
     bnd (numa_loop numa_maps num_allocated_pages 0) (\<lambda>page_id.
     bnd (assertM (\<lambda>_. page_id = num_allocated_pages)) (\<lambda>_.
     bnd (paddr_loop pagemap normal_page_size num_allocated_pages 0) (\<lambda>_.
     bnd (modifyM (sort_pages page_paddr num_allocated_pages)) (\<lambda>_.
     bnd (release_loop num_numa_nodes (num_pages_to_reserve div num_numa_nodes) num_allocated_pages 0 (\<lambda>_. 0)) (\<lambda>_.
     ret ()))))))))))))"

end
