(* ===== verification/Mica_Pages.thy ===== *)
theory Mica_Pages
  imports Mica_Shm
begin

text \<open>
  The invariant of the shared-memory manager (\<^verbatim>\<open>shm.c\<close>): every page in use belongs to one entry, and the
  reference count of an entry is the number of its mappings. Initialisation establishes it, every operation
  keeps it, and so does every sequence of operations. The memory statistics, on the other hand, never go down.
\<close>

section \<open>Invariant\<close>

definition owned :: "shm \<Rightarrow> nat \<Rightarrow> nat set" where
  "owned s e = (case pages (shm_entries s e) of None \<Rightarrow> {} | Some ps \<Rightarrow> set ps)"

definition maps_of :: "shm \<Rightarrow> nat \<Rightarrow> nat set" where
  "maps_of s e = {m. m < MEHCACHED_SHM_MAX_MAPPINGS \<and> map_addr (shm_mappings s m) \<noteq> 0 \<and> entry_id (shm_mappings s m) = e}"

text \<open>The number of pages that hold a number of bytes.\<close>

definition pages_for :: "nat \<Rightarrow> nat \<Rightarrow> nat" where
  "pages_for sz len = (len + (sz - 1)) div sz"

definition entry_inv :: "shm \<Rightarrow> nat \<Rightarrow> bool" where
  "entry_inv s e \<longleftrightarrow> (case pages (shm_entries s e) of
     None \<Rightarrow> shm_entries s e = zero_entry \<and> maps_of s e = {}
   | Some ps \<Rightarrow> length ps = unat (entry_num_pages (shm_entries s e)) \<and> distinct ps
       \<and> length ps = pages_for (unat (shm_page_size s)) (unat (entry_length (shm_entries s e)))
       \<and> (\<forall>p \<in> set ps. p < MEHCACHED_SHM_MAX_PAGES \<and> page_addr (shm_pages s p) \<noteq> 0 \<and> in_use (shm_pages s p) \<noteq> 0)
       \<and> unat (refcount (shm_entries s e)) = card (maps_of s e))"

text \<open>Entries in \<open>E\<close> may be unmapped and scheduled for removal; this is so for the entry at hand inside an operation only.\<close>

definition shm_inv_but :: "nat set \<Rightarrow> shm \<Rightarrow> bool" where
  "shm_inv_but E s \<longleftrightarrow> (\<exists>k < 64. shm_page_size s = 2 ^ k)
     \<and> (\<forall>e < MEHCACHED_SHM_MAX_ENTRIES. entry_inv s e)
     \<and> (\<forall>e < MEHCACHED_SHM_MAX_ENTRIES. e \<notin> E \<longrightarrow> to_remove (shm_entries s e) \<noteq> 0 \<longrightarrow> refcount (shm_entries s e) \<noteq> 0)
     \<and> (\<forall>e < MEHCACHED_SHM_MAX_ENTRIES. \<forall>e' < MEHCACHED_SHM_MAX_ENTRIES. e \<noteq> e' \<longrightarrow> owned s e \<inter> owned s e' = {})
     \<and> (\<forall>p < MEHCACHED_SHM_MAX_PAGES. in_use (shm_pages s p) \<noteq> 0 \<longrightarrow> (\<exists>e < MEHCACHED_SHM_MAX_ENTRIES. p \<in> owned s e))
     \<and> (\<forall>m < MEHCACHED_SHM_MAX_MAPPINGS. map_addr (shm_mappings s m) \<noteq> 0 \<longrightarrow> entry_id (shm_mappings s m) < MEHCACHED_SHM_MAX_ENTRIES
          \<and> unat (page_offset (shm_mappings s m)) + unat (map_num_pages (shm_mappings s m))
             \<le> unat (entry_num_pages (shm_entries s (entry_id (shm_mappings s m)))))"

definition shm_inv :: "shm \<Rightarrow> bool" where
  "shm_inv s \<longleftrightarrow> shm_state_lock s = 0 \<and> shm_inv_but {} s"

text \<open>The invariant depends on the three arrays and the page size only.\<close>

lemma shm_inv_cong:
  assumes "shm_page_size s' = shm_page_size s" and "shm_pages s' = shm_pages s" and "shm_entries s' = shm_entries s"
    and "shm_mappings s' = shm_mappings s"
  shows "shm_inv_but E s' = shm_inv_but E s"
proof -
  have "maps_of s' = maps_of s" "owned s' = owned s" using assms by (simp_all add: maps_of_def owned_def fun_eq_iff)
  moreover from this have "entry_inv s' = entry_inv s" using assms by (simp add: entry_inv_def fun_eq_iff cong: option.case_cong)
  ultimately show ?thesis using assms by (simp add: shm_inv_but_def)
qed

lemma set_fields [simp]:
  "shm_pages (set_page i g s) = (shm_pages s)(i := g (shm_pages s i))" "shm_entries (set_page i g s) = shm_entries s"
  "shm_mappings (set_page i g s) = shm_mappings s" "shm_page_size (set_page i g s) = shm_page_size s"
  "shm_pages (set_entry i f s) = shm_pages s" "shm_entries (set_entry i f s) = (shm_entries s)(i := f (shm_entries s i))"
  "shm_mappings (set_entry i f s) = shm_mappings s" "shm_page_size (set_entry i f s) = shm_page_size s"
  "shm_pages (set_mapping j m s) = shm_pages s" "shm_entries (set_mapping j m s) = shm_entries s"
  "shm_mappings (set_mapping j m s) = (shm_mappings s)(j := m)" "shm_page_size (set_mapping j m s) = shm_page_size s"
  by (simp_all add: set_page_def set_entry_def set_mapping_def)

lemma shm_pages_mark: "shm_pages (mark_pages ps v s) = (\<lambda>i. if i \<in> set ps then (shm_pages s i)\<lparr>in_use := v\<rparr> else shm_pages s i)"
proof (induction ps arbitrary: s)
  case (Cons a ps)
  have "shm_pages (mark_pages (a # ps) v s) = shm_pages (mark_pages ps v (set_page a (\<lambda>p. p\<lparr>in_use := v\<rparr>) s))" by (simp add: mark_pages_def)
  then show ?case by (auto simp: Cons.IH fun_eq_iff)
qed (simp add: mark_pages_def)

lemma mark_fields [simp]:
  "shm_entries (mark_pages ps v s) = shm_entries s" "shm_mappings (mark_pages ps v s) = shm_mappings s"
  "shm_page_size (mark_pages ps v s) = shm_page_size s"
  by (induction ps arbitrary: s) (simp_all add: mark_pages_def)

lemma first_from_range: "i \<le> first_from P k i \<and> first_from P k i \<le> i + k"
  by (induction P k i rule: first_from.induct) auto

lemma first_from_found: "first_from P k i < i + k \<Longrightarrow> P (first_from P k i)"
  by (induction P k i rule: first_from.induct) (auto split: if_splits)

lemma first_from_0: "P 0 \<Longrightarrow> 0 < k \<Longrightarrow> first_from P k 0 = 0"
  by (cases k) auto

lemma pick_pages_props:
  assumes "distinct acc" and "\<forall>p \<in> set acc. p < i \<and> Q p" and "\<And>p. Q p \<longleftrightarrow> page_addr (pg p) \<noteq> 0 \<and> in_use (pg p) = 0 \<and> numa_node (pg p) = node"
  shows "distinct (pick_pages pg node n k i acc) \<and> (\<forall>p \<in> set (pick_pages pg node n k i acc). p < i + k \<and> Q p)"
  using assms(1,2)
proof (induction k arbitrary: i acc)
  case (Suc k)
  have less: "\<forall>p \<in> set acc. p < Suc i \<and> Q p" using Suc.prems(2) by (simp add: less_Suc_eq)
  note skip = Suc.IH [OF Suc.prems(1) less]
  have take: "Q i \<Longrightarrow> distinct (pick_pages pg node n k (Suc i) (acc @ [i])) \<and> (\<forall>p \<in> set (pick_pages pg node n k (Suc i) (acc @ [i])). p < Suc i + k \<and> Q p)"
    by (rule Suc.IH) (use Suc.prems in \<open>auto simp: less_Suc_eq\<close>)
  show ?case
  proof (cases "length acc = n")
    case True
    then show ?thesis using Suc.prems(1) less by (auto intro: less_le_trans)
  next
    case False
    then show ?thesis using skip take assms(3) [of i] by (cases "Q i") simp_all
  qed
qed auto

lemma card_maps: "card (maps_of s e) \<le> MEHCACHED_SHM_MAX_MAPPINGS" "finite (maps_of s e)"
proof -
  have "maps_of s e \<subseteq> {..<MEHCACHED_SHM_MAX_MAPPINGS}" by (auto simp: maps_of_def)
  then show "card (maps_of s e) \<le> MEHCACHED_SHM_MAX_MAPPINGS" "finite (maps_of s e)"
    using card_mono [of "{..<MEHCACHED_SHM_MAX_MAPPINGS}"] finite_subset by auto
qed

section \<open>The changes of state\<close>

text \<open>The clauses of the invariant, one by one.\<close>

lemma shm_inv_parts:
  assumes "shm_inv_but E s"
  shows inv_page_size: "\<exists>k < 64. shm_page_size s = 2 ^ k"
    and inv_entry: "e < MEHCACHED_SHM_MAX_ENTRIES \<Longrightarrow> entry_inv s e"
    and inv_removed: "e < MEHCACHED_SHM_MAX_ENTRIES \<Longrightarrow> e \<notin> E \<Longrightarrow> to_remove (shm_entries s e) \<noteq> 0 \<Longrightarrow> refcount (shm_entries s e) \<noteq> 0"
    and inv_apart: "e < MEHCACHED_SHM_MAX_ENTRIES \<Longrightarrow> e' < MEHCACHED_SHM_MAX_ENTRIES \<Longrightarrow> e \<noteq> e' \<Longrightarrow> owned s e \<inter> owned s e' = {}"
    and inv_used: "p < MEHCACHED_SHM_MAX_PAGES \<Longrightarrow> in_use (shm_pages s p) \<noteq> 0 \<Longrightarrow> \<exists>e < MEHCACHED_SHM_MAX_ENTRIES. p \<in> owned s e"
    and inv_mapping: "m < MEHCACHED_SHM_MAX_MAPPINGS \<Longrightarrow> map_addr (shm_mappings s m) \<noteq> 0 \<Longrightarrow> entry_id (shm_mappings s m) < MEHCACHED_SHM_MAX_ENTRIES
        \<and> unat (page_offset (shm_mappings s m)) + unat (map_num_pages (shm_mappings s m))
          \<le> unat (entry_num_pages (shm_entries s (entry_id (shm_mappings s m))))"
  using assms unfolding shm_inv_but_def by blast+

lemma owned_in_use:
  assumes "shm_inv_but E s" and "e < MEHCACHED_SHM_MAX_ENTRIES" and "p \<in> owned s e"
  shows "p < MEHCACHED_SHM_MAX_PAGES" and "in_use (shm_pages s p) \<noteq> 0" and "page_addr (shm_pages s p) \<noteq> 0"
  using inv_entry [OF assms(1,2)] assms(3) by (auto simp: entry_inv_def owned_def split: option.splits)

lemma inv_others:
  assumes "shm_inv_but E s"
  shows "\<forall>i. entry_id (shm_mappings s i) = e \<longrightarrow> i < MEHCACHED_SHM_MAX_MAPPINGS \<longrightarrow> map_addr (shm_mappings s i) \<noteq> 0
      \<longrightarrow> unat (page_offset (shm_mappings s i)) + unat (map_num_pages (shm_mappings s i)) \<le> unat (entry_num_pages (shm_entries s e))"
  using inv_mapping [OF assms] by blast

text \<open>A new entry takes free pages.\<close>

lemma inv_new_entry:
  assumes inv: "shm_inv_but {} s" and e: "e < MEHCACHED_SHM_MAX_ENTRIES" "pages (shm_entries s e) = None"
    and ps: "distinct ps" "\<forall>p \<in> set ps. p < MEHCACHED_SHM_MAX_PAGES \<and> page_addr (shm_pages s p) \<noteq> 0 \<and> in_use (shm_pages s p) = 0"
    and len: "length ps = unat n" "length ps = pages_for (unat (shm_page_size s)) (unat l)"
  shows "shm_inv_but {} (mark_pages ps 1 (set_entry e (\<lambda>en. en\<lparr>entry_length := l, entry_num_pages := n, pages := Some ps\<rparr>) s))"
    (is "shm_inv_but {} ?s")
proof -
  have zero: "shm_entries s e = zero_entry" "maps_of s e = {}" using inv_entry [OF inv e(1)] e(2) by (auto simp: entry_inv_def)
  have maps: "maps_of ?s = maps_of s" by (simp add: maps_of_def fun_eq_iff)
  have own: "owned ?s e' = (if e' = e then set ps else owned s e')" for e' by (simp add: owned_def)
  have new: "set ps \<inter> owned s e' = {}" if "e' < MEHCACHED_SHM_MAX_ENTRIES" for e'
    using owned_in_use(2) [OF inv that] ps(2) by blast
  have "entry_inv ?s e'" if "e' < MEHCACHED_SHM_MAX_ENTRIES" for e'
  proof (cases "e' = e")
    case True
    then show ?thesis using ps len zero maps by (simp add: entry_inv_def shm_pages_mark zero_entry_def)
  next
    case False
    have "entry_inv s e'" by (rule inv_entry [OF inv that])
    then show ?thesis using False maps by (auto simp: entry_inv_def shm_pages_mark split: option.splits)
  qed
  moreover have "to_remove (shm_entries ?s e') \<noteq> 0 \<Longrightarrow> refcount (shm_entries ?s e') \<noteq> 0" if "e' < MEHCACHED_SHM_MAX_ENTRIES" for e'
    using inv_removed [OF inv that] zero by (cases "e' = e") (simp_all add: zero_entry_def)
  moreover have "owned ?s e1 \<inter> owned ?s e2 = {}" if "e1 < MEHCACHED_SHM_MAX_ENTRIES" "e2 < MEHCACHED_SHM_MAX_ENTRIES" "e1 \<noteq> e2" for e1 e2
    using inv_apart [OF inv that] new that by (auto simp: own)
  moreover have "\<exists>e' < MEHCACHED_SHM_MAX_ENTRIES. p \<in> owned ?s e'" if p: "p < MEHCACHED_SHM_MAX_PAGES" "in_use (shm_pages ?s p) \<noteq> 0" for p
  proof (cases "p \<in> set ps")
    case True
    then show ?thesis using e(1) own by auto
  next
    case False
    then obtain e' where e': "e' < MEHCACHED_SHM_MAX_ENTRIES" "p \<in> owned s e'" using inv_used [OF inv p(1)] p(2) by (auto simp: shm_pages_mark)
    have "e' \<noteq> e" using e' e(2) by (auto simp: owned_def)
    then show ?thesis using e' own by auto
  qed
  moreover have "entry_id (shm_mappings s m) \<noteq> e" if "m < MEHCACHED_SHM_MAX_MAPPINGS" "map_addr (shm_mappings s m) \<noteq> 0" for m
    using zero(2) that by (auto simp: maps_of_def)
  ultimately show ?thesis
    using inv_page_size [OF inv] inv_mapping [OF inv] by (simp add: shm_inv_but_def)
qed

text \<open>An entry without mappings gives its pages back.\<close>

lemma inv_drop_entry:
  assumes inv: "shm_inv_but {e} s" and e: "e < MEHCACHED_SHM_MAX_ENTRIES" "refcount (shm_entries s e) = 0" "pages (shm_entries s e) = Some ps"
  shows "shm_inv_but {} (set_entry e (\<lambda>_. zero_entry) (mark_pages ps 0 s))" (is "shm_inv_but {} ?s")
proof -
  have maps: "maps_of ?s = maps_of s" by (simp add: maps_of_def fun_eq_iff)
  have none: "maps_of s e = {}" using inv_entry [OF inv e(1)] e(2,3) card_maps(2) by (auto simp: entry_inv_def)
  have own: "owned ?s e' = (if e' = e then {} else owned s e')" "owned s e = set ps" for e' using e(3) by (simp_all add: owned_def zero_entry_def)
  have "entry_inv ?s e'" if "e' < MEHCACHED_SHM_MAX_ENTRIES" for e'
  proof (cases "e' = e")
    case True
    then show ?thesis using maps none by (simp add: entry_inv_def zero_entry_def)
  next
    case False
    have "entry_inv s e'" "owned s e' \<inter> set ps = {}" using inv_entry [OF inv that] inv_apart [OF inv that e(1) False] own(2) by auto
    then show ?thesis using False maps by (auto simp: entry_inv_def owned_def shm_pages_mark split: option.splits)
  qed
  moreover have "to_remove (shm_entries ?s e') \<noteq> 0 \<Longrightarrow> refcount (shm_entries ?s e') \<noteq> 0" if "e' < MEHCACHED_SHM_MAX_ENTRIES" for e'
    using inv_removed [OF inv that] by (cases "e' = e") (simp_all add: zero_entry_def)
  moreover have "owned ?s e1 \<inter> owned ?s e2 = {}" if "e1 < MEHCACHED_SHM_MAX_ENTRIES" "e2 < MEHCACHED_SHM_MAX_ENTRIES" "e1 \<noteq> e2" for e1 e2
    using inv_apart [OF inv that] by (auto simp: own(1))
  moreover have "\<exists>e' < MEHCACHED_SHM_MAX_ENTRIES. p \<in> owned ?s e'" if p: "p < MEHCACHED_SHM_MAX_PAGES" "in_use (shm_pages ?s p) \<noteq> 0" for p
  proof -
    have "p \<notin> set ps" "in_use (shm_pages s p) \<noteq> 0" using p(2) by (auto simp: shm_pages_mark split: if_splits)
    then show ?thesis using inv_used [OF inv p(1)] own by (metis (full_types))
  qed
  moreover have "entry_id (shm_mappings s m) \<noteq> e" if "m < MEHCACHED_SHM_MAX_MAPPINGS" "map_addr (shm_mappings s m) \<noteq> 0" for m
    using none that by (auto simp: maps_of_def)
  ultimately show ?thesis
    using inv_page_size [OF inv] inv_mapping [OF inv] by (simp add: shm_inv_but_def)
qed

text \<open>A mapping is added to an entry, and one is removed.\<close>

lemma inv_add_mapping:
  assumes inv: "shm_inv_but {} s" and e: "e < MEHCACHED_SHM_MAX_ENTRIES" "pages (shm_entries s e) = Some ps"
    and j: "j < MEHCACHED_SHM_MAX_MAPPINGS" "map_addr (shm_mappings s j) = 0"
    and m: "map_addr m \<noteq> 0" "entry_id m = e" "unat (page_offset m) + unat (map_num_pages m) \<le> length ps"
  shows "shm_inv_but {} (set_mapping j m (set_entry e (\<lambda>en. en\<lparr>refcount := refcount en + 1\<rparr>) s))" (is "shm_inv_but {} ?s")
proof -
  have en: "entry_inv s e" by (rule inv_entry [OF inv e(1)])
  have maps: "maps_of ?s e' = (if e' = e then insert j (maps_of s e) else maps_of s e')" for e'
    using j m by (auto simp: maps_of_def)
  have j': "j \<notin> maps_of s e" using j by (simp add: maps_of_def)
  have "unat (refcount (shm_entries s e)) \<le> 16384"
    using en e(2) card_maps(1) [of s e] by (simp add: entry_inv_def MEHCACHED_SHM_MAX_MAPPINGS_def)
  then have count: "unat (refcount (shm_entries s e) + 1) = Suc (unat (refcount (shm_entries s e)))"
    by (simp add: unat_u64_add)
  have own: "owned ?s = owned s" by (simp add: owned_def fun_eq_iff)
  have "entry_inv ?s e'" if "e' < MEHCACHED_SHM_MAX_ENTRIES" for e'
  proof (cases "e' = e")
    case True
    then show ?thesis using en e(2) maps count j' card_maps(2) [of s e] by (simp add: entry_inv_def)
  next
    case False
    then show ?thesis using inv_entry [OF inv that] maps by (auto simp: entry_inv_def split: option.splits)
  qed
  moreover have "refcount (shm_entries ?s e') \<noteq> 0" if "e' < MEHCACHED_SHM_MAX_ENTRIES" "to_remove (shm_entries ?s e') \<noteq> 0" for e'
    using inv_removed [OF inv that(1)] that(2) count by (cases "e' = e") (auto simp del: unat_0 simp: unat_eq_0 [symmetric])
  moreover have "length ps = unat (entry_num_pages (shm_entries s e))" using en e(2) by (simp add: entry_inv_def)
  ultimately show ?thesis
    using inv_page_size [OF inv] inv_apart [OF inv] inv_used [OF inv] inv_mapping [OF inv] inv_others [OF inv] m e(1)
    by (simp add: shm_inv_but_def own)
qed

lemma inv_drop_mapping:
  assumes inv: "shm_inv_but {} s" and j: "j < MEHCACHED_SHM_MAX_MAPPINGS" "map_addr (shm_mappings s j) \<noteq> 0" "entry_id (shm_mappings s j) = e"
  shows "shm_inv_but {e} (set_mapping j zero_mapping (set_entry e (\<lambda>en. en\<lparr>refcount := refcount en - 1\<rparr>) s))" (is "shm_inv_but {e} ?s")
    and "e < MEHCACHED_SHM_MAX_ENTRIES" and "pages (shm_entries s e) \<noteq> None"
proof -
  show e: "e < MEHCACHED_SHM_MAX_ENTRIES" using inv_mapping [OF inv j(1,2)] j(3) by simp
  have en: "entry_inv s e" by (rule inv_entry [OF inv e])
  have j': "j \<in> maps_of s e" using j by (simp add: maps_of_def)
  then show live: "pages (shm_entries s e) \<noteq> None" using en by (auto simp: entry_inv_def split: option.splits)
  have maps: "maps_of ?s e' = (if e' = e then maps_of s e - {j} else maps_of s e')" for e'
    using j by (auto simp: maps_of_def zero_mapping_def)
  have pos: "unat (refcount (shm_entries s e)) = card (maps_of s e)" "0 < card (maps_of s e)"
    using en live j' card_maps(2) [of s e] by (auto simp: entry_inv_def card_gt_0_iff)
  then have "refcount (shm_entries s e) \<noteq> 0" by (metis less_irrefl unat_0)
  then have count: "unat (refcount (shm_entries s e) - 1) = unat (refcount (shm_entries s e)) - 1" by (rule unat_minus_one)
  have own: "owned ?s = owned s" by (simp add: owned_def fun_eq_iff)
  have "entry_inv ?s e'" if "e' < MEHCACHED_SHM_MAX_ENTRIES" for e'
  proof (cases "e' = e")
    case True
    then show ?thesis using en live maps count pos j' card_maps(2) [of s e] by (auto simp: entry_inv_def)
  next
    case False
    then show ?thesis using inv_entry [OF inv that] maps by (auto simp: entry_inv_def split: option.splits)
  qed
  moreover have "map_addr zero_mapping = 0" by (simp add: zero_mapping_def)
  ultimately show "shm_inv_but {e} ?s"
    using inv_page_size [OF inv] inv_apart [OF inv] inv_used [OF inv] inv_mapping [OF inv] inv_removed [OF inv] inv_others [OF inv]
    by (simp add: shm_inv_but_def own)
qed

section \<open>The operations keep the invariant\<close>

lemma wp_syscall [wp_rules]: "wp syscall Q s = Q (Done (sys s (ticks s))) (s\<lparr>ticks := Suc (ticks s)\<rparr>)"
  by (simp add: wp_def syscall_def)

text \<open>The outcome of an operation that keeps the invariant; \<open>aborts\<close> says whether an assertion may fail.\<close>

definition kept :: "bool \<Rightarrow> shm \<Rightarrow> ('r, 'a) outcome \<Rightarrow> shm \<Rightarrow> bool" where
  "kept aborts s x s' \<longleftrightarrow> (case x of Done _ \<Rightarrow> shm_inv s' \<and> shm_page_size s' = shm_page_size s
     | Exit _ \<Rightarrow> shm_inv s' \<and> shm_page_size s' = shm_page_size s | Abort \<Rightarrow> aborts | Undef \<Rightarrow> False)"

lemma shm_inv_cong':
  assumes "shm_inv_but {} s" and "shm_page_size s' = shm_page_size s" and "shm_pages s' = shm_pages s" and "shm_entries s' = shm_entries s"
    and "shm_mappings s' = shm_mappings s" and "shm_state_lock s' = 0"
  shows "shm_inv s'"
  using assms shm_inv_cong [OF assms(2-5)] by (simp add: shm_inv_def)

lemma pages_for_word:
  assumes "sz \<noteq> 0" and "unat l + unat sz \<le> 2 ^ 64"
  shows "unat ((l + (sz - 1)) div sz) = pages_for (unat sz) (unat (l :: u64))"
proof -
  have one: "unat (sz - 1) = unat sz - 1" by (rule unat_minus_one [OF assms(1)])
  have "unat sz \<noteq> 0" using assms(1) by (simp add: unat_eq_0)
  then have "unat (l + (sz - 1)) = unat l + (unat sz - 1)" using assms(2) one by (subst unat_u64_add) simp_all
  then show ?thesis by (simp add: pages_for_def unat_div_distrib)
qed

lemma lock_run:
  "shm_state_lock s = 0 \<Longrightarrow> mehcached_shm_lock s = (Done (), s\<lparr>shm_state_lock := 1\<rparr>)"
  "mehcached_shm_unlock s = (Done (), s\<lparr>shm_state_lock := 0\<rparr>)"
  by (simp_all add: mehcached_shm_lock_def mehcached_shm_unlock_def run_steps)

lemma shm_alloc_kept:
  assumes "shm_inv s" and "unat len + unat (shm_page_size s) \<le> 2 ^ 64"
  shows "wp (mehcached_shm_alloc len node0) (kept False s) s"
proof -
  define node where "node = (if node0 = - 1 then 0 else node0)"
  define e where "e = first_from (\<lambda>e. pages (shm_entries s e) = None) MEHCACHED_SHM_MAX_ENTRIES 0"
  define n where "n = (len + (shm_page_size s - 1)) div shm_page_size s"
  define ps where "ps = pick_pages (shm_pages s) node (unat n) MEHCACHED_SHM_MAX_PAGES 0 []"
  let ?f = "\<lambda>en. en\<lparr>entry_length := len, entry_num_pages := n, pages := Some ps\<rparr>"
  have inv: "shm_inv_but {} s" and lock: "shm_state_lock s = 0" using assms(1) by (simp_all add: shm_inv_def)
  have sz: "shm_page_size s \<noteq> 0" using inv_page_size [OF inv] by auto
  have free: "pages (shm_entries s e) = None" "e < MEHCACHED_SHM_MAX_ENTRIES" if "e \<noteq> MEHCACHED_SHM_MAX_ENTRIES"
    using that first_from_found [of "\<lambda>e. pages (shm_entries s e) = None" MEHCACHED_SHM_MAX_ENTRIES 0]
      first_from_range [of 0 "\<lambda>e. pages (shm_entries s e) = None" MEHCACHED_SHM_MAX_ENTRIES] by (simp_all add: e_def)
  have picked: "distinct ps" "\<forall>p \<in> set ps. p < MEHCACHED_SHM_MAX_PAGES \<and> page_addr (shm_pages s p) \<noteq> 0 \<and> in_use (shm_pages s p) = 0"
    using pick_pages_props [of "[]" 0 "\<lambda>p. page_addr (shm_pages s p) \<noteq> 0 \<and> in_use (shm_pages s p) = 0 \<and> numa_node (shm_pages s p) = node"
        "shm_pages s" node "unat n" MEHCACHED_SHM_MAX_PAGES, OF _ _ refl] unfolding ps_def by simp_all
  have full: "shm_inv_but {} (mark_pages ps 1 (set_entry e ?f s))" if "e \<noteq> MEHCACHED_SHM_MAX_ENTRIES" "unat n = length ps"
    using inv_new_entry [OF inv free(2,1) picked, of n len] that pages_for_word [OF sz assms(2)] by (simp add: n_def)
  have restored: "shm_entries (set_entry e (\<lambda>_. zero_entry) (set_entry e ?f s)) = shm_entries s" if "e \<noteq> MEHCACHED_SHM_MAX_ENTRIES"
  proof -
    have "shm_entries s e = zero_entry" using inv_entry [OF inv free(2) [OF that]] free(1) [OF that] by (simp add: entry_inv_def)
    then show ?thesis by (simp add: fun_upd_idem)
  qed
  note run = mehcached_shm_alloc_def Let_def run_steps bnd_exit lock_run lock sz e_def [symmetric] n_def [symmetric] node_def [symmetric] ps_def [symmetric]
  consider (entries) "e = MEHCACHED_SHM_MAX_ENTRIES" | (memory) "e \<noteq> MEHCACHED_SHM_MAX_ENTRIES" "unat n \<noteq> length ps"
    | (ok) "e \<noteq> MEHCACHED_SHM_MAX_ENTRIES" "unat n = length ps" by blast
  then show ?thesis
  proof cases
    case entries
    then have "mehcached_shm_alloc len node0 s = (Exit None, s\<lparr>shm_state_lock := 0\<rparr>)" by (simp add: run)
    then show ?thesis using shm_inv_cong' [OF inv, of "s\<lparr>shm_state_lock := 0\<rparr>"] by (simp add: wp_def kept_def)
  next
    case memory
    let ?t = "(set_entry e (\<lambda>_. zero_entry) (set_entry e ?f (s\<lparr>shm_state_lock := 1\<rparr>)))\<lparr>shm_state_lock := 0\<rparr>"
    have "mehcached_shm_alloc len node0 s = (Exit None, ?t)" using memory by (simp add: run)
    moreover have "shm_inv ?t" by (rule shm_inv_cong' [OF inv]) (use restored [OF memory(1)] in simp_all)
    ultimately show ?thesis by (simp add: wp_def kept_def)
  next
    case ok
    let ?t = "(mark_pages ps 1 (set_entry e ?f (s\<lparr>shm_state_lock := 1\<rparr>)))\<lparr>shm_state_lock := 0\<rparr>"
    have "mehcached_shm_alloc len node0 s = (Done (Some e), ?t)" using ok(1) ok(2) [symmetric] by (simp add: run)
    moreover have "shm_inv ?t" by (rule shm_inv_cong' [OF full [OF ok]]) (simp_all add: shm_pages_mark fun_eq_iff)
    ultimately show ?thesis by (simp add: wp_def kept_def)
  qed
qed

text \<open>The removal of an entry as a function of the state: the statistics do not change, since the page
  count is read from the entry that has just been cleared.\<close>

definition drop_if_unused :: "nat \<Rightarrow> shm \<Rightarrow> shm" where
  "drop_if_unused e s = (if refcount (shm_entries s e) = 0 \<and> to_remove (shm_entries s e) \<noteq> 0
     then set_entry e (\<lambda>_. zero_entry) (mark_pages (take (unat (entry_num_pages (shm_entries s e)))
       (case pages (shm_entries s e) of None \<Rightarrow> [] | Some ps \<Rightarrow> ps)) 0 s) else s)"

lemma check_remove_run: "mehcached_shm_check_remove e s = (Done (), drop_if_unused e s)"
  by (simp add: mehcached_shm_check_remove_def drop_if_unused_def run_steps whenM_def zero_entry_def set_entry_def)

lemma drop_fields:
  "shm_mappings (drop_if_unused e s) = shm_mappings s" "shm_page_size (drop_if_unused e s) = shm_page_size s"
  "refcount (shm_entries s e) \<noteq> 0 \<or> to_remove (shm_entries s e) = 0 \<Longrightarrow> drop_if_unused e s = s"
  by (auto simp: drop_if_unused_def)

lemma inv_drop_if_unused:
  assumes "shm_inv_but {e} s" and "e < MEHCACHED_SHM_MAX_ENTRIES" and "pages (shm_entries s e) \<noteq> None"
  shows "shm_inv_but {} (drop_if_unused e s)"
proof (cases "refcount (shm_entries s e) = 0 \<and> to_remove (shm_entries s e) \<noteq> 0")
  case True
  obtain ps where ps: "pages (shm_entries s e) = Some ps" using assms(3) by blast
  have "length ps = unat (entry_num_pages (shm_entries s e))" using inv_entry [OF assms(1,2)] ps by (simp add: entry_inv_def)
  then show ?thesis using inv_drop_entry [OF assms(1,2) _ ps] True ps by (simp add: drop_if_unused_def)
next
  case False
  then have "shm_inv_but {} s" using assms(1,2) unfolding shm_inv_but_def by blast
  then show ?thesis using False by (auto simp: drop_if_unused_def)
qed

lemma drop_cong:
  assumes "shm_entries s' = shm_entries s" and "shm_pages s' = shm_pages s"
  shows "shm_entries (drop_if_unused e s') = shm_entries (drop_if_unused e s)" "shm_pages (drop_if_unused e s') = shm_pages (drop_if_unused e s)"
  using assms by (auto simp: drop_if_unused_def shm_pages_mark)

lemma shm_schedule_remove_kept:
  assumes "shm_inv s" and "e < MEHCACHED_SHM_MAX_ENTRIES"
  shows "wp (mehcached_shm_schedule_remove e) (kept False s) s"
proof -
  have inv: "shm_inv_but {} s" and lock: "shm_state_lock s = 0" using assms(1) by (simp_all add: shm_inv_def)
  show ?thesis
  proof (cases "pages (shm_entries s e) = None")
    case True
    then have "mehcached_shm_schedule_remove e s = (Exit False, s\<lparr>shm_state_lock := 0\<rparr>)"
      using assms(2) lock by (simp add: mehcached_shm_schedule_remove_def run_steps bnd_exit lock_run)
    then show ?thesis using shm_inv_cong' [OF inv, of "s\<lparr>shm_state_lock := 0\<rparr>"] by (simp add: wp_def kept_def)
  next
    case False
    let ?s = "set_entry e (\<lambda>en. en\<lparr>to_remove := 1\<rparr>) s" and ?s1 = "set_entry e (\<lambda>en. en\<lparr>to_remove := 1\<rparr>) (s\<lparr>shm_state_lock := 1\<rparr>)"
    have "owned ?s = owned s" "maps_of ?s = maps_of s" by (simp_all add: owned_def maps_of_def fun_eq_iff)
    moreover have "entry_inv ?s e' \<longleftrightarrow> entry_inv s e'" if "e' \<noteq> e \<or> e' = e" for e'
      using False calculation by (cases "e' = e") (auto simp: entry_inv_def split: option.splits)
    ultimately have "shm_inv_but {e} ?s"
      using inv_page_size [OF inv] inv_entry [OF inv] inv_apart [OF inv] inv_used [OF inv] inv_mapping [OF inv] inv_removed [OF inv] inv_others [OF inv]
      by (simp add: shm_inv_but_def)
    then have inv': "shm_inv_but {} (drop_if_unused e ?s)" by (rule inv_drop_if_unused [OF _ assms(2)]) (use False in simp)
    let ?t = "(drop_if_unused e ?s1)\<lparr>shm_state_lock := 0\<rparr>"
    obtain ps where "pages (shm_entries s e) = Some ps" using False by blast
    then have "mehcached_shm_schedule_remove e s = (Done True, ?t)"
      using assms(2) lock by (simp add: mehcached_shm_schedule_remove_def run_steps lock_run check_remove_run)
    moreover have "shm_inv ?t" by (rule shm_inv_cong' [OF inv']) (use drop_cong [of ?s1 ?s e] in \<open>simp_all add: drop_fields\<close>)
    ultimately show ?thesis by (simp add: wp_def kept_def drop_fields)
  qed
qed

lemma unmap_loop_run: "\<exists>v. unmap_loop k p s = (Done (), s\<lparr>vmem := v\<rparr>)"
proof (induction k arbitrary: p s)
  case 0
  have "unmap_loop 0 p s = (Done (), s\<lparr>vmem := vmem s\<rparr>)" by (simp add: run_steps)
  then show ?case by blast
next
  case (Suc k)
  obtain v where "unmap_loop k (p + shm_page_size s) (s\<lparr>vmem := (vmem s)(p := None)\<rparr>) = (Done () :: ('a, unit) outcome, s\<lparr>vmem := (vmem s)(p := None), vmem := v\<rparr>)"
    using Suc.IH by blast
  then have "unmap_loop (Suc k) p s = (Done () :: ('a, unit) outcome, s\<lparr>vmem := v\<rparr>)" by (simp add: run_steps)
  then show ?case by blast
qed

lemma shm_unmap_kept:
  assumes "shm_inv s" and "ptr \<noteq> 0"
  shows "wp (mehcached_shm_unmap ptr) (kept False s) s"
proof -
  have inv: "shm_inv_but {} s" and lock: "shm_state_lock s = 0" using assms(1) by (simp_all add: shm_inv_def)
  define j where "j = first_from (\<lambda>m. map_addr (shm_mappings s m) = ptr) MEHCACHED_SHM_MAX_MAPPINGS 0"
  show ?thesis
  proof (cases "j = MEHCACHED_SHM_MAX_MAPPINGS")
    case True
    then have "mehcached_shm_unmap ptr s = (Exit False, s\<lparr>shm_state_lock := 0\<rparr>)"
      using lock by (simp add: mehcached_shm_unmap_def run_steps bnd_exit lock_run j_def)
    then show ?thesis using shm_inv_cong' [OF inv, of "s\<lparr>shm_state_lock := 0\<rparr>"] by (simp add: wp_def kept_def)
  next
    case False
    have j: "j < MEHCACHED_SHM_MAX_MAPPINGS" "map_addr (shm_mappings s j) = ptr"
      using False first_from_found [of "\<lambda>m. map_addr (shm_mappings s m) = ptr" MEHCACHED_SHM_MAX_MAPPINGS 0]
        first_from_range [of 0 "\<lambda>m. map_addr (shm_mappings s m) = ptr" MEHCACHED_SHM_MAX_MAPPINGS] by (simp_all add: j_def)
    let ?e = "entry_id (shm_mappings s j)" and ?dec = "\<lambda>en. en\<lparr>refcount := refcount en - 1\<rparr>"
    let ?u = "set_mapping j zero_mapping (set_entry ?e ?dec s)"
    have ptr: "map_addr (shm_mappings s j) \<noteq> 0" using j(2) assms(2) by simp
    note drop = inv_drop_mapping [OF inv j(1) ptr refl]
    have inv': "shm_inv_but {} (drop_if_unused ?e ?u)" by (rule inv_drop_if_unused [OF drop(1,2)]) (use drop(3) in simp)
    obtain v where v: "unmap_loop (unat (map_num_pages (shm_mappings s j))) ptr (s\<lparr>shm_state_lock := 1\<rparr>) = (Done () :: (bool, unit) outcome, s\<lparr>shm_state_lock := 1, vmem := v\<rparr>)"
      using unmap_loop_run by blast
    let ?s1 = "set_entry ?e ?dec (s\<lparr>shm_state_lock := 1, vmem := v\<rparr>)"
    let ?t = "(set_mapping j zero_mapping (drop_if_unused ?e ?s1))\<lparr>shm_state_lock := 0\<rparr>"
    have "mehcached_shm_unmap ptr s = (Done True, ?t)"
      using False lock v by (simp add: mehcached_shm_unmap_def run_steps lock_run check_remove_run j_def [symmetric])
    moreover have "shm_inv ?t" by (rule shm_inv_cong' [OF inv']) (use drop_cong [of ?s1 ?u ?e] in \<open>simp_all add: drop_fields\<close>)
    ultimately show ?thesis by (simp add: wp_def kept_def drop_fields)
  qed
qed

lemma map_loop_run:
  assumes "i + k \<le> length ps"
  shows "(\<exists>s'. map_loop ps k i p s = (Abort :: ('r, nat \<times> bool) outcome, s'))
    \<or> (\<exists>r v n. map_loop ps k i p s = (Done r :: ('r, nat \<times> bool) outcome, s\<lparr>vmem := v, ticks := n\<rparr>))"
  using assms
proof (induction k arbitrary: i p s)
  case 0
  have "map_loop ps 0 i p s = (Done (i, False) :: ('r, nat \<times> bool) outcome, s\<lparr>vmem := vmem s, ticks := ticks s\<rparr>)" by (simp add: run_steps)
  then show ?case by blast
next
  case (Suc k)
  let ?c = "ticks s"
  have i: "i < length ps" using Suc.prems by simp
  have one: "map_loop ps (Suc k) i p s = (if sys s ?c = FAILED then (Abort, s\<lparr>ticks := Suc ?c\<rparr>)
      else if sys s (Suc ?c) = FAILED then (Done (i, True), s\<lparr>ticks := Suc (Suc ?c)\<rparr>)
      else map_loop ps k (Suc i) (p + shm_page_size s)
        (s\<lparr>ticks := Suc (Suc ?c), vmem := (vmem s)(p := Some (path (shm_pages s (ps ! i))))\<rparr>) :: ('r, nat \<times> bool) outcome \<times> shm)"
    using i by (simp add: bnd_def guardM_def syscall_def assertM_def ret_def modifyM_def gets_def)
  let ?u = "s\<lparr>ticks := Suc (Suc ?c), vmem := (vmem s)(p := Some (path (shm_pages s (ps ! i))))\<rparr>"
  consider (nofile) "sys s ?c = FAILED" | (mmap) "sys s ?c \<noteq> FAILED" "sys s (Suc ?c) = FAILED"
    | (ok) "sys s ?c \<noteq> FAILED" "sys s (Suc ?c) \<noteq> FAILED" by blast
  then show ?case
  proof cases
    case nofile
    then have "map_loop ps (Suc k) i p s = (Abort :: ('r, nat \<times> bool) outcome, s\<lparr>ticks := Suc ?c\<rparr>)" unfolding one by simp
    then show ?thesis by blast
  next
    case mmap
    then have "map_loop ps (Suc k) i p s = (Done (i, True) :: ('r, nat \<times> bool) outcome, s\<lparr>vmem := vmem s, ticks := Suc (Suc ?c)\<rparr>)" unfolding one by simp
    then show ?thesis by blast
  next
    case ok
    then have rest: "map_loop ps (Suc k) i p s = (map_loop ps k (Suc i) (p + shm_page_size s) ?u :: ('r, nat \<times> bool) outcome \<times> shm)" unfolding one by simp
    have step: "?u\<lparr>vmem := v, ticks := n\<rparr> = s\<lparr>vmem := v, ticks := n\<rparr>" for v n by simp
    show ?thesis unfolding rest using Suc.IH [of "Suc i" "p + shm_page_size s" ?u] Suc.prems unfolding step by simp
  qed
qed

lemma bnd_abort: "m s = (Abort, s') \<Longrightarrow> bnd m f s = (Abort, s')"
  by (simp add: bnd_def)

lemma aligned_dvd:
  assumes "k < 64" and "w AND NOT (2 ^ k - 1) = (w :: u64)"
  shows "2 ^ k dvd unat w"
proof -
  have "w AND NOT (mask k) = w" using assms(2) by (simp add: mask_eq_decr_exp)
  then have "take_bit k w = (w AND NOT (mask k)) AND mask k" by (simp add: take_bit_eq_mask)
  then have "take_bit k w = 0" by (simp add: and.assoc)
  then have "take_bit k (unat w) = 0" by (metis unsigned_take_bit_eq unsigned_0)
  then show ?thesis by (simp add: take_bit_eq_mod dvd_eq_mod_eq_0)
qed

lemma pages_for_part:
  assumes "0 < sz" and "sz dvd o'" and "o' + l \<le> n"
  shows "o' div sz + pages_for sz l \<le> pages_for sz n"
proof -
  have "o' div sz + pages_for sz l = (o' + (l + (sz - 1))) div sz" 
    unfolding pages_for_def using div_plus_div_distrib_dvd_left [OF assms(2), of "l + (sz - 1)"] by simp
  also have "\<dots> \<le> (n + (sz - 1)) div sz" by (rule div_le_mono) (use assms(3) in simp)
  finally show ?thesis by (simp add: pages_for_def)
qed

text \<open>The pages a mapping covers lie inside its entry.\<close>

lemma map_range:
  assumes "shm_inv_but {} s" and "e < MEHCACHED_SHM_MAX_ENTRIES" and "pages (shm_entries s e) = Some ps"
    and "offset AND NOT (shm_page_size s - 1) = offset" and "unat offset + unat len + unat (shm_page_size s) \<le> 2 ^ 64"
    and "\<not> offset + len > entry_length (shm_entries s e)"
  defines "first \<equiv> offset div shm_page_size s" and "num \<equiv> (len + (shm_page_size s - 1)) div shm_page_size s"
  shows "unat first + unat num \<le> length ps" and "unat (first + num) - unat first = unat num"
proof -
  obtain k where k: "k < 64" "shm_page_size s = 2 ^ k" using inv_page_size [OF assms(1)] by blast
  let ?sz = "unat (shm_page_size s)"
  have sz: "?sz = 2 ^ k" "shm_page_size s \<noteq> 0" "0 < ?sz" using k unat_two_power_u64 by simp_all
  have "unat (offset + len) = unat offset + unat len" using assms(5) sz(3) by (intro unat_u64_add) simp
  then have "unat offset + unat len \<le> unat (entry_length (shm_entries s e))" using assms(6) by (simp add: word_less_nat_alt)
  moreover have "?sz dvd unat offset" using aligned_dvd [OF k(1)] assms(4) k(2) sz(1) by simp
  ultimately have "unat offset div ?sz + pages_for ?sz (unat len) \<le> pages_for ?sz (unat (entry_length (shm_entries s e)))"
    using pages_for_part sz(3) by blast
  moreover have "length ps = pages_for ?sz (unat (entry_length (shm_entries s e)))" "length ps = unat (entry_num_pages (shm_entries s e))"
    using inv_entry [OF assms(1,2)] assms(3) by (simp_all add: entry_inv_def)
  moreover have "unat num = pages_for ?sz (unat len)" unfolding num_def by (rule pages_for_word) (use sz assms(5) in simp_all)
  ultimately show le: "unat first + unat num \<le> length ps" by (simp add: first_def unat_div_distrib)
  have "unat (entry_num_pages (shm_entries s e)) < 2 ^ 64" by (rule unat_u64_less)
  then have "unat (first + num) = unat first + unat num" using le \<open>length ps = unat (entry_num_pages (shm_entries s e))\<close> by (intro unat_u64_add) simp
  then show "unat (first + num) - unat first = unat num" by simp
qed

text \<open>The part of \<^verbatim>\<open>mehcached_shm_map\<close> behind its checks.\<close>

lemma shm_map_go:
  assumes "shm_inv s" and "e < MEHCACHED_SHM_MAX_ENTRIES" and "ptr \<noteq> 0" and "unat offset + unat len + unat (shm_page_size s) \<le> 2 ^ 64"
    and go: "ptr AND NOT (shm_page_size s - 1) = ptr" "offset AND NOT (shm_page_size s - 1) = offset" "pages (shm_entries s e) = Some ps"
      "\<not> offset > entry_length (shm_entries s e)" "\<not> offset + len > entry_length (shm_entries s e)" "j \<noteq> MEHCACHED_SHM_MAX_MAPPINGS"
    and j_def: "j = first_from (\<lambda>m. map_addr (shm_mappings s m) = 0) MEHCACHED_SHM_MAX_MAPPINGS 0"
  shows "wp (mehcached_shm_map e ptr offset len) (kept True s) s"
proof -
  have inv: "shm_inv_but {} s" and lock: "shm_state_lock s = 0" using assms(1) by (simp_all add: shm_inv_def)
  have sz: "shm_page_size s \<noteq> 0" using inv_page_size [OF inv] by auto
  let ?en = "shm_entries s e"
  note run = mehcached_shm_map_def Let_def run_steps bnd_exit lock_run lock assms(2) sz j_def [symmetric]
  let ?first = "offset div shm_page_size s" and ?num = "(len + (shm_page_size s - 1)) div shm_page_size s"
  note range = map_range [OF inv assms(2) go(3,2) assms(4) go(5)]
  let ?s0 = "s\<lparr>shm_state_lock := 1\<rparr>" and ?inc = "\<lambda>en. en\<lparr>refcount := refcount en + 1\<rparr>"
  let ?m = "\<lparr>entry_id = e, map_addr = ptr, map_length = len, page_offset = ?first, map_num_pages = ?num\<rparr>"
  have j: "j < MEHCACHED_SHM_MAX_MAPPINGS" "map_addr (shm_mappings s j) = 0"
    using go(6) first_from_found [of "\<lambda>m. map_addr (shm_mappings s m) = 0" MEHCACHED_SHM_MAX_MAPPINGS 0]
      first_from_range [of 0 "\<lambda>m. map_addr (shm_mappings s m) = 0" MEHCACHED_SHM_MAX_MAPPINGS] by (simp_all add: j_def)
  have inv': "shm_inv_but {} (set_mapping j ?m (set_entry e ?inc s))"
    by (rule inv_add_mapping [OF inv assms(2) go(3) j]) (use assms(3) range(1) in simp_all)
  note run' = run go range(2)
  from map_loop_run [OF range(1), of ptr ?s0, where 'r = bool]
  show ?thesis
  proof (elim disjE exE)
    fix s' assume "map_loop ps (unat ?num) (unat ?first) ptr ?s0 = (Abort :: (bool, nat \<times> bool) outcome, s')"
    then have "mehcached_shm_map e ptr offset len s = (Abort, s')" by (simp add: run' bnd_abort)
    then show ?thesis by (simp add: wp_def kept_def)
  next
    fix r v n assume loop: "map_loop ps (unat ?num) (unat ?first) ptr ?s0 = (Done r :: (bool, nat \<times> bool) outcome, ?s0\<lparr>vmem := v, ticks := n\<rparr>)"
    obtain i err where r: "r = (i, err)" by (cases r)
    let ?s1 = "?s0\<lparr>vmem := v, ticks := n\<rparr>"
    show ?thesis
    proof (cases err)
      case True
      obtain v' where "unmap_loop (i - unat ?first) ptr ?s1 = (Done () :: (bool, unit) outcome, ?s1\<lparr>vmem := v'\<rparr>)" using unmap_loop_run by blast
      then have "mehcached_shm_map e ptr offset len s = (Exit False, ?s1\<lparr>vmem := v', shm_state_lock := 0\<rparr>)" using loop r True by (simp add: run')
      moreover have "shm_inv (?s1\<lparr>vmem := v', shm_state_lock := 0\<rparr>)" by (rule shm_inv_cong' [OF inv]) simp_all
      ultimately show ?thesis by (simp add: wp_def kept_def)
    next
      case False
      let ?s2 = "if refcount ?en = 0 then ?s1\<lparr>shm_used_memory := shm_used_memory s + entry_num_pages ?en * shm_page_size s\<rparr> else ?s1"
      let ?t = "(set_mapping j ?m (set_entry e ?inc ?s2))\<lparr>shm_state_lock := 0\<rparr>"
      have "mehcached_shm_map e ptr offset len s = (Done True, ?t)"
        using loop r False by (cases "refcount ?en = 0") (simp_all add: run' register_mapping_def)
      moreover have "shm_inv ?t" by (rule shm_inv_cong' [OF inv']) simp_all
      ultimately show ?thesis by (simp add: wp_def kept_def)
    qed
  qed
qed

lemma shm_map_kept:
  assumes "shm_inv s" and "e < MEHCACHED_SHM_MAX_ENTRIES" and "ptr \<noteq> 0" and "unat offset + unat len + unat (shm_page_size s) \<le> 2 ^ 64"
  shows "wp (mehcached_shm_map e ptr offset len) (kept True s) s"
proof -
  have inv: "shm_inv_but {} s" and lock: "shm_state_lock s = 0" using assms(1) by (simp_all add: shm_inv_def)
  have sz: "shm_page_size s \<noteq> 0" using inv_page_size [OF inv] by auto
  define j where "j = first_from (\<lambda>m. map_addr (shm_mappings s m) = 0) MEHCACHED_SHM_MAX_MAPPINGS 0"
  let ?en = "shm_entries s e" and ?al = "\<lambda>w. w AND NOT (shm_page_size s - 1)"
  note run = mehcached_shm_map_def Let_def run_steps bnd_exit lock_run lock assms(2) sz j_def [symmetric]
  have same: "shm_inv (s\<lparr>shm_state_lock := 0\<rparr>)" by (rule shm_inv_cong' [OF inv]) simp_all
  consider (aligned) "?al ptr \<noteq> ptr \<or> ?al offset \<noteq> offset"
    | (bad) "?al ptr = ptr" "?al offset = offset" "pages ?en = None \<or> offset > entry_length ?en \<or> offset + len > entry_length ?en \<or> j = MEHCACHED_SHM_MAX_MAPPINGS"
    | (go) ps where "?al ptr = ptr" "?al offset = offset" "pages ?en = Some ps" "\<not> offset > entry_length ?en" "\<not> offset + len > entry_length ?en"
        "j \<noteq> MEHCACHED_SHM_MAX_MAPPINGS" by (cases "pages ?en") blast+
  then show ?thesis
  proof cases
    case aligned
    then have "mehcached_shm_map e ptr offset len s = (Exit False, s)" by (cases "?al ptr = ptr") (simp_all add: run)
    then show ?thesis using assms(1) by (simp add: wp_def kept_def)
  next
    case bad
    then have "mehcached_shm_map e ptr offset len s = (Exit False, s\<lparr>shm_state_lock := 0\<rparr>)"
      by (cases "pages ?en"; cases "offset > entry_length ?en"; cases "offset + len > entry_length ?en") (simp_all add: run)
    then show ?thesis using same by (simp add: wp_def kept_def)
  next
    case (go ps)
    then show ?thesis using shm_map_go [OF assms go j_def] by simp
  qed
qed

section \<open>Sequences of calls\<close>

datatype shm_call = SAlloc u64 u64 | SMap nat u64 u64 u64 | SUnmap u64 | SRemove nat
datatype shm_result = SEntry "nat option" | SFlag bool

fun shm_do :: "shm_call \<Rightarrow> (shm, unit, shm_result) body" where
  "shm_do (SAlloc len node) = bnd (call (mehcached_shm_alloc len node)) (\<lambda>r. ret (SEntry r))"
| "shm_do (SMap e ptr offset len) = bnd (call (mehcached_shm_map e ptr offset len)) (\<lambda>r. ret (SFlag r))"
| "shm_do (SUnmap ptr) = bnd (call (mehcached_shm_unmap ptr)) (\<lambda>r. ret (SFlag r))"
| "shm_do (SRemove e) = bnd (call (mehcached_shm_schedule_remove e)) (\<lambda>r. ret (SFlag r))"

fun shm_calls :: "shm_call list \<Rightarrow> (shm, unit, shm_result list) body" where
  "shm_calls [] = ret []"
| "shm_calls (c # cs) = bnd (shm_do c) (\<lambda>r. bnd (shm_calls cs) (\<lambda>rs. ret (r # rs)))"

text \<open>The arguments for which the manager is safe: sizes that do not wrap around when they are rounded
  up to pages, entries inside the table, and addresses other than the null pointer, which
  \<^verbatim>\<open>mehcached_shm_unmap\<close> would find in every free mapping.\<close>

fun shm_call_ok :: "u64 \<Rightarrow> shm_call \<Rightarrow> bool" where
  "shm_call_ok sz (SAlloc len node) \<longleftrightarrow> unat len + unat sz \<le> 2 ^ 64"
| "shm_call_ok sz (SMap e ptr offset len) \<longleftrightarrow> e < MEHCACHED_SHM_MAX_ENTRIES \<and> ptr \<noteq> 0 \<and> unat offset + unat len + unat sz \<le> 2 ^ 64"
| "shm_call_ok sz (SUnmap ptr) \<longleftrightarrow> ptr \<noteq> 0"
| "shm_call_ok sz (SRemove e) \<longleftrightarrow> e < MEHCACHED_SHM_MAX_ENTRIES"

lemma kept_call:
  "wp m (kept a s) s \<Longrightarrow> (\<exists>r s'. bnd (call m) (\<lambda>r. ret (F r)) s = (Done (F r), s') \<and> shm_inv s' \<and> shm_page_size s' = shm_page_size s)
    \<or> a \<and> (\<exists>s'. bnd (call m) (\<lambda>r. ret (F r)) s = (Abort, s'))"
  by (cases "m s"; cases "fst (m s)") (auto simp: wp_def kept_def call_def bnd_def ret_def)

lemma shm_do_kept:
  assumes "shm_inv s" and "shm_call_ok (shm_page_size s) c"
  shows "(\<exists>r s'. shm_do c s = (Done r, s') \<and> shm_inv s' \<and> shm_page_size s' = shm_page_size s) \<or> (\<exists>s'. shm_do c s = (Abort, s'))"
proof (cases c)
  case (SAlloc len node)
  then show ?thesis using kept_call [OF shm_alloc_kept [OF assms(1)], where F = SEntry] assms(2) by fastforce
next
  case (SMap e ptr offset len)
  then show ?thesis using kept_call [OF shm_map_kept [OF assms(1)], where F = SFlag] assms(2) by fastforce
next
  case (SUnmap ptr)
  then show ?thesis using kept_call [OF shm_unmap_kept [OF assms(1)], where F = SFlag] assms(2) by fastforce
next
  case (SRemove e)
  then show ?thesis using kept_call [OF shm_schedule_remove_kept [OF assms(1)], where F = SFlag] assms(2) by fastforce
qed

lemma shm_calls_kept:
  assumes "shm_inv s" and "list_all (shm_call_ok (shm_page_size s)) cs"
  shows "(\<exists>rs s'. shm_calls cs s = (Done rs, s') \<and> shm_inv s') \<or> (\<exists>s'. shm_calls cs s = (Abort, s'))"
  using assms
proof (induction cs arbitrary: s)
  case Nil
  then show ?case by (simp add: ret_def)
next
  case (Cons c cs)
  from shm_do_kept [OF Cons.prems(1)] Cons.prems(2)
  consider (ok) r s1 where "shm_do c s = (Done r, s1)" "shm_inv s1" "shm_page_size s1 = shm_page_size s" | (stop) s1 where "shm_do c s = (Abort, s1)"
    by fastforce
  then show ?case
  proof cases
    case ok
    then show ?thesis using Cons.IH [OF ok(2)] Cons.prems(2) by (auto simp: bnd_run bnd_abort ret_def)
  next
    case stop
    then show ?thesis by (simp add: bnd_abort)
  qed
qed

section \<open>Initialisation establishes it\<close>

text \<open>Through the loops of \<^verbatim>\<open>mehcached_shm_init\<close> no page is in use and the other arrays are empty.\<close>

definition blank :: "u64 \<Rightarrow> shm \<Rightarrow> bool" where
  "blank sz s \<longleftrightarrow> shm_page_size s = sz \<and> shm_state_lock s = 0 \<and> (\<forall>p. in_use (shm_pages s p) = 0) \<and> shm_entries s = (\<lambda>_. zero_entry)
     \<and> shm_mappings s = (\<lambda>_. zero_mapping) \<and> shm_used_memory s = 0"

lemma blank_inv: "k < 64 \<Longrightarrow> blank (2 ^ k) s \<Longrightarrow> shm_inv s"
  by (auto simp: blank_def shm_inv_def shm_inv_but_def entry_inv_def zero_entry_def zero_mapping_def maps_of_def owned_def)

lemma blank_page: "blank sz s \<Longrightarrow> in_use (f (shm_pages s i)) = 0 \<Longrightarrow> blank sz (set_page i f s)"
  by (simp add: blank_def set_page_def)

lemma blank_rest [simp]: "blank sz (s\<lparr>vmem := v\<rparr>) = blank sz s" "blank sz (s\<lparr>ticks := n\<rparr>) = blank sz s"
  by (simp_all add: blank_def)

lemma blank_use: "blank sz s \<Longrightarrow> in_use (shm_pages s i) = 0"
  by (simp add: blank_def)

lemma blank_sort:
  assumes "blank sz s"
  shows "blank sz (sort_pages key n s)"
proof -
  have "in_use (sort_key key (map (shm_pages s) [0..<n]) ! i) = 0" if "i < n" for i
  proof -
    have "sort_key key (map (shm_pages s) [0..<n]) ! i \<in> set (sort_key key (map (shm_pages s) [0..<n]))"
      using that by (intro nth_mem) simp
    then show ?thesis using blank_use [OF assms] by auto
  qed
  then show ?thesis using assms by (simp add: blank_def sort_pages_def Let_def)
qed

lemma blank_create: "blank sz s \<Longrightarrow> wp (create_loop k i) (\<lambda>_. blank sz) s"
proof (induction k arbitrary: i s)
  case (Suc k)
  have "blank sz ((set_page i (\<lambda>pg. pg\<lparr>path := q, page_addr := a\<rparr>) (s\<lparr>ticks := n\<rparr>))\<lparr>vmem := v\<rparr>)" for q a n v
    using blank_page [of sz "s\<lparr>ticks := n\<rparr>"] Suc.prems blank_use [OF Suc.prems] by simp
  then show ?case using Suc by (auto simp: wp_rules)
qed (simp add: wp_rules)

lemma blank_numa: "blank sz s \<Longrightarrow> wp (numa_loop ls n i) (\<lambda>_. blank sz) s"
proof (induction ls arbitrary: i s)
  case (Cons l ls)
  have "blank sz (set_page i (\<lambda>pg. pg\<lparr>numa_node := a\<rparr>) s)" for a
    using blank_page [OF Cons.prems] blank_use [OF Cons.prems] by simp
  then show ?case using Cons by (cases l) (auto simp: wp_rules)
qed (simp add: wp_rules)

lemma blank_paddr: "blank sz s \<Longrightarrow> wp (paddr_loop pm nps k i) (\<lambda>_. blank sz) s"
proof (induction k arbitrary: i s)
  case (Suc k)
  have "blank sz (set_page i (\<lambda>pg. pg\<lparr>page_paddr := a\<rparr>) s)" for a
    using blank_page [OF Suc.prems] blank_use [OF Suc.prems] by simp
  then show ?case using Suc by (auto simp: wp_rules)
qed (simp add: wp_rules)

lemma blank_release: "blank sz s \<Longrightarrow> wp (release_loop nodes per k i reserved) (\<lambda>_. blank sz) s"
proof (induction k arbitrary: i s reserved)
  case (Suc k)
  have "blank sz ((set_page i (\<lambda>_. zero_page) s)\<lparr>vmem := v\<rparr>)" for v
    using blank_page [OF Suc.prems] by (simp add: zero_page_def)
  then show ?case using Suc by (auto simp: wp_rules)
qed (simp add: wp_rules)

lemma next_power_loop_less: "next_power_loop n v s = Some k \<Longrightarrow> k < s + n"
  by (induction n v s rule: next_power_loop.induct) (auto split: if_splits)

lemma next_power_of_two_power: "mehcached_next_power_of_two w = Some w \<Longrightarrow> \<exists>k < 64. w = 2 ^ k"
  using next_power_loop_less [of 64 w 0] by (auto simp: mehcached_next_power_of_two_def push_bit_eq_mult)

lemma shm_init_inv:
  assumes "mehcached_shm_init lines pagemap nps sz nodes try reserve s0 = (Done () :: ('r, unit) outcome, s)"
  shows "shm_inv s" and "shm_page_size s = sz"
proof -
  note steps = blank_create [where sz = sz, THEN wp_weaken] blank_numa [where sz = sz, THEN wp_weaken]
    blank_paddr [where sz = sz, THEN wp_weaken] blank_release [where sz = sz, THEN wp_weaken]
  have power: "mehcached_next_power_of_two sz = Some sz"
    using assms by (simp add: mehcached_shm_init_def bnd_def assertM_def split: if_splits)
  have "blank sz (s0\<lparr>shm_state_lock := 0, shm_page_size := sz, shm_pages := (\<lambda>_. zero_page), shm_entries := (\<lambda>_. zero_entry),
          shm_mappings := (\<lambda>_. zero_mapping), shm_used_memory := 0\<rparr>)"
    by (simp add: blank_def zero_page_def)
  then have "wp (mehcached_shm_init lines pagemap nps sz nodes try reserve :: (shm, 'r, unit) body) (\<lambda>x s'. x = Done () \<longrightarrow> blank sz s') s0"
    unfolding mehcached_shm_init_def by (auto simp: wp_rules power blank_sort split: outcome.splits intro!: steps)
  then have "blank sz s" using assms by (simp add: wp_def)
  then show "shm_inv s" "shm_page_size s = sz" using blank_inv next_power_of_two_power [OF power] by (auto simp: blank_def)
qed

text \<open>Unmapping and scheduling a removal never change the memory statistics.\<close>

lemma drop_used_memory [simp]: "shm_used_memory (drop_if_unused e s) = shm_used_memory s"
proof -
  have "shm_used_memory (mark_pages ps v s) = shm_used_memory s" for ps v
    by (induction ps arbitrary: s) (simp_all add: mark_pages_def set_page_def)
  then show ?thesis by (simp add: drop_if_unused_def set_entry_def)
qed

lemma memuse_never_released:
  "mehcached_shm_unmap ptr s = (x, s') \<Longrightarrow> shm_used_memory s' = shm_used_memory s"
  "mehcached_shm_schedule_remove e s = (x, s') \<Longrightarrow> shm_used_memory s' = shm_used_memory s"
proof -
  show "mehcached_shm_schedule_remove e s = (x, s') \<Longrightarrow> shm_used_memory s' = shm_used_memory s"
    by (auto simp: mehcached_shm_schedule_remove_def mehcached_shm_lock_def mehcached_shm_unlock_def check_remove_run run_defs set_entry_def
        split: if_splits)
  let ?s = "s\<lparr>shm_state_lock := 1\<rparr>"
  define j where "j = first_from (\<lambda>m. map_addr (shm_mappings s m) = ptr) MEHCACHED_SHM_MAX_MAPPINGS 0"
  obtain v where "unmap_loop (unat (map_num_pages (shm_mappings s j))) ptr ?s = (Done () :: (bool, unit) outcome, ?s\<lparr>vmem := v\<rparr>)"
    using unmap_loop_run by blast
  then show "mehcached_shm_unmap ptr s = (x, s') \<Longrightarrow> shm_used_memory s' = shm_used_memory s"
    by (auto simp: mehcached_shm_unmap_def mehcached_shm_lock_def mehcached_shm_unlock_def check_remove_run run_defs set_entry_def set_mapping_def
        j_def [symmetric] split: if_splits)
qed

text \<open>C39. Every page has one owner. After the shared-memory manager has been initialised, any sequence of
  allocations, mappings, unmappings and removals either stops at the assertion that a page file can be
  opened or returns, never with undefined behaviour. When it returns, the lock is free, a page is in use exactly when an entry owns
  it, no page belongs to two entries, and the reference count of every allocated entry is the
  number of its mappings.\<close>

theorem shm_pages_owned:
  assumes "mehcached_shm_init lines pagemap normal sz nodes try reserve s0 = (Done (), s)" and "list_all (shm_call_ok sz) cs"
  shows "\<exists>x s'. shm_calls cs s = (x, s') \<and> (x = Abort \<or> (\<exists>rs. x = Done rs \<and> shm_state_lock s' = 0
    \<and> (\<forall>p < MEHCACHED_SHM_MAX_PAGES. in_use (shm_pages s' p) \<noteq> 0 \<longleftrightarrow> (\<exists>e < MEHCACHED_SHM_MAX_ENTRIES. p \<in> owned s' e))
    \<and> (\<forall>e < MEHCACHED_SHM_MAX_ENTRIES. \<forall>e' < MEHCACHED_SHM_MAX_ENTRIES. e \<noteq> e' \<longrightarrow> owned s' e \<inter> owned s' e' = {})
    \<and> (\<forall>e < MEHCACHED_SHM_MAX_ENTRIES. pages (shm_entries s' e) \<noteq> None \<longrightarrow> unat (refcount (shm_entries s' e)) = card (maps_of s' e))))"
proof -
  note init = shm_init_inv [OF assms(1)]
  from shm_calls_kept [OF init(1), of cs] assms(2) init(2)
  consider (ok) rs s' where "shm_calls cs s = (Done rs, s')" "shm_inv s'" | (stop) s' where "shm_calls cs s = (Abort, s')" by auto
  then show ?thesis
  proof cases
    case ok
    then have inv: "shm_inv_but {} s'" "shm_state_lock s' = 0" by (simp_all add: shm_inv_def)
    have "unat (refcount (shm_entries s' e)) = card (maps_of s' e)" if "e < MEHCACHED_SHM_MAX_ENTRIES" "pages (shm_entries s' e) \<noteq> None" for e
      using inv_entry [OF inv(1) that(1)] that(2) by (auto simp: entry_inv_def)
    moreover have "in_use (shm_pages s' p) \<noteq> 0 \<longleftrightarrow> (\<exists>e < MEHCACHED_SHM_MAX_ENTRIES. p \<in> owned s' e)" if "p < MEHCACHED_SHM_MAX_PAGES" for p
      using inv_used [OF inv(1) that] owned_in_use(2) [OF inv(1)] by blast
    ultimately show ?thesis using ok(1) inv(2) inv_apart [OF inv(1)] by blast
  next
    case stop
    then show ?thesis by simp
  qed
qed

text \<open>A machine with one huge page, where every system call answers with the same address.\<close>

definition one_page :: shm where
  "one_page = \<lparr>shm_page_size = 0, shm_state_lock = 0, shm_pages = (\<lambda>_. zero_page), shm_entries = (\<lambda>_. zero_entry),
     shm_mappings = (\<lambda>_. zero_mapping), shm_used_memory = 0, vmem = Map.empty, sys = (\<lambda>_. 4194304), ticks = 0\<rparr>"

lemma one_page_init: "\<exists>s. mehcached_shm_init [(4194304, Some 0)] (\<lambda>_. Some 7) 4096 2097152 1 1 1 one_page = (Done (), s)"
proof -
  have "mehcached_next_power_of_two 2097152 = Some 2097152" by code_simp
  moreover have "unat (1 :: u64) = Suc 0" by simp
  ultimately show ?thesis
    by (simp add: mehcached_shm_init_def one_page_def run_defs syscall_def set_page_def sort_pages_def zero_page_def MEHCACHED_SHM_MAX_PAGES_def)
qed

theorem shm_pages_owned_witness:
  "\<exists>s x s'. mehcached_shm_init [(4194304, Some 0)] (\<lambda>_. Some 7) 4096 2097152 1 1 1 one_page = (Done () :: (unit, unit) outcome, s)
    \<and> shm_calls [SAlloc 2097152 0, SMap 0 6291456 0 2097152, SRemove 0, SUnmap 6291456] s = (x, s') \<and> x \<noteq> Undef"
proof -
  obtain s where s: "mehcached_shm_init [(4194304, Some 0)] (\<lambda>_. Some 7) 4096 2097152 1 1 1 one_page = (Done () :: (unit, unit) outcome, s)"
    using one_page_init by blast
  have "list_all (shm_call_ok 2097152) [SAlloc 2097152 0, SMap 0 6291456 0 2097152, SRemove 0, SUnmap 6291456]"
    by (simp add: MEHCACHED_SHM_MAX_ENTRIES_def)
  then show ?thesis using shm_pages_owned [OF s, of "[SAlloc 2097152 0, SMap 0 6291456 0 2097152, SRemove 0, SUnmap 6291456]"] s by blast
qed

end
