(* ===== verification/Mica_Table.thy ===== *)
theory Mica_Table
  imports Mica_Pool
begin

text \<open>
  The hash table of the MICA key-value store (\<^verbatim>\<open>table.c\<close>, \<^verbatim>\<open>table.h\<close>) over the pool allocator, in the
  configuration of \<^verbatim>\<open>config.h\<close>: eviction on (no extra buckets, fifteen items per bucket), one pool,
  no concurrent access, assertions on. An operation is a body over the table; the caller's key and
  value buffers are the bytes that can be read at the pointers, reading past them is \<open>Undef\<close>.
\<close>

section \<open>Packed words\<close>

definition MEHCACHED_ITEMS_PER_BUCKET :: nat where
  "MEHCACHED_ITEMS_PER_BUCKET = 15"

definition MEHCACHED_MAX_KEY_LENGTH :: u64 where
  "MEHCACHED_MAX_KEY_LENGTH = 255"

definition MEHCACHED_MAX_VALUE_LENGTH :: u64 where
  "MEHCACHED_MAX_VALUE_LENGTH = 1048575"

definition MEHCACHED_TAG :: "u64 \<Rightarrow> u64" where
  "MEHCACHED_TAG v = drop_bit 48 v"

definition MEHCACHED_ITEM_OFFSET :: "u64 \<Rightarrow> u64" where
  "MEHCACHED_ITEM_OFFSET v = v AND MEHCACHED_ITEM_OFFSET_MASK"

definition MEHCACHED_ITEM_VEC :: "u64 \<Rightarrow> u64 \<Rightarrow> u64" where
  "MEHCACHED_ITEM_VEC tag item_offset = push_bit 48 tag OR item_offset"

definition MEHCACHED_KEY_LENGTH :: "u32 \<Rightarrow> u32" where
  "MEHCACHED_KEY_LENGTH kv_length_vec = drop_bit 24 kv_length_vec"

definition MEHCACHED_VALUE_LENGTH :: "u32 \<Rightarrow> u32" where
  "MEHCACHED_VALUE_LENGTH kv_length_vec = kv_length_vec AND (push_bit 24 1 - 1)"

definition MEHCACHED_KV_LENGTH_VEC :: "u32 \<Rightarrow> u32 \<Rightarrow> u32" where
  "MEHCACHED_KV_LENGTH_VEC key_length value_length = push_bit 24 key_length OR value_length"

section \<open>The table\<close>

record mehcached_bucket =
  version :: u32
  next_extra_bucket_index :: u32
  item_vec :: "u64 list"

record mehcached_table =
  alloc :: mehcached_pool
  alloc_id_mask :: u8
  mth_threshold :: u64
  buckets :: "mehcached_bucket list"
  table_access_mode :: u8
  num_buckets :: u32
  num_buckets_mask :: u32
  num_extra_buckets :: u32
  extra_bucket_head :: u32
  rshift :: nat

definition on_alloc :: "(mehcached_pool, 'r, 'a) body \<Rightarrow> (mehcached_table, 'r, 'a) body" where
  "on_alloc m = (\<lambda>t. case m (alloc t) of (x, p) \<Rightarrow> (x, t\<lparr>alloc := p\<rparr>))"

definition item_load :: "nat \<Rightarrow> nat \<Rightarrow> (mehcached_table, 'r, 'a::len word) body" where
  "item_load v n = bnd (on_alloc (pool_load v n)) (\<lambda>bs. ret (le_dec bs))"

text \<open>The slot \<open>item_vec[i]\<close> of a bucket.\<close>

definition get_slot :: "mehcached_table \<Rightarrow> nat \<Rightarrow> nat \<Rightarrow> u64" where
  "get_slot t b i = item_vec (buckets t ! b) ! i"

definition put_slot :: "nat \<Rightarrow> nat \<Rightarrow> u64 \<Rightarrow> mehcached_table \<Rightarrow> mehcached_table" where
  "put_slot b i v t = t\<lparr>buckets := (buckets t)[b := (buckets t ! b)\<lparr>item_vec := (item_vec (buckets t ! b))[i := v]\<rparr>]\<rparr>"

definition mehcached_calc_bucket_index :: "mehcached_table \<Rightarrow> u64 \<Rightarrow> u32" where
  "mehcached_calc_bucket_index t key_hash = ucast (drop_bit 16 key_hash) AND num_buckets_mask t"

definition mehcached_calc_tag :: "u64 \<Rightarrow> u16" where
  "mehcached_calc_tag key_hash = (let tag = ucast (key_hash AND (push_bit 16 1 - 1)) in if tag = 0 then 1 else tag)"

text \<open>\<^verbatim>\<open>table->buckets + bucket_index\<close>, and the pool a call may use: only \<^verbatim>\<open>alloc[0]\<close> is ever set up.\<close>

definition locate_bucket :: "u64 \<Rightarrow> (mehcached_table, 'r, nat) body" where
  "locate_bucket key_hash = bnd (gets (\<lambda>t. unat (mehcached_calc_bucket_index t key_hash))) (\<lambda>b.
     bnd (guardM (\<lambda>t. b < length (buckets t))) (\<lambda>_. ret b))"

section \<open>Item access\<close>

text \<open>Copies and compares round the length up to whole eight-byte words.\<close>

definition mehcached_memcpy8_in :: "nat \<Rightarrow> u8 list \<Rightarrow> u64 \<Rightarrow> (mehcached_table, 'r, unit) body" where
  "mehcached_memcpy8_in dest src len = (let n = unat (MEHCACHED_ROUNDUP8 len) in
     bnd (guardM (\<lambda>_. n \<le> length src)) (\<lambda>_. on_alloc (pool_store dest (take n src))))"

definition mehcached_memcpy8_out :: "nat \<Rightarrow> u64 \<Rightarrow> (mehcached_table, 'r, u8 list) body" where
  "mehcached_memcpy8_out src len = on_alloc (pool_load src (unat (MEHCACHED_ROUNDUP8 len)))"

definition mehcached_memcmp8 :: "nat \<Rightarrow> u8 list \<Rightarrow> u64 \<Rightarrow> (mehcached_table, 'r, bool) body" where
  "mehcached_memcmp8 dest src len = (let n = unat (MEHCACHED_ROUNDUP8 len) in
     bnd (guardM (\<lambda>_. n \<le> length src)) (\<lambda>_.
     bnd (on_alloc (pool_load dest n)) (\<lambda>bs. ret (bs = take n src))))"

definition mehcached_set_item :: "nat \<Rightarrow> u64 \<Rightarrow> u8 list \<Rightarrow> u32 \<Rightarrow> u8 list \<Rightarrow> u32 \<Rightarrow> u32 \<Rightarrow> (mehcached_table, 'r, unit) body" where
  "mehcached_set_item item key_hash key key_length value value_length expire_time =
     bnd (assertM (\<lambda>_. key_length \<le> push_bit 8 1 - 1)) (\<lambda>_.
     bnd (assertM (\<lambda>_. value_length \<le> push_bit 24 1 - 1)) (\<lambda>_.
     bnd (on_alloc (pool_store (item + 8) (le_enc 4 (MEHCACHED_KV_LENGTH_VEC key_length value_length)))) (\<lambda>_.
     bnd (on_alloc (pool_store (item + 16) (le_enc 8 key_hash))) (\<lambda>_.
     bnd (on_alloc (pool_store (item + 12) (le_enc 4 expire_time))) (\<lambda>_.
     bnd (mehcached_memcpy8_in (item + 24) key (ucast key_length)) (\<lambda>_.
     mehcached_memcpy8_in (item + 24 + unat (MEHCACHED_ROUNDUP8 (ucast key_length))) value (ucast value_length)))))))"

definition mehcached_set_item_value :: "nat \<Rightarrow> u8 list \<Rightarrow> u32 \<Rightarrow> u32 \<Rightarrow> (mehcached_table, 'r, unit) body" where
  "mehcached_set_item_value item value value_length expire_time =
     bnd (assertM (\<lambda>_. value_length \<le> push_bit 24 1 - 1)) (\<lambda>_.
     bnd (item_load (item + 8) 4) (\<lambda>kv_length_vec. let key_length = MEHCACHED_KEY_LENGTH kv_length_vec in
     bnd (on_alloc (pool_store (item + 8) (le_enc 4 (MEHCACHED_KV_LENGTH_VEC key_length value_length)))) (\<lambda>_.
     bnd (on_alloc (pool_store (item + 12) (le_enc 4 expire_time))) (\<lambda>_.
     mehcached_memcpy8_in (item + 24 + unat (MEHCACHED_ROUNDUP8 (ucast key_length))) value (ucast value_length)))))"

definition mehcached_compare_keys :: "nat \<Rightarrow> u64 \<Rightarrow> u8 list \<Rightarrow> u64 \<Rightarrow> (mehcached_table, 'r, bool) body" where
  "mehcached_compare_keys key1 key1_len key2 key2_len =
     (if key1_len = key2_len then mehcached_memcmp8 key1 key2 key1_len else ret False)"

section \<open>Searching a bucket\<close>

definition item_matches :: "u64 \<Rightarrow> u64 \<Rightarrow> u16 \<Rightarrow> u8 list \<Rightarrow> u64 \<Rightarrow> (mehcached_table, 'r, bool) body" where
  "item_matches vec key_hash tag key key_length =
     (if MEHCACHED_TAG vec \<noteq> ucast tag then ret False else
      bnd (gets (\<lambda>t. mehcached_pool_item (alloc t) (MEHCACHED_ITEM_OFFSET vec))) (\<lambda>item.
      bnd (item_load (item + 16) 8) (\<lambda>h. if h \<noteq> key_hash then ret False else
      bnd (item_load (item + 8) 4) (\<lambda>kv_length_vec.
      mehcached_compare_keys (item + 24) (ucast (MEHCACHED_KEY_LENGTH kv_length_vec)) key key_length))))"

fun find_item_loop :: "nat list \<Rightarrow> nat \<Rightarrow> u64 \<Rightarrow> u16 \<Rightarrow> u8 list \<Rightarrow> u64 \<Rightarrow> (mehcached_table, 'r, nat) body" where
  "find_item_loop [] b key_hash tag key key_length = ret MEHCACHED_ITEMS_PER_BUCKET"
| "find_item_loop (i # is) b key_hash tag key key_length =
     bnd (gets (\<lambda>t. get_slot t b i)) (\<lambda>vec.
     bnd (item_matches vec key_hash tag key key_length) (\<lambda>found.
     if found then ret i else find_item_loop is b key_hash tag key key_length))"

definition mehcached_find_item_index :: "nat \<Rightarrow> u64 \<Rightarrow> u16 \<Rightarrow> u8 list \<Rightarrow> u64 \<Rightarrow> (mehcached_table, 'r, nat) body" where
  "mehcached_find_item_index = find_item_loop [0..<MEHCACHED_ITEMS_PER_BUCKET]"

fun same_tag_loop :: "nat list \<Rightarrow> u64 list \<Rightarrow> u16 \<Rightarrow> nat" where
  "same_tag_loop [] vs tag = MEHCACHED_ITEMS_PER_BUCKET"
| "same_tag_loop (i # is) vs tag = (if MEHCACHED_TAG (vs ! i) \<noteq> ucast tag then same_tag_loop is vs tag else i)"

definition mehcached_find_same_tag :: "mehcached_table \<Rightarrow> nat \<Rightarrow> u16 \<Rightarrow> nat" where
  "mehcached_find_same_tag t b tag = same_tag_loop [0..<MEHCACHED_ITEMS_PER_BUCKET] (item_vec (buckets t ! b)) tag"

fun oldest_loop :: "nat list \<Rightarrow> u64 list \<Rightarrow> mehcached_pool \<Rightarrow> nat \<Rightarrow> u64 \<Rightarrow> nat" where
  "oldest_loop [] vs p oldest_item_index oldest_item_distance = oldest_item_index"
| "oldest_loop (i # is) vs p oldest_item_index oldest_item_distance =
     (if vs ! i = 0 then i
      else let distance = (pool_tail p - MEHCACHED_ITEM_OFFSET (vs ! i)) AND MEHCACHED_ITEM_OFFSET_MASK in
        if oldest_item_distance > distance then oldest_loop is vs p i distance
        else oldest_loop is vs p oldest_item_index oldest_item_distance)"

definition mehcached_find_empty_or_oldest :: "mehcached_table \<Rightarrow> nat \<Rightarrow> nat" where
  "mehcached_find_empty_or_oldest t b =
     oldest_loop [0..<MEHCACHED_ITEMS_PER_BUCKET] (item_vec (buckets t ! b)) (alloc t) 0 (- 1)"

section \<open>Cleaning up\<close>

definition clean_bucket :: "nat \<Rightarrow> mehcached_table \<Rightarrow> mehcached_table" where
  "clean_bucket b t = t\<lparr>buckets := (buckets t)[b := (buckets t ! b)\<lparr>item_vec :=
     map (\<lambda>v. if v = 0 then v
              else if \<not> mehcached_pool_is_valid (alloc t) (MEHCACHED_ITEM_OFFSET v) then 0 else v)
       (item_vec (buckets t ! b))\<rparr>]\<rparr>"

text \<open>The loop visits each bucket at most once before it meets its end, so that \<open>num_buckets + 1\<close>
  tests of its condition are enough.\<close>

fun cleanup_loop :: "nat \<Rightarrow> u64 \<Rightarrow> u64 \<Rightarrow> (mehcached_table, 'r, unit) body" where
  "cleanup_loop 0 bucket_index bucket_index_end = guardM (\<lambda>_. False)"
| "cleanup_loop (Suc n) bucket_index bucket_index_end =
     (if bucket_index = bucket_index_end then ret ()
      else bnd (guardM (\<lambda>t. unat bucket_index < length (buckets t))) (\<lambda>_.
        bnd (modifyM (clean_bucket (unat bucket_index))) (\<lambda>_.
        bnd (gets (\<lambda>t. (bucket_index + 1) AND ucast (num_buckets_mask t))) (\<lambda>next_index.
        cleanup_loop n next_index bucket_index_end))))"

definition mehcached_cleanup_bucket :: "u64 \<Rightarrow> u64 \<Rightarrow> (mehcached_table, 'r, unit) body" where
  "mehcached_cleanup_bucket old_tail new_tail =
     bnd (gets (\<lambda>t. drop_bit (rshift t) old_tail AND ucast (num_buckets_mask t))) (\<lambda>bucket_index.
     bnd (gets (\<lambda>t. drop_bit (rshift t) new_tail AND ucast (num_buckets_mask t))) (\<lambda>bucket_index_end.
     bnd (gets (\<lambda>t. unat (num_buckets t))) (\<lambda>n.
     cleanup_loop (Suc n) bucket_index bucket_index_end)))"

definition mehcached_cleanup_all :: "(mehcached_table, 'r, unit) body" where
  "mehcached_cleanup_all = bnd (gets rshift) (\<lambda>r.
     bnd (mehcached_cleanup_bucket 0 (push_bit r 1)) (\<lambda>_. mehcached_cleanup_bucket (push_bit r 1) 0))"

section \<open>Operations\<close>

text \<open>\<^verbatim>\<open>sizeof(struct mehcached_item)\<close> plus the rounded key and value, cut to 32 bits.\<close>

definition item_size_for :: "u64 \<Rightarrow> u64 \<Rightarrow> u32" where
  "item_size_for key_length value_length = ucast (24 + MEHCACHED_ROUNDUP8 key_length + MEHCACHED_ROUNDUP8 value_length)"

text \<open>The move-to-head part of \<^verbatim>\<open>mehcached_get\<close>.\<close>

definition move_to_head :: "nat \<Rightarrow> nat \<Rightarrow> u64 \<Rightarrow> nat \<Rightarrow> u32 \<Rightarrow> (mehcached_table, 'r, unit) body" where
  "move_to_head b i vec item item_size = (let item_offset = MEHCACHED_ITEM_OFFSET vec in
     bnd (gets (\<lambda>t. (pool_tail (alloc t) - item_offset) AND pool_mask (alloc t))) (\<lambda>distance_from_tail.
     bnd (gets mth_threshold) (\<lambda>threshold.
     whenM (distance_from_tail > threshold)
       (bnd (gets (\<lambda>t. get_slot t b i = vec)) (\<lambda>still_there.
        whenM still_there
         (bnd (on_alloc (mehcached_pool_allocate item_size)) (\<lambda>new_item_offset.
          bnd (gets (\<lambda>t. pool_tail (alloc t))) (\<lambda>new_tail.
          bnd (gets (\<lambda>t. mehcached_pool_is_valid (alloc t) item_offset)) (\<lambda>valid.
          bnd (whenM valid
            (bnd (gets (\<lambda>t. mehcached_pool_item (alloc t) new_item_offset)) (\<lambda>new_item.
             bnd (mehcached_memcpy8_out item (ucast item_size)) (\<lambda>bs.
             bnd (mehcached_memcpy8_in new_item bs (ucast item_size)) (\<lambda>_.
             modifyM (put_slot b i (MEHCACHED_ITEM_VEC (MEHCACHED_TAG vec) new_item_offset))))))) (\<lambda>_.
          mehcached_cleanup_bucket new_item_offset new_tail))))))))))"

text \<open>The value is cut to the caller's buffer.\<close>

definition adjusted_length :: "u64 \<Rightarrow> u64 \<Rightarrow> u64" where
  "adjusted_length item_value_length in_value_length =
     (if item_value_length > in_value_length then in_value_length else item_value_length)"

text \<open>\<open>None\<close> is the result false; \<open>Some (bytes, length, expire_time)\<close> is true, with the bytes copied to
  \<^verbatim>\<open>out_value\<close> and the new \<^verbatim>\<open>*in_out_value_length\<close>.\<close>

definition mehcached_get :: "u8 \<Rightarrow> u64 \<Rightarrow> u8 list \<Rightarrow> u64 \<Rightarrow> u64 \<Rightarrow> bool
    \<Rightarrow> (mehcached_table, (u8 list \<times> u64 \<times> u32) option, (u8 list \<times> u64 \<times> u32) option) body" where
  "mehcached_get current_alloc_id key_hash key key_length in_value_length readonly =
     bnd (assertM (\<lambda>_. key_length \<le> MEHCACHED_MAX_KEY_LENGTH)) (\<lambda>_.
     bnd (locate_bucket key_hash) (\<lambda>b.
     bnd (mehcached_find_item_index b key_hash (mehcached_calc_tag key_hash) key key_length) (\<lambda>i.
     bnd (whenM (i = MEHCACHED_ITEMS_PER_BUCKET) (exit_with None)) (\<lambda>_.
     bnd (gets (\<lambda>t. get_slot t b i)) (\<lambda>vec. let item_offset = MEHCACHED_ITEM_OFFSET vec in
     bnd (gets (\<lambda>t. mehcached_pool_item (alloc t) item_offset)) (\<lambda>item.
     bnd (item_load (item + 12) 4) (\<lambda>expire_time.
     bnd (item_load (item + 8) 4) (\<lambda>kv_length_vec.
     let item_key_length = min (ucast (MEHCACHED_KEY_LENGTH kv_length_vec)) MEHCACHED_MAX_KEY_LENGTH;
         item_value_length = min (ucast (MEHCACHED_VALUE_LENGTH kv_length_vec)) MEHCACHED_MAX_VALUE_LENGTH;
         item_size = item_size_for item_key_length item_value_length;
         value_length = adjusted_length item_value_length in_value_length in
     bnd (mehcached_memcpy8_out (item + 24 + unat (MEHCACHED_ROUNDUP8 item_key_length)) value_length) (\<lambda>out_value.
     bnd (gets (\<lambda>t. mehcached_pool_is_valid (alloc t) item_offset)) (\<lambda>valid.
     bnd (whenM (\<not> valid)
       (bnd (whenM (\<not> readonly) (modifyM (put_slot b i 0))) (\<lambda>_. exit_with None))) (\<lambda>_.
     bnd (assertM (\<lambda>_. \<not> value_length > 1500)) (\<lambda>_.
     bnd (whenM (\<not> readonly \<and> current_alloc_id = 0) (move_to_head b i vec item item_size)) (\<lambda>_.
     ret (Some (out_value, value_length, expire_time)))))))))))))))"

definition mehcached_test :: "u64 \<Rightarrow> u8 list \<Rightarrow> u64 \<Rightarrow> (mehcached_table, 'r, bool) body" where
  "mehcached_test key_hash key key_length =
     bnd (assertM (\<lambda>_. key_length \<le> MEHCACHED_MAX_KEY_LENGTH)) (\<lambda>_.
     bnd (locate_bucket key_hash) (\<lambda>b.
     bnd (mehcached_find_item_index b key_hash (mehcached_calc_tag key_hash) key key_length) (\<lambda>i.
     ret (i \<noteq> MEHCACHED_ITEMS_PER_BUCKET))))"

text \<open>The in-place branch of \<^verbatim>\<open>mehcached_set\<close>: it leaves the function when the old item is still valid
  and large enough.\<close>

definition set_in_place :: "nat \<Rightarrow> nat \<Rightarrow> u32 \<Rightarrow> u8 list \<Rightarrow> u64 \<Rightarrow> u32 \<Rightarrow> (mehcached_table, bool, unit) body" where
  "set_in_place b i new_item_size value value_length expire_time =
     bnd (gets (\<lambda>t. MEHCACHED_ITEM_OFFSET (get_slot t b i))) (\<lambda>item_offset.
     bnd (gets (\<lambda>t. mehcached_pool_item (alloc t) item_offset)) (\<lambda>item.
     bnd (gets (\<lambda>t. mehcached_pool_is_valid (alloc t) item_offset)) (\<lambda>valid.
     whenM valid
       (bnd (item_load item 8) (\<lambda>item_size :: u64.
        whenM (item_size \<ge> ucast new_item_size)
          (bnd (mehcached_set_item_value item value (ucast value_length) expire_time) (\<lambda>_. exit_with True)))))))"

text \<open>The second half of \<^verbatim>\<open>mehcached_set\<close>, from the allocation on.\<close>

definition store_new :: "nat \<Rightarrow> nat \<Rightarrow> u64 \<Rightarrow> u8 list \<Rightarrow> u64 \<Rightarrow> u8 list \<Rightarrow> u64 \<Rightarrow> u32 \<Rightarrow> (mehcached_table, bool, bool) body" where
  "store_new b i key_hash key key_length value value_length expire_time =
     bnd (on_alloc (mehcached_pool_allocate (item_size_for key_length value_length))) (\<lambda>new_item_offset.
     bnd (gets (\<lambda>t. pool_tail (alloc t))) (\<lambda>new_tail.
     bnd (gets (\<lambda>t. mehcached_pool_item (alloc t) new_item_offset)) (\<lambda>new_item.
     bnd (mehcached_set_item new_item key_hash key (ucast key_length) value (ucast value_length) expire_time) (\<lambda>_.
     bnd (modifyM (put_slot b i (MEHCACHED_ITEM_VEC (ucast (mehcached_calc_tag key_hash)) new_item_offset))) (\<lambda>_.
     bnd (mehcached_cleanup_bucket new_item_offset new_tail) (\<lambda>_.
     ret True))))))"

definition mehcached_set :: "u8 \<Rightarrow> u64 \<Rightarrow> u8 list \<Rightarrow> u64 \<Rightarrow> u8 list \<Rightarrow> u64 \<Rightarrow> u32 \<Rightarrow> bool \<Rightarrow> (mehcached_table, bool, bool) body" where
  "mehcached_set current_alloc_id key_hash key key_length value value_length expire_time overwrite =
     bnd (assertM (\<lambda>_. key_length \<le> MEHCACHED_MAX_KEY_LENGTH)) (\<lambda>_.
     bnd (assertM (\<lambda>_. value_length \<le> MEHCACHED_MAX_VALUE_LENGTH)) (\<lambda>_.
     bnd (locate_bucket key_hash) (\<lambda>b. let tag = mehcached_calc_tag key_hash in
     bnd (mehcached_find_item_index b key_hash tag key key_length) (\<lambda>found.
     let overwriting = (found \<noteq> MEHCACHED_ITEMS_PER_BUCKET) in
     bnd (whenM (overwriting \<and> \<not> overwrite) (exit_with False)) (\<lambda>_.
     bnd (if overwriting then ret found
          else bnd (gets (\<lambda>t. mehcached_find_same_tag t b tag)) (\<lambda>same.
            if same = MEHCACHED_ITEMS_PER_BUCKET then gets (\<lambda>t. mehcached_find_empty_or_oldest t b) else ret same)) (\<lambda>i.
     let new_item_size = item_size_for key_length value_length in
     bnd (guardM (\<lambda>_. current_alloc_id = 0)) (\<lambda>_.
     bnd (whenM overwriting (set_in_place b i new_item_size value value_length expire_time)) (\<lambda>_.
     store_new b i key_hash key key_length value value_length expire_time))))))))"

definition mehcached_delete :: "u64 \<Rightarrow> u8 list \<Rightarrow> u64 \<Rightarrow> (mehcached_table, bool, bool) body" where
  "mehcached_delete key_hash key key_length =
     bnd (assertM (\<lambda>_. key_length \<le> MEHCACHED_MAX_KEY_LENGTH)) (\<lambda>_.
     bnd (locate_bucket key_hash) (\<lambda>b.
     bnd (mehcached_find_item_index b key_hash (mehcached_calc_tag key_hash) key key_length) (\<lambda>i.
     bnd (whenM (i = MEHCACHED_ITEMS_PER_BUCKET) (exit_with False)) (\<lambda>_.
     bnd (modifyM (put_slot b i 0)) (\<lambda>_. ret True)))))"

text \<open>\<open>Some new_value\<close> is the result true with the value stored to \<^verbatim>\<open>*out_new_value\<close>.\<close>

definition mehcached_increment :: "u8 \<Rightarrow> u64 \<Rightarrow> u8 list \<Rightarrow> u64 \<Rightarrow> u64 \<Rightarrow> u32 \<Rightarrow> (mehcached_table, u64 option, u64 option) body" where
  "mehcached_increment current_alloc_id key_hash key key_length inc expire_time =
     bnd (assertM (\<lambda>_. key_length \<le> MEHCACHED_MAX_KEY_LENGTH)) (\<lambda>_.
     bnd (locate_bucket key_hash) (\<lambda>b.
     bnd (mehcached_find_item_index b key_hash (mehcached_calc_tag key_hash) key key_length) (\<lambda>i.
     bnd (whenM (i = MEHCACHED_ITEMS_PER_BUCKET) (exit_with None)) (\<lambda>_.
     bnd (whenM (current_alloc_id \<noteq> 0) (exit_with None)) (\<lambda>_.
     bnd (gets (\<lambda>t. MEHCACHED_ITEM_OFFSET (get_slot t b i))) (\<lambda>item_offset.
     bnd (gets (\<lambda>t. mehcached_pool_is_valid (alloc t) item_offset)) (\<lambda>valid.
     bnd (whenM (\<not> valid) (exit_with None)) (\<lambda>_.
     bnd (gets (\<lambda>t. mehcached_pool_item (alloc t) item_offset)) (\<lambda>item.
     bnd (item_load (item + 8) 4) (\<lambda>kv_length_vec.
     bnd (whenM (MEHCACHED_VALUE_LENGTH kv_length_vec \<noteq> 8) (exit_with None)) (\<lambda>_.
     let data = item + 24 + unat (MEHCACHED_ROUNDUP8 key_length) in
     bnd (mehcached_memcpy8_out data 8) (\<lambda>old.
     let new_value = le_dec old + inc in
     bnd (mehcached_memcpy8_in data (le_enc 8 new_value) 8) (\<lambda>_.
     bnd (on_alloc (pool_store (item + 12) (le_enc 4 expire_time))) (\<lambda>_.
     ret (Some new_value)))))))))))))))"

definition empty_bucket :: mehcached_bucket where
  "empty_bucket = \<lparr>version = 0, next_extra_bucket_index = 0, item_vec = replicate MEHCACHED_ITEMS_PER_BUCKET 0\<rparr>"

text \<open>Without extra buckets the loop over their free list is not entered.\<close>

definition mehcached_table_reset :: "mehcached_table \<Rightarrow> mehcached_table" where
  "mehcached_table_reset t = t\<lparr>buckets := map (\<lambda>_. empty_bucket) (buckets t), extra_bucket_head := 0,
     alloc := mehcached_pool_reset (alloc t)\<rparr>"

end
