(* ===== verification/Mica_Cache.thy ===== *)
theory Mica_Cache
  imports Mica_Table
begin

text \<open>
  Correctness of the MICA table over the pool log. The specification is a cache: a partial map from
  keys to values that a lookup may only answer from, but need not (an item may have been evicted).
\<close>

section \<open>Packed words\<close>

lemma tag_item_vec:
  "MEHCACHED_TAG (MEHCACHED_ITEM_VEC (ucast (tag :: u16)) (off AND MEHCACHED_ITEM_OFFSET_MASK)) = ucast tag"
  unfolding MEHCACHED_TAG_def MEHCACHED_ITEM_VEC_def offset_mask
  by (rule bit_word_eqI) (auto simp: bit_simps dest: bit_imp_le_length)

lemma offset_item_vec:
  "MEHCACHED_ITEM_OFFSET (MEHCACHED_ITEM_VEC tag (off AND MEHCACHED_ITEM_OFFSET_MASK)) = off AND MEHCACHED_ITEM_OFFSET_MASK"
  unfolding MEHCACHED_ITEM_OFFSET_def MEHCACHED_ITEM_VEC_def offset_mask
  by (rule bit_word_eqI) (auto simp: bit_simps)

lemma calc_tag_pos: "mehcached_calc_tag kh \<noteq> 0"
  by (simp add: mehcached_calc_tag_def Let_def)

lemma ucast_tag_inj: "(ucast (a :: u16) :: u64) = ucast b \<longleftrightarrow> a = b"
proof
  assume eq: "(ucast a :: u64) = ucast b"
  show "a = b"
  proof (rule bit_word_eqI)
    fix n
    assume "n < LENGTH(16)"
    moreover have "bit (ucast a :: u64) n = bit (ucast b :: u64) n" by (simp add: eq)
    ultimately show "bit a n = bit b n" by (simp add: bit_simps)
  qed
qed simp

lemma take_bit_of_nat_self: "n < 2 ^ k \<Longrightarrow> take_bit k (of_nat n :: 'a::len word) = of_nat n"
  by (simp add: take_bit_nat_eq_self flip: of_nat_take_bit)

lemma value_length_vec:
  assumes "v < 2 ^ 24"
  shows "MEHCACHED_VALUE_LENGTH (MEHCACHED_KV_LENGTH_VEC k (of_nat v)) = of_nat v"
proof -
  have "MEHCACHED_VALUE_LENGTH (MEHCACHED_KV_LENGTH_VEC k (take_bit 24 w)) = take_bit 24 w" for w
  proof -
    have mk: "push_bit 24 1 - 1 = (mask 24 :: u32)" by (simp add: mask_eq_decr_exp)
    show ?thesis
      unfolding MEHCACHED_VALUE_LENGTH_def MEHCACHED_KV_LENGTH_VEC_def take_bit_eq_mask mk
      by (rule bit_word_eqI) (auto simp: bit_simps)
  qed
  then show ?thesis by (metis assms take_bit_of_nat_self)
qed

lemma key_length_vec:
  assumes "k < 2 ^ 8" and "v < 2 ^ 24"
  shows "MEHCACHED_KEY_LENGTH (MEHCACHED_KV_LENGTH_VEC (of_nat k) (of_nat v)) = of_nat k"
proof -
  have "MEHCACHED_KEY_LENGTH (MEHCACHED_KV_LENGTH_VEC (take_bit 8 u) (take_bit 24 w)) = take_bit 8 u" for u w
    unfolding MEHCACHED_KEY_LENGTH_def MEHCACHED_KV_LENGTH_VEC_def
    by (rule bit_word_eqI) (auto simp: bit_simps)
  then show ?thesis by (metis assms take_bit_of_nat_self)
qed

section \<open>Reading the log\<close>

lemma on_alloc_run: "m (alloc t) = (x, p) \<Longrightarrow> on_alloc m t = (x, t\<lparr>alloc := p\<rparr>)"
  by (simp add: on_alloc_def)

lemma item_load_log:
  assumes "pool_wf (alloc t)" and "k + n \<le> 2097152"
  shows "item_load (a mod unat (pool_size (alloc t)) + k) n t = (Done (le_dec (log_bytes (alloc t) (a + k) n)), t)"
  by (simp add: item_load_def on_alloc_run pool_load_log [OF assms] run_steps)

lemma log_bytes_mod: "log_bytes p (a mod unat (pool_size p)) n = log_bytes p a n"
  by (simp add: log_bytes_def mod_add_left_eq)

section \<open>Items in the log\<close>

text \<open>The words that a lookup reads at log position \<open>a\<close>, whatever is there.\<close>

definition hash_at :: "mehcached_pool \<Rightarrow> nat \<Rightarrow> u64" where
  "hash_at p a = le_dec (log_bytes p (a + 16) 8)"

definition kv_at :: "mehcached_pool \<Rightarrow> nat \<Rightarrow> u32" where
  "kv_at p a = le_dec (log_bytes p (a + 8) 4)"

definition expire_at :: "mehcached_pool \<Rightarrow> nat \<Rightarrow> u32" where
  "expire_at p a = le_dec (log_bytes p (a + 12) 4)"

definition key_at :: "mehcached_pool \<Rightarrow> nat \<Rightarrow> u64 \<Rightarrow> u8 list \<Rightarrow> nat \<Rightarrow> bool" where
  "key_at p a kh key kl \<longleftrightarrow> hash_at p a = kh \<and> MEHCACHED_KEY_LENGTH (kv_at p a) = of_nat kl
     \<and> log_bytes p (a + 24) (ru8 kl) = take (ru8 kl) key"

record item =
  it_hash :: u64
  it_klen :: nat
  it_key :: "u8 list"
  it_vlen :: nat
  it_val :: "u8 list"
  it_exp :: u32

definition item_wf :: "item \<Rightarrow> bool" where
  "item_wf it \<longleftrightarrow> it_klen it \<le> 255 \<and> length (it_key it) = ru8 (it_klen it)
     \<and> it_vlen it \<le> 1048575 \<and> length (it_val it) = ru8 (it_vlen it)"

definition item_len :: "item \<Rightarrow> nat" where
  "item_len it = 24 + ru8 (it_klen it) + ru8 (it_vlen it)"

definition item_image :: "item \<Rightarrow> u8 list" where
  "item_image it = le_enc 4 (MEHCACHED_KV_LENGTH_VEC (of_nat (it_klen it)) (of_nat (it_vlen it))) @ le_enc 4 (it_exp it)
     @ le_enc 8 (it_hash it) @ it_key it @ it_val it"

text \<open>Item \<open>it\<close> is stored at log position \<open>a\<close>, behind its header word.\<close>

definition holds :: "mehcached_pool \<Rightarrow> nat \<Rightarrow> item \<Rightarrow> bool" where
  "holds p a it \<longleftrightarrow> item_wf it \<and> log_bytes p (a + 8) (item_len it - 8) = item_image it"

lemma length_item_image: "item_wf it \<Longrightarrow> length (item_image it) = item_len it - 8"
  by (simp add: item_image_def item_len_def item_wf_def)

lemma item_len_bounds: "item_wf it \<Longrightarrow> 24 \<le> item_len it" "item_wf it \<Longrightarrow> item_len it \<le> 1048856"
  using ru8_mono [of "it_klen it" 255] ru8_mono [of "it_vlen it" 1048575]
  by (simp_all add: item_len_def item_wf_def ru8_def)

lemma holds_split:
  assumes "holds p a it"
  shows "log_bytes p (a + 8) 4 = le_enc 4 (MEHCACHED_KV_LENGTH_VEC (of_nat (it_klen it)) (of_nat (it_vlen it)))"
    and "log_bytes p (a + 12) 4 = le_enc 4 (it_exp it)"
    and "log_bytes p (a + 16) 8 = le_enc 8 (it_hash it)"
    and "log_bytes p (a + 24) (ru8 (it_klen it)) = it_key it"
    and "log_bytes p (a + 24 + ru8 (it_klen it)) (ru8 (it_vlen it)) = it_val it"
proof -
  have "item_len it - 8 = 16 + (ru8 (it_klen it) + ru8 (it_vlen it))" by (simp add: item_len_def)
  moreover have "log_bytes p (a + 8) 16 = log_bytes p (a + 8) 4 @ log_bytes p (a + 12) 4 @ log_bytes p (a + 16) 8"
    using log_bytes_append [of p "a + 8" 4 12] log_bytes_append [of p "a + 12" 4 8] by (simp add: add.commute)
  ultimately have "log_bytes p (a + 8) 4 @ log_bytes p (a + 12) 4 @ log_bytes p (a + 16) 8
      @ log_bytes p (a + 24) (ru8 (it_klen it)) @ log_bytes p (a + 24 + ru8 (it_klen it)) (ru8 (it_vlen it)) = item_image it"
    using assms unfolding holds_def by (simp add: log_bytes_append add.assoc)
  moreover have "length (it_key it) = ru8 (it_klen it)" using assms by (simp add: holds_def item_wf_def)
  ultimately show "log_bytes p (a + 8) 4 = le_enc 4 (MEHCACHED_KV_LENGTH_VEC (of_nat (it_klen it)) (of_nat (it_vlen it)))"
    and "log_bytes p (a + 12) 4 = le_enc 4 (it_exp it)"
    and "log_bytes p (a + 16) 8 = le_enc 8 (it_hash it)"
    and "log_bytes p (a + 24) (ru8 (it_klen it)) = it_key it"
    and "log_bytes p (a + 24 + ru8 (it_klen it)) (ru8 (it_vlen it)) = it_val it"
    by (simp_all add: item_image_def)
qed

lemma holds_words:
  assumes "holds p a it"
  shows "hash_at p a = it_hash it" and "expire_at p a = it_exp it"
    and "MEHCACHED_KEY_LENGTH (kv_at p a) = of_nat (it_klen it)"
    and "MEHCACHED_VALUE_LENGTH (kv_at p a) = of_nat (it_vlen it)"
  using holds_split [OF assms] assms
  by (simp_all add: hash_at_def expire_at_def kv_at_def key_length_vec value_length_vec holds_def item_wf_def)

lemma of_nat_u32_inj: "(of_nat a :: u32) = of_nat b \<Longrightarrow> a < 2 ^ 32 \<Longrightarrow> b < 2 ^ 32 \<Longrightarrow> a = b"
  by (drule arg_cong [where f = unat]) (simp add: unat_of_nat take_bit_nat_eq_self)

lemma key_at_holds:
  assumes "holds p a it" and "kl \<le> 255" and "ru8 kl \<le> length key"
  shows "key_at p a kh key kl \<longleftrightarrow> it_hash it = kh \<and> it_klen it = kl \<and> it_key it = take (ru8 kl) key"
proof -
  have "it_klen it \<le> 255" using assms(1) by (simp add: holds_def item_wf_def)
  then have "(of_nat (it_klen it) :: u32) = of_nat kl \<longleftrightarrow> it_klen it = kl"
    using of_nat_u32_inj [of "it_klen it" kl] assms(2) by auto
  then show ?thesis
    using holds_words [OF assms(1)] holds_split(4) [OF assms(1)] by (auto simp: key_at_def)
qed

section \<open>Finding a key\<close>

lemma unat_ROUNDUP8_small: "n \<le> 1048575 \<Longrightarrow> unat (MEHCACHED_ROUNDUP8 (of_nat n)) = ru8 n"
  by (simp add: unat_ROUNDUP8 unat_u64_of_nat)

lemma memcmp8_log:
  assumes "pool_wf (alloc t)" and "kl \<le> 255" and "ru8 kl \<le> length key"
  shows "mehcached_memcmp8 (a mod unat (pool_size (alloc t)) + 24) key (of_nat kl) t
    = (Done (log_bytes (alloc t) (a + 24) (ru8 kl) = take (ru8 kl) key), t)"
proof -
  have n: "24 + ru8 kl \<le> 2097152" using ru8_mono [OF assms(2)] by (simp add: ru8_def)
  show ?thesis
    using assms by (simp add: mehcached_memcmp8_def unat_ROUNDUP8_small Let_def run_steps on_alloc_run pool_load_log [OF assms(1) n])
qed

lemma item_matches_log:
  assumes "pool_wf (alloc t)" and "kl \<le> 255" and "ru8 kl \<le> length key"
  shows "item_matches vec kh tag key (of_nat kl) t
    = (Done (MEHCACHED_TAG vec = ucast tag \<and> key_at (alloc t) (unat (MEHCACHED_ITEM_OFFSET vec)) kh key kl) :: ('r, bool) outcome, t)"
proof -
  let ?a = "unat (MEHCACHED_ITEM_OFFSET vec)"
  let ?kv = "kv_at (alloc t) ?a"
  have "unat ?kv < 2 ^ 32" using unsigned_less [of ?kv] by simp
  then have "unat (MEHCACHED_KEY_LENGTH ?kv) < 2 ^ 8"
    unfolding MEHCACHED_KEY_LENGTH_def unsigned_drop_bit_eq by (simp add: drop_bit_eq_div take_bit_nat_eq_self)
  then have len: "(ucast (MEHCACHED_KEY_LENGTH ?kv) = (of_nat kl :: u64)) = (MEHCACHED_KEY_LENGTH ?kv = of_nat kl)"
    using assms(2) by (auto simp: word_unat_eq_iff unsigned_ucast_eq unat_of_nat take_bit_nat_eq_self)
  have "mehcached_compare_keys (?a mod unat (pool_size (alloc t)) + 24) (ucast (MEHCACHED_KEY_LENGTH ?kv)) key (of_nat kl) t
      = (Done (MEHCACHED_KEY_LENGTH ?kv = of_nat kl \<and> log_bytes (alloc t) (?a + 24) (ru8 kl) = take (ru8 kl) key) :: ('r, bool) outcome, t)"
  proof (cases "ucast (MEHCACHED_KEY_LENGTH ?kv) = (of_nat kl :: u64)")
    case True
    then show ?thesis unfolding mehcached_compare_keys_def True by (simp add: len [unfolded True, simplified] memcmp8_log [OF assms])
  next
    case False
    then show ?thesis using len by (simp add: mehcached_compare_keys_def run_steps)
  qed
  then show ?thesis
    by (simp add: item_matches_def run_steps pool_item_mod [OF assms(1)] item_load_log [OF assms(1)] key_at_def
        flip: hash_at_def kv_at_def)
qed

lemma find_item_loop_log:
  assumes "pool_wf (alloc t)" and "kl \<le> 255" and "ru8 kl \<le> length key"
  shows "find_item_loop is b kh tag key (of_nat kl) t
    = (Done (case List.find (\<lambda>i. MEHCACHED_TAG (get_slot t b i) = ucast tag
          \<and> key_at (alloc t) (unat (MEHCACHED_ITEM_OFFSET (get_slot t b i))) kh key kl) is
        of None \<Rightarrow> MEHCACHED_ITEMS_PER_BUCKET | Some i \<Rightarrow> i), t)"
  by (induction "is") (simp_all add: run_steps item_matches_log [OF assms])

text \<open>The two results of a search.\<close>

lemma find_item_index_log:
  assumes "pool_wf (alloc t)" and "kl \<le> 255" and "ru8 kl \<le> length key"
  obtains (missing) "mehcached_find_item_index b kh tag key (of_nat kl) t = (Done 15 :: ('r, nat) outcome, t)"
      and "\<And>i. i < 15 \<Longrightarrow> \<not> (MEHCACHED_TAG (get_slot t b i) = ucast tag
        \<and> key_at (alloc t) (unat (MEHCACHED_ITEM_OFFSET (get_slot t b i))) kh key kl)"
  | (found) i where "i < 15" and "mehcached_find_item_index b kh tag key (of_nat kl) t = (Done i :: ('r, nat) outcome, t)"
      and "MEHCACHED_TAG (get_slot t b i) = ucast tag"
      and "key_at (alloc t) (unat (MEHCACHED_ITEM_OFFSET (get_slot t b i))) kh key kl"
proof -
  let ?P = "\<lambda>i. MEHCACHED_TAG (get_slot t b i) = ucast tag
    \<and> key_at (alloc t) (unat (MEHCACHED_ITEM_OFFSET (get_slot t b i))) kh key kl"
  have run: "mehcached_find_item_index b kh tag key (of_nat kl) t
      = (Done (case List.find ?P [0..<15] of None \<Rightarrow> 15 | Some i \<Rightarrow> i) :: ('r, nat) outcome, t)"
    unfolding mehcached_find_item_index_def find_item_loop_log [OF assms] MEHCACHED_ITEMS_PER_BUCKET_def ..
  show ?thesis
  proof (cases "List.find ?P [0..<15]")
    case None
    then have "\<not> ?P i" if "i < 15" for i using that by (simp add: find_None_iff del: upt_rec_numeral)
    then show ?thesis using run None by (intro missing) simp_all
  next
    case (Some i)
    then have "i < 15" "?P i" by (auto simp: find_Some_iff simp del: upt_rec_numeral)
    then show ?thesis using run Some by (intro found [of i]) simp_all
  qed
qed

section \<open>The sweep over the buckets\<close>

text \<open>
  After each allocation the table cleans the buckets between \<open>old_tail >> rshift\<close> and
  \<open>new_tail >> rshift\<close>, so that a full turn of the sweep takes \<open>2 ^ 47\<close> bytes of log. \<open>gap\<close> is the
  distance from the tail back to the position at which bucket \<open>b\<close> was cleaned last.
\<close>

definition sweep_back :: "nat \<Rightarrow> nat \<Rightarrow> nat \<Rightarrow> nat" where
  "sweep_back n p b = (p + n - 1 - b) mod n"

definition gap :: "nat \<Rightarrow> nat \<Rightarrow> nat \<Rightarrow> nat \<Rightarrow> nat" where
  "gap r n tail b = tail mod 2 ^ r + Suc (sweep_back n (tail div 2 ^ r) b) * 2 ^ r"

definition swept :: "nat \<Rightarrow> nat \<Rightarrow> nat \<Rightarrow> nat list" where
  "swept n p d = map (\<lambda>j. (p + j) mod n) [0..<d]"

lemma sweep_back_less: "0 < n \<Longrightarrow> sweep_back n p b < n"
  by (simp add: sweep_back_def)

lemma sweep_back_spec:
  assumes "b < n"
  shows "(p + (n - 1 - sweep_back n p b)) mod n = b"
proof -
  define X where "X = p + n - 1 - b"
  have "X = X div n * n + sweep_back n p b" by (simp add: X_def sweep_back_def)
  moreover have "sweep_back n p b < n" using assms by (intro sweep_back_less) simp
  ultimately have "p + (n - 1 - sweep_back n p b) = X div n * n + b"
    using assms unfolding X_def by linarith
  then show ?thesis using assms by simp
qed

lemma sweep_back_advance:
  assumes "b < n" and "b \<notin> set (swept n p d)"
  shows "sweep_back n (p + d) b = sweep_back n p b + d"
proof -
  have less: "sweep_back n p b + d < n"
  proof (rule ccontr)
    assume "\<not> ?thesis"
    then have "n - 1 - sweep_back n p b < d" using sweep_back_less [of n p b] assms(1) by linarith
    then have "(p + (n - 1 - sweep_back n p b)) mod n \<in> set (swept n p d)" unfolding swept_def by force
    then show False using assms sweep_back_spec by simp
  qed
  have "p + d + n - 1 - b = p + n - 1 - b + d" using assms(1) by linarith
  then have "sweep_back n (p + d) b = (p + n - 1 - b + d) mod n" by (simp only: sweep_back_def)
  also have "\<dots> = (sweep_back n p b + d) mod n" by (simp add: sweep_back_def mod_add_left_eq)
  finally show ?thesis using less by simp
qed

lemma gap_bound:
  assumes "0 < n"
  shows "gap r n tail b < Suc n * 2 ^ r"
proof -
  have "Suc (sweep_back n (tail div 2 ^ r) b) * 2 ^ r \<le> n * 2 ^ r"
    by (rule mult_le_mono1) (use sweep_back_less [OF assms, of "tail div 2 ^ r" b] in simp)
  moreover have "tail mod 2 ^ r < 2 ^ r" by simp
  ultimately show ?thesis unfolding gap_def mult_Suc by linarith
qed

lemma gap_advance:
  assumes "b < n" and "b \<notin> set (swept n (tail div 2 ^ r) ((tail + m) div 2 ^ r - tail div 2 ^ r))"
  shows "gap r n (tail + m) b = gap r n tail b + m"
proof -
  define p where "p = tail div 2 ^ r"
  define d where "d = (tail + m) div 2 ^ r - p"
  have p': "(tail + m) div 2 ^ r = p + d" by (simp add: p_def d_def div_le_mono)
  then have "gap r n (tail + m) b = (tail + m) mod 2 ^ r + Suc (sweep_back n p b + d) * 2 ^ r"
    using sweep_back_advance [of b n p d] assms by (simp add: gap_def p_def d_def)
  moreover have "(tail + m) mod 2 ^ r + (p + d) * 2 ^ r = tail + m"
    unfolding p' [symmetric] by (rule mod_div_mult_eq)
  moreover have "tail mod 2 ^ r + p * 2 ^ r = tail" unfolding p_def by (rule mod_div_mult_eq)
  ultimately show ?thesis unfolding gap_def p_def [symmetric] by (simp add: add_mult_distrib)
qed

text \<open>A sweep as a function of the table.\<close>

lemma clean_bucket_sel [simp]:
  "alloc (clean_bucket b t) = alloc t" "length (buckets (clean_bucket b t)) = length (buckets t)"
  "num_buckets_mask (clean_bucket b t) = num_buckets_mask t" "num_buckets (clean_bucket b t) = num_buckets t"
  "rshift (clean_bucket b t) = rshift t" "mth_threshold (clean_bucket b t) = mth_threshold t"
  by (simp_all add: clean_bucket_def)

definition clean_all :: "nat list \<Rightarrow> mehcached_table \<Rightarrow> mehcached_table" where
  "clean_all = fold clean_bucket"

lemma clean_all_sel [simp]:
  "alloc (clean_all bs t) = alloc t" "length (buckets (clean_all bs t)) = length (buckets t)"
  "num_buckets_mask (clean_all bs t) = num_buckets_mask t" "num_buckets (clean_all bs t) = num_buckets t"
  "rshift (clean_all bs t) = rshift t" "mth_threshold (clean_all bs t) = mth_threshold t"
  unfolding clean_all_def by (induction bs arbitrary: t) simp_all

definition wide :: "mehcached_table \<Rightarrow> bool" where
  "wide t \<longleftrightarrow> (\<forall>b < length (buckets t). length (item_vec (buckets t ! b)) = 15)"

lemma wide_clean_bucket: "wide t \<Longrightarrow> wide (clean_bucket b t)"
  unfolding wide_def clean_bucket_def
proof (intro allI impI)
  fix b'
  let ?f = "map (\<lambda>v. if v = 0 then v else if \<not> mehcached_pool_is_valid (alloc t) (MEHCACHED_ITEM_OFFSET v) then 0 else v)"
  assume "\<forall>b < length (buckets t). length (item_vec (buckets t ! b)) = 15"
    and "b' < length (buckets (t\<lparr>buckets := (buckets t)[b := (buckets t ! b)\<lparr>item_vec := ?f (item_vec (buckets t ! b))\<rparr>]\<rparr>))"
  then show "length (item_vec (buckets (t\<lparr>buckets := (buckets t)[b := (buckets t ! b)\<lparr>item_vec := ?f (item_vec (buckets t ! b))\<rparr>]\<rparr>) ! b')) = 15"
    by (cases "b' = b") simp_all
qed

lemma wide_clean_all: "wide t \<Longrightarrow> wide (clean_all bs t)"
  unfolding clean_all_def by (induction bs arbitrary: t) (simp_all add: wide_clean_bucket)

definition stale :: "mehcached_table \<Rightarrow> u64 \<Rightarrow> bool" where
  "stale t v \<longleftrightarrow> v \<noteq> 0 \<and> \<not> mehcached_pool_is_valid (alloc t) (MEHCACHED_ITEM_OFFSET v)"

lemma stale_zero [simp]: "\<not> stale t 0"
  by (simp add: stale_def)

lemma get_slot_clean_bucket:
  assumes "wide t" and "b' < length (buckets t)" and "i < 15"
  shows "get_slot (clean_bucket b t) b' i = (if b' = b \<and> stale t (get_slot t b' i) then 0 else get_slot t b' i)"
  using assms by (cases "b' = b") (auto simp: get_slot_def clean_bucket_def wide_def stale_def)

lemma get_slot_clean_all:
  assumes "wide t" and "b' < length (buckets t)" and "i < 15"
  shows "get_slot (clean_all bs t) b' i = (if b' \<in> set bs \<and> stale t (get_slot t b' i) then 0 else get_slot t b' i)"
  using assms
proof (induction bs arbitrary: t)
  case (Cons b bs)
  have "stale (clean_bucket b t) v = stale t v" for v by (simp add: stale_def)
  then show ?case
    using Cons.IH [of "clean_bucket b t"] Cons.prems get_slot_clean_bucket [OF Cons.prems, of b]
    by (auto simp: wide_clean_bucket clean_all_def)
qed (simp add: clean_all_def)

definition shape_ok :: "mehcached_table \<Rightarrow> bool" where
  "shape_ok t \<longleftrightarrow> wide t \<and> (\<exists>k. 2 \<le> k \<and> k \<le> 31 \<and> length (buckets t) = 2 ^ k \<and> num_buckets t = 2 ^ k
     \<and> num_buckets_mask t = 2 ^ k - 1 \<and> rshift t = 47 - k)"

lemma word_of_unat: "unat (w :: u64) = n \<Longrightarrow> w = of_nat n"
  by auto

lemma bucket_mask_word: "k \<le> 31 \<Longrightarrow> (ucast (2 ^ k - 1 :: u32) :: u64) = mask k"
  unfolding mask_eq_decr_exp [symmetric] by (rule bit_word_eqI) (auto simp: bit_simps)

lemma sweep_index:
  assumes "k \<le> 31" and "a < 2 ^ 64"
  shows "drop_bit r (of_nat a :: u64) AND ucast (2 ^ k - 1 :: u32) = of_nat (a div 2 ^ r mod 2 ^ k)"
proof -
  have "unat (take_bit k (drop_bit r (of_nat a :: u64))) = a div 2 ^ r mod 2 ^ k"
    using assms(2) by (simp only: unsigned_take_bit_eq unsigned_drop_bit_eq unat_u64_of_nat)
      (simp add: drop_bit_eq_div take_bit_eq_mod)
  then show ?thesis
    unfolding bucket_mask_word [OF assms(1)] take_bit_eq_mask [symmetric] by (rule word_of_unat)
qed

lemma sweep_index_masked:
  assumes "k \<le> 31" and "a < 2 ^ 64" and "r + k \<le> 48"
  shows "drop_bit r (of_nat a AND MEHCACHED_ITEM_OFFSET_MASK :: u64) AND ucast (2 ^ k - 1 :: u32) = of_nat (a div 2 ^ r mod 2 ^ k)"
proof -
  have "take_bit k (drop_bit r (take_bit 48 w)) = take_bit k (drop_bit r w)" for w :: u64
    by (rule bit_word_eqI) (use assms(3) in \<open>auto simp: bit_simps\<close>)
  then show ?thesis
    using sweep_index [OF assms(1,2), of r] unfolding bucket_mask_word [OF assms(1)] offset_mask take_bit_eq_mask [symmetric] by simp
qed

lemma swept_Suc: "swept n p (Suc d) = (p mod n) # swept n (Suc p) d"
  by (simp add: swept_def upt_conv_Cons map_Suc_upt [symmetric] del: upt_Suc)

lemma cleanup_loop_run:
  assumes "k \<le> 31" and "num_buckets_mask t = 2 ^ k - 1" and "length (buckets t) = 2 ^ k" and "d < 2 ^ k" and "d < fuel"
  shows "cleanup_loop fuel (of_nat (p mod 2 ^ k)) (of_nat ((p + d) mod 2 ^ k)) t = (Done (), clean_all (swept (2 ^ k) p d) t)"
  using assms(2-)
proof (induction d arbitrary: p t fuel)
  case 0
  then obtain f where "fuel = Suc f" by (cases fuel) auto
  then show ?case by (simp add: run_steps swept_def clean_all_def)
next
  case (Suc d)
  then obtain f where f: "fuel = Suc f" by (cases fuel) auto
  have "(2 :: nat) ^ k \<le> 2 ^ 31" by (rule power_increasing) (use assms(1) in simp_all)
  then have bound: "x mod 2 ^ k < 2 ^ 31" for x :: nat
    by (rule less_le_trans [rotated]) simp
  have small: "x mod 2 ^ k < 2 ^ 64" "x mod 2 ^ k + 1 < 2 ^ 64" for x :: nat
    using bound [of x] by simp_all
  have "p mod 2 ^ k \<noteq> (p + Suc d) mod 2 ^ k" using mod_eq_close [of p "2 ^ k" "p + Suc d"] Suc.prems(3) by auto
  then have ne: "(of_nat (p mod 2 ^ k) :: u64) \<noteq> of_nat ((p + Suc d) mod 2 ^ k)"
    using unat_u64_of_nat [OF small(1), of p] unat_u64_of_nat [OF small(1), of "p + Suc d"] by metis
  have "unat (of_nat (p mod 2 ^ k) + 1 :: u64) = p mod 2 ^ k + 1"
    by (subst unat_u64_add) (use unat_u64_of_nat [OF small(1), of p] small(2) [of p] in simp_all)
  then have "unat (take_bit k (of_nat (p mod 2 ^ k) + 1 :: u64)) = Suc p mod 2 ^ k"
    by (simp only: unsigned_take_bit_eq take_bit_nat_def) (simp add: mod_Suc_eq)
  then have nxt: "(of_nat (p mod 2 ^ k) + 1) AND ucast (num_buckets_mask t) = (of_nat (Suc p mod 2 ^ k) :: u64)"
    unfolding Suc.prems(1) bucket_mask_word [OF assms(1)] take_bit_eq_mask [symmetric] by (rule word_of_unat)
  have "unat (of_nat (p mod 2 ^ k) :: u64) = p mod 2 ^ k" by (rule unat_u64_of_nat [OF small(1)])
  moreover have "p mod 2 ^ k < length (buckets t)" using Suc.prems(2) by simp
  ultimately show ?case
    using Suc.IH [of "clean_bucket (p mod 2 ^ k) t" f "Suc p"] Suc.prems f ne nxt
    by (simp add: run_steps swept_Suc clean_all_def)
qed

lemma sweep_steps:
  assumes "1 \<le> k" and "k \<le> 31" and "m \<le> 2097152"
  shows "(tail + m :: nat) div 2 ^ (47 - k) - tail div 2 ^ (47 - k) < 2 ^ k"
proof -
  let ?R = "2 ^ (47 - k) :: nat"
  have "(tail + m) div ?R \<le> tail div ?R + m div ?R + 1"
  proof -
    have "tail mod ?R < ?R" "m mod ?R < ?R" by simp_all
    then have "tail mod ?R + m mod ?R < 2 * ?R" by linarith
    then have "(tail mod ?R + m mod ?R) div ?R < 2" by (rule less_mult_imp_div_less)
    then show ?thesis using div_add1_eq [of tail m ?R] by simp
  qed
  then have d: "(tail + m) div ?R - tail div ?R \<le> m div ?R + 1" by simp
  show ?thesis
  proof (cases "k \<le> 25")
    case True
    have "(2 :: nat) ^ 22 \<le> ?R" by (rule power_increasing) (use True in simp_all)
    then have "m div ?R = 0" using assms(3) by simp
    moreover have "(2 :: nat) ^ 1 \<le> 2 ^ k" by (rule power_increasing) (use assms(1) in simp_all)
    ultimately show ?thesis using d by simp
  next
    case False
    have "(2 :: nat) ^ 26 \<le> 2 ^ k" by (rule power_increasing) (use False in simp_all)
    moreover have "m div ?R + 1 < 2 ^ 26" using le_trans [OF div_le_dividend assms(3), of ?R] by simp
    ultimately show ?thesis using d by linarith
  qed
qed

lemma cleanup_bucket_run:
  assumes "shape_ok t" and "tail + m < 2 ^ 64" and "m \<le> 2097152"
  shows "mehcached_cleanup_bucket (of_nat tail AND MEHCACHED_ITEM_OFFSET_MASK) (of_nat (tail + m)) t
    = (Done (), clean_all (swept (length (buckets t)) (tail div 2 ^ rshift t) ((tail + m) div 2 ^ rshift t - tail div 2 ^ rshift t)) t)"
proof -
  obtain k where k: "2 \<le> k" "k \<le> 31" "length (buckets t) = 2 ^ k" "num_buckets t = 2 ^ k"
      "num_buckets_mask t = 2 ^ k - 1" "rshift t = 47 - k"
    using assms(1) by (auto simp: shape_ok_def)
  let ?d = "(tail + m) div 2 ^ rshift t - tail div 2 ^ rshift t"
  have d: "?d < 2 ^ k" using sweep_steps [of k m tail] k(1,2,6) assms(3) by simp
  have "unat (num_buckets t) = 2 ^ k"
    unfolding k(4) using k(2) power_strict_increasing [of k 32 "2 :: nat"] unat_of_nat [where 'a = 32, of "2 ^ k"]
    by (simp add: take_bit_nat_eq_self)
  moreover have "tail div 2 ^ rshift t + ?d = (tail + m) div 2 ^ rshift t" by (simp add: div_le_mono)
  ultimately show ?thesis
    using cleanup_loop_run [OF k(2,5,3) d, of "Suc (2 ^ k)" "tail div 2 ^ rshift t"] d assms(2)
      sweep_index_masked [OF k(2), of tail "rshift t"] sweep_index [OF k(2), of "tail + m" "rshift t"] k(1,2,6)
    unfolding mehcached_cleanup_bucket_def
    by (simp add: run_steps k(3,5) del: cleanup_loop.simps)
qed

section \<open>Entries of the table\<close>

type_synonym cache = "u64 \<times> nat \<times> u8 list \<rightharpoonup> nat \<times> u8 list \<times> u32"

definition key_of :: "item \<Rightarrow> u64 \<times> nat \<times> u8 list" where
  "key_of it = (it_hash it, it_klen it, it_key it)"

definition val_of :: "item \<Rightarrow> nat \<times> u8 list \<times> u32" where
  "val_of it = (it_vlen it, it_val it, it_exp it)"

text \<open>A slot \<open>v\<close> names the item that was allocated after those of \<open>xs\<close>.\<close>

definition entry_at :: "nat list \<Rightarrow> u64 \<Rightarrow> nat list \<Rightarrow> nat \<Rightarrow> nat list \<Rightarrow> bool" where
  "entry_at hs v xs n ys \<longleftrightarrow> hs = xs @ n # ys \<and> MEHCACHED_ITEM_OFFSET v = of_nat (sum_list xs) AND MEHCACHED_ITEM_OFFSET_MASK"

definition live :: "mehcached_pool \<Rightarrow> nat list \<Rightarrow> u64 \<Rightarrow> item \<Rightarrow> bool" where
  "live p hs v it \<longleftrightarrow> (\<exists>xs n ys. entry_at hs v xs n ys \<and> n + sum_list ys \<le> unat (pool_size p)
     \<and> item_len it \<le> n \<and> holds p (sum_list xs) it)"

definition entry_ok :: "mehcached_pool \<Rightarrow> nat list \<Rightarrow> (u64 \<Rightarrow> bool) \<Rightarrow> u64 \<Rightarrow> nat \<Rightarrow> bool" where
  "entry_ok p hs H v bound \<longleftrightarrow> MEHCACHED_TAG v \<noteq> 0 \<and> (\<exists>xs n ys. entry_at hs v xs n ys \<and> n + sum_list ys \<le> bound
     \<and> (n + sum_list ys \<le> unat (pool_size p) \<longrightarrow> (\<exists>it. item_len it \<le> n \<and> holds p (sum_list xs) it
          \<and> H (it_hash it) \<and> MEHCACHED_TAG v = ucast (mehcached_calc_tag (it_hash it)))))"

definition in_bucket :: "mehcached_table \<Rightarrow> nat \<Rightarrow> u64 \<Rightarrow> bool" where
  "in_bucket t b kh \<longleftrightarrow> unat (mehcached_calc_bucket_index t kh) = b"

definition bound_of :: "mehcached_table \<Rightarrow> nat \<Rightarrow> nat \<Rightarrow> nat" where
  "bound_of t tail b = unat (pool_size (alloc t)) + gap (rshift t) (length (buckets t)) tail b"

definition entries_ok :: "mehcached_table \<Rightarrow> nat list \<Rightarrow> (nat \<Rightarrow> nat) \<Rightarrow> bool" where
  "entries_ok t hs bound \<longleftrightarrow> (\<forall>b < length (buckets t). \<forall>i < 15. get_slot t b i \<noteq> 0
     \<longrightarrow> entry_ok (alloc t) hs (in_bucket t b) (get_slot t b i) (bound b))"

definition tags_apart :: "mehcached_table \<Rightarrow> bool" where
  "tags_apart t \<longleftrightarrow> (\<forall>b < length (buckets t). \<forall>i < 15. \<forall>j < 15. get_slot t b i \<noteq> 0 \<longrightarrow> get_slot t b j \<noteq> 0
     \<longrightarrow> MEHCACHED_TAG (get_slot t b i) = MEHCACHED_TAG (get_slot t b j) \<longrightarrow> i = j)"

definition table_ok :: "mehcached_table \<Rightarrow> nat list \<Rightarrow> bool" where
  "table_ok t hs \<longleftrightarrow> shape_ok t \<and> log_ok (alloc t) hs \<and> entries_ok t hs (bound_of t (sum_list hs)) \<and> tags_apart t"

definition refines :: "mehcached_table \<Rightarrow> nat list \<Rightarrow> cache \<Rightarrow> bool" where
  "refines t hs m \<longleftrightarrow> (\<forall>b < length (buckets t). \<forall>i < 15. \<forall>it. get_slot t b i \<noteq> 0
     \<longrightarrow> live (alloc t) hs (get_slot t b i) it \<longrightarrow> m (key_of it) = Some (val_of it))"

lemma bound_of_less:
  assumes "shape_ok t" and "pool_wf (alloc t)"
  shows "bound_of t tail b + 2097152 < 2 ^ 48"
proof -
  obtain k where k: "2 \<le> k" "k \<le> 31" "length (buckets t) = 2 ^ k" "rshift t = 47 - k"
    using assms(1) by (auto simp: shape_ok_def)
  have "(2 :: nat) ^ k * 2 ^ (47 - k) = 2 ^ 47" using k(2) by (simp flip: power_add)
  moreover have "(2 :: nat) ^ (47 - k) \<le> 2 ^ 45" by (rule power_increasing) (use k in simp_all)
  moreover have "gap (rshift t) (length (buckets t)) tail b < Suc (2 ^ k) * 2 ^ (47 - k)"
    using gap_bound [of "length (buckets t)" "rshift t" tail b] k by simp
  ultimately have "gap (rshift t) (length (buckets t)) tail b < 2 ^ 47 + 2 ^ 45" by simp
  then show ?thesis using pool_wf_size(2) [OF assms(2)] by (simp add: bound_of_def)
qed

lemma entry_unique:
  assumes "entry_at hs v xs n ys" and "entry_at hs v xs' n' ys'"
    and "n + sum_list ys < 2 ^ 48" and "n' + sum_list ys' < 2 ^ 48" and "\<And>x. x \<in> set hs \<Longrightarrow> 0 < x"
  shows "xs = xs' \<and> n = n' \<and> ys = ys'"
proof -
  have hs: "hs = xs @ n # ys" "hs = xs' @ n' # ys'" using assms(1,2) by (simp_all add: entry_at_def)
  then have eq: "xs @ n # ys = xs' @ n' # ys'" by simp
  have pos: "0 < n" "0 < n'" using assms(5) [of n] assms(5) [of n'] hs by (metis in_set_conv_decomp)+
  let ?p = "\<lparr>pool_access_mode = 0, pool_lock = 0, pool_data = \<lambda>_. 0, pool_size = 0, pool_mask = 0, pool_head = 0,
    pool_tail = of_nat (sum_list hs)\<rparr>"
  have "age ?p (MEHCACHED_ITEM_OFFSET v) = n + sum_list ys"
    using assms(1,3) age_of_offset [of ?p "sum_list hs" "sum_list xs"] by (auto simp: entry_at_def)
  moreover have "age ?p (MEHCACHED_ITEM_OFFSET v) = n' + sum_list ys'"
    using assms(2,4) age_of_offset [of ?p "sum_list hs" "sum_list xs'"] by (auto simp: entry_at_def)
  moreover have "sum_list xs + (n + sum_list ys) = sum_list xs' + (n' + sum_list ys')"
    using arg_cong [OF eq, of sum_list] by simp
  ultimately show ?thesis using split_cases [OF eq] pos by auto
qed

lemma entry_age:
  assumes "log_ok p hs" and "entry_at hs v xs n ys" and "n + sum_list ys < 2 ^ 48"
  shows "age p (MEHCACHED_ITEM_OFFSET v) = n + sum_list ys"
    and "mehcached_pool_is_valid p (MEHCACHED_ITEM_OFFSET v) \<longleftrightarrow> n + sum_list ys \<le> unat (pool_size p)"
proof -
  have "pool_tail p = of_nat (sum_list hs)" using assms(1) by (simp add: log_ok_def log_sizes_ok_def)
  then show "age p (MEHCACHED_ITEM_OFFSET v) = n + sum_list ys"
    using assms(2,3) age_of_offset [of p "sum_list hs" "sum_list xs"] by (auto simp: entry_at_def)
  then show "mehcached_pool_is_valid p (MEHCACHED_ITEM_OFFSET v) \<longleftrightarrow> n + sum_list ys \<le> unat (pool_size p)"
    by (simp add: is_valid_age)
qed

lemma masked_offset_mod:
  assumes "pool_wf p" and "a < 2 ^ 64"
  shows "unat (of_nat a AND MEHCACHED_ITEM_OFFSET_MASK :: u64) mod unat (pool_size p) = a mod unat (pool_size p)"
proof -
  obtain s where s: "s \<le> 46" "pool_size p = 2 ^ s" using assms(1) by (auto simp: pool_wf_def)
  then have "unat (pool_size p) = 2 ^ s" by (simp add: unat_two_power_u64)
  moreover have "unat (of_nat a AND MEHCACHED_ITEM_OFFSET_MASK :: u64) = a mod 2 ^ 48"
    unfolding offset_mask unsigned_take_bit_eq unat_u64_of_nat [OF assms(2)] by (simp add: take_bit_eq_mod)
  moreover have "a mod 2 ^ 48 mod 2 ^ s = a mod 2 ^ s"
    by (rule mod_mod_cancel [OF le_imp_power_dvd]) (use s in simp)
  ultimately show ?thesis by simp
qed

lemma entry_position:
  assumes "log_ok p hs" and "entry_at hs v xs n ys"
  shows "mehcached_pool_item p (MEHCACHED_ITEM_OFFSET v) = sum_list xs mod unat (pool_size p)"
    and "log_bytes p (unat (MEHCACHED_ITEM_OFFSET v) + k) l = log_bytes p (sum_list xs + k) l"
proof -
  have wf: "pool_wf p" and "sum_list xs < 2 ^ 64"
    using assms by (auto simp: log_ok_def log_sizes_ok_def entry_at_def)
  then have eq: "unat (MEHCACHED_ITEM_OFFSET v) mod unat (pool_size p) = sum_list xs mod unat (pool_size p)"
    using masked_offset_mod [OF wf] assms(2) by (simp add: entry_at_def)
  then show "mehcached_pool_item p (MEHCACHED_ITEM_OFFSET v) = sum_list xs mod unat (pool_size p)"
    by (simp add: pool_item_mod [OF wf])
  have "(unat (MEHCACHED_ITEM_OFFSET v) + k) mod unat (pool_size p) = (sum_list xs + k) mod unat (pool_size p)"
    using eq by (metis mod_add_left_eq)
  then show "log_bytes p (unat (MEHCACHED_ITEM_OFFSET v) + k) l = log_bytes p (sum_list xs + k) l"
    by (metis log_bytes_mod)
qed

section \<open>Writing to the log\<close>

text \<open>Outside of \<open>[lo, hi)\<close> the last \<open>pool_size\<close> bytes of the log before \<open>fin\<close> are the same.\<close>

definition untouched :: "mehcached_pool \<Rightarrow> mehcached_pool \<Rightarrow> nat \<Rightarrow> nat \<Rightarrow> nat \<Rightarrow> bool" where
  "untouched p q lo hi fin \<longleftrightarrow> pool_size q = pool_size p \<and> (\<forall>a l. a + l \<le> lo \<or> hi \<le> a
     \<longrightarrow> a + l \<le> fin \<longrightarrow> fin \<le> a + unat (pool_size p) \<longrightarrow> log_bytes q a l = log_bytes p a l)"

lemma untouchedD:
  "untouched p q lo hi fin \<Longrightarrow> a + l \<le> lo \<or> hi \<le> a \<Longrightarrow> a + l \<le> fin \<Longrightarrow> fin \<le> a + unat (pool_size p)
    \<Longrightarrow> log_bytes q a l = log_bytes p a l"
  by (auto simp: untouched_def)

lemma untouched_refl: "untouched p p lo hi fin"
  by (simp add: untouched_def)

lemma untouched_trans: "untouched p q lo hi fin \<Longrightarrow> untouched q r lo hi fin \<Longrightarrow> untouched p r lo hi fin"
  by (simp add: untouched_def)

lemma untouched_put:
  assumes "untouched p q lo hi fin" and "lo \<le> a" and "a + length bs \<le> hi" and "hi \<le> fin"
    and "fin \<le> lo + unat (pool_size p)"
  shows "untouched p (log_put q a bs) lo hi fin"
  unfolding untouched_def
proof (intro conjI allI impI)
  have size: "pool_size q = pool_size p" using assms(1) by (simp add: untouched_def)
  then show "pool_size (log_put q a bs) = pool_size p" by simp
  fix c l
  assume c: "c + l \<le> lo \<or> hi \<le> c" "c + l \<le> fin" "fin \<le> c + unat (pool_size p)"
  then have "log_bytes (log_put q a bs) c l = log_bytes q c l"
    using assms(2-) size by (elim disjE) (simp_all add: log_bytes_put_before log_bytes_put_after)
  then show "log_bytes (log_put q a bs) c l = log_bytes p c l" using untouchedD [OF assms(1) c] by simp
qed

lemma entry_ok_advance:
  assumes "entry_ok p hs H v bound" and "untouched p q (sum_list hs) (sum_list hs + n) (sum_list hs + n)"
  shows "entry_ok q (hs @ [n]) H v (bound + n)"
proof -
  obtain xs k ys where e: "entry_at hs v xs k ys" "k + sum_list ys \<le> bound" "MEHCACHED_TAG v \<noteq> 0"
    and it: "k + sum_list ys \<le> unat (pool_size p) \<longrightarrow> (\<exists>it. item_len it \<le> k \<and> holds p (sum_list xs) it
          \<and> H (it_hash it) \<and> MEHCACHED_TAG v = ucast (mehcached_calc_tag (it_hash it)))"
    using assms(1) by (auto simp: entry_ok_def)
  have size: "pool_size q = pool_size p" using assms(2) by (simp add: untouched_def)
  have hs: "hs = xs @ k # ys" using e(1) by (simp add: entry_at_def)
  have same: "holds q (sum_list xs) it = holds p (sum_list xs) it"
    if "k + sum_list (ys @ [n]) \<le> unat (pool_size p)" "item_len it \<le> k" for it
  proof -
    have "log_bytes q (sum_list xs + 8) (item_len it - 8) = log_bytes p (sum_list xs + 8) (item_len it - 8)"
      by (rule untouchedD [OF assms(2)]) (use that hs in \<open>simp_all add: item_len_def\<close>)
    then show ?thesis by (simp add: holds_def)
  qed
  show ?thesis
    unfolding entry_ok_def
    by (intro conjI exI [of _ xs] exI [of _ k] exI [of _ "ys @ [n]"])
      (use e it same size in \<open>auto simp: entry_at_def\<close>)
qed

lemma live_advance:
  assumes "entry_ok p hs H v bound" and "bound + n < 2 ^ 48" and "\<And>x. x \<in> set (hs @ [n]) \<Longrightarrow> 0 < x"
    and "untouched p q (sum_list hs) (sum_list hs + n) (sum_list hs + n)" and "live q (hs @ [n]) v it"
    and "pool_wf p"
  shows "live p hs v it"
proof -
  obtain xs k ys where e: "entry_at hs v xs k ys" "k + sum_list ys \<le> bound"
    using assms(1) by (auto simp: entry_ok_def)
  obtain xs' k' ys' where e': "entry_at (hs @ [n]) v xs' k' ys'" "k' + sum_list ys' \<le> unat (pool_size q)"
      "item_len it \<le> k'" "holds q (sum_list xs') it"
    using assms(5) by (auto simp: live_def)
  have size: "pool_size q = pool_size p" using assms(4) by (simp add: untouched_def)
  have same: "xs = xs' \<and> k = k' \<and> ys @ [n] = ys'"
    by (rule entry_unique [OF _ e'(1) _ _ assms(3)]) (use e e'(2) assms(2) pool_wf_size(2) [OF assms(6)] size in \<open>auto simp: entry_at_def\<close>)
  have "log_bytes q (sum_list xs + 8) (item_len it - 8) = log_bytes p (sum_list xs + 8) (item_len it - 8)"
    by (rule untouchedD [OF assms(4)]) (use e e' same size in \<open>auto simp: entry_at_def item_len_def\<close>)
  then have "holds p (sum_list xs) it" using e'(4) same by (simp add: holds_def)
  then show ?thesis unfolding live_def using e e' same size by force
qed

section \<open>Writing an item\<close>

text \<open>The stores of \<^verbatim>\<open>mehcached_set_item\<close> and \<^verbatim>\<open>mehcached_set_item_value\<close> in their order.\<close>

definition kv_word :: "item \<Rightarrow> u8 list" where
  "kv_word it = le_enc 4 (MEHCACHED_KV_LENGTH_VEC (of_nat (it_klen it)) (of_nat (it_vlen it)))"

definition put_item :: "mehcached_pool \<Rightarrow> nat \<Rightarrow> item \<Rightarrow> mehcached_pool" where
  "put_item p a it = log_put (log_put (log_put (log_put (log_put p (a + 8) (kv_word it)) (a + 16) (le_enc 8 (it_hash it)))
     (a + 12) (le_enc 4 (it_exp it))) (a + 24) (it_key it)) (a + 24 + ru8 (it_klen it)) (it_val it)"

definition put_value :: "mehcached_pool \<Rightarrow> nat \<Rightarrow> item \<Rightarrow> mehcached_pool" where
  "put_value p a it = log_put (log_put (log_put p (a + 8) (kv_word it)) (a + 12) (le_enc 4 (it_exp it)))
     (a + 24 + ru8 (it_klen it)) (it_val it)"

lemma length_kv_word [simp]: "length (kv_word it) = 4"
  by (simp add: kv_word_def)

lemma holdsI:
  assumes "item_wf it" and "log_bytes p (a + 8) 4 = kv_word it" and "log_bytes p (a + 12) 4 = le_enc 4 (it_exp it)"
    and "log_bytes p (a + 16) 8 = le_enc 8 (it_hash it)" and "log_bytes p (a + 24) (ru8 (it_klen it)) = it_key it"
    and "log_bytes p (a + 24 + ru8 (it_klen it)) (ru8 (it_vlen it)) = it_val it"
  shows "holds p a it"
proof -
  have "item_len it - 8 = 16 + (ru8 (it_klen it) + ru8 (it_vlen it))" by (simp add: item_len_def)
  moreover have "log_bytes p (a + 8) 16 = log_bytes p (a + 8) 4 @ log_bytes p (a + 12) 4 @ log_bytes p (a + 16) 8"
    using log_bytes_append [of p "a + 8" 4 12] log_bytes_append [of p "a + 12" 4 8] by (simp add: add.commute)
  ultimately show ?thesis
    unfolding holds_def item_image_def kv_word_def [symmetric] using assms by (simp add: log_bytes_append add.assoc)
qed

lemma log_bytes_put_same: "length bs \<le> unat (pool_size p) \<Longrightarrow> log_bytes (log_put p a bs) a (length bs) = bs"
  using log_bytes_put_inside [of bs p 0 "length bs" a] by simp

lemma put_item_holds:
  assumes "item_wf it" and "pool_wf p"
  shows "holds (put_item p a it) a it"
proof -
  have size: "item_len it \<le> unat (pool_size p)" using item_len_bounds(2) [OF assms(1)] pool_wf_size(1) [OF assms(2)] by simp
  have len: "length (it_key it) = ru8 (it_klen it)" "length (it_val it) = ru8 (it_vlen it)" using assms(1) by (simp_all add: item_wf_def)
  show ?thesis
  proof (rule holdsI [OF assms(1)])
    show "log_bytes (put_item p a it) (a + 8) 4 = kv_word it"
      using log_bytes_put_same [of "kv_word it" p "a + 8"] size len
      by (simp add: put_item_def log_bytes_put_before item_len_def)
    show "log_bytes (put_item p a it) (a + 12) 4 = le_enc 4 (it_exp it)"
      using log_bytes_put_same [of "le_enc 4 (it_exp it)" _ "a + 12"] size len
      by (simp add: put_item_def log_bytes_put_before item_len_def)
    show "log_bytes (put_item p a it) (a + 16) 8 = le_enc 8 (it_hash it)"
      using log_bytes_put_same [of "le_enc 8 (it_hash it)" _ "a + 16"] size len
      by (simp add: put_item_def log_bytes_put_before log_bytes_put_after item_len_def)
    show "log_bytes (put_item p a it) (a + 24) (ru8 (it_klen it)) = it_key it"
      using log_bytes_put_same [of "it_key it" _ "a + 24"] size len
      by (simp add: put_item_def log_bytes_put_before item_len_def)
    show "log_bytes (put_item p a it) (a + 24 + ru8 (it_klen it)) (ru8 (it_vlen it)) = it_val it"
      using log_bytes_put_same [of "it_val it" _ "a + 24 + ru8 (it_klen it)"] size len
      by (simp add: put_item_def item_len_def)
  qed
qed

lemma put_value_holds:
  assumes "item_wf it" and "pool_wf p" and "holds p a old" and "it_hash it = it_hash old" and "it_klen it = it_klen old" and "it_key it = it_key old"
  shows "holds (put_value p a it) a it"
proof -
  have size: "item_len it \<le> unat (pool_size p)" using item_len_bounds(2) [OF assms(1)] pool_wf_size(1) [OF assms(2)] by simp
  have len: "length (it_key it) = ru8 (it_klen it)" "length (it_val it) = ru8 (it_vlen it)" using assms(1) by (simp_all add: item_wf_def)
  show ?thesis
  proof (rule holdsI [OF assms(1)])
    show "log_bytes (put_value p a it) (a + 8) 4 = kv_word it"
      using log_bytes_put_same [of "kv_word it" p "a + 8"] size len
      by (simp add: put_value_def log_bytes_put_before item_len_def)
    show "log_bytes (put_value p a it) (a + 12) 4 = le_enc 4 (it_exp it)"
      using log_bytes_put_same [of "le_enc 4 (it_exp it)" _ "a + 12"] size len
      by (simp add: put_value_def log_bytes_put_before item_len_def)
    show "log_bytes (put_value p a it) (a + 16) 8 = le_enc 8 (it_hash it)"
      using holds_split(3) [OF assms(3)] size len assms(4)
      by (simp add: put_value_def log_bytes_put_before log_bytes_put_after item_len_def)
    show "log_bytes (put_value p a it) (a + 24) (ru8 (it_klen it)) = it_key it"
      using holds_split(4) [OF assms(3)] size len assms(5,6)
      by (simp add: put_value_def log_bytes_put_before log_bytes_put_after item_len_def)
    show "log_bytes (put_value p a it) (a + 24 + ru8 (it_klen it)) (ru8 (it_vlen it)) = it_val it"
      using log_bytes_put_same [of "it_val it" _ "a + 24 + ru8 (it_klen it)"] size len
      by (simp add: put_value_def item_len_def)
  qed
qed

lemma put_untouched:
  assumes "item_wf it" and "a + item_len it \<le> hi" and "hi \<le> fin" and "fin \<le> a + 8 + unat (pool_size p)"
  shows "untouched p (put_item p a it) (a + 8) hi fin" and "untouched p (put_value p a it) (a + 8) hi fin"
proof -
  have len: "length (it_key it) = ru8 (it_klen it)" "length (it_val it) = ru8 (it_vlen it)" using assms(1) by (simp_all add: item_wf_def)
  show "untouched p (put_item p a it) (a + 8) hi fin" "untouched p (put_value p a it) (a + 8) hi fin"
    unfolding put_item_def put_value_def
    by (intro untouched_put untouched_refl; use assms len in \<open>simp add: item_len_def\<close>)+
qed

lemma put_log_ok:
  assumes "log_ok p (xs @ n # ys)" and "n + sum_list ys \<le> unat (pool_size p)" and "item_wf it" and "item_len it \<le> n"
  shows "log_ok (put_item p (sum_list xs) it) (xs @ n # ys)" and "log_ok (put_value p (sum_list xs) it) (xs @ n # ys)"
proof -
  have len: "length (it_key it) = ru8 (it_klen it)" "length (it_val it) = ru8 (it_vlen it)" using assms(3) by (simp_all add: item_wf_def)
  show "log_ok (put_item p (sum_list xs) it) (xs @ n # ys)" "log_ok (put_value p (sum_list xs) it) (xs @ n # ys)"
    unfolding put_item_def put_value_def add.assoc
    by (intro item_put_log_ok assms(1); use assms len in \<open>simp add: item_len_def\<close>)+
qed

end
