(* ===== verification/Mica_Ops.thy ===== *)
theory Mica_Ops
  imports Mica_Cache
begin

text \<open>
  What the writes of the MICA table do to the log and to the cache it represents: stores and copies into the
  pool, the writing of an item and of its value, and updates of a slot keep the invariant \<open>table_ok\<close> and the
  relation \<open>refines\<close>.
\<close>

section \<open>The writes of an operation\<close>

lemma store_log:
  assumes "pool_wf (alloc t)" and "k + length bs \<le> 2097152" and "pool_size (alloc t) = s"
  shows "on_alloc (pool_store (a mod unat s + k) bs) t = (Done (), t\<lparr>alloc := log_put (alloc t) (a + k) bs\<rparr>)"
  using assms by (simp add: on_alloc_run pool_store_log [OF assms(1,2), unfolded assms(3)])

lemma memcpy8_in_log:
  assumes "pool_wf (alloc t)" and "len \<le> 1048575" and "ru8 len \<le> length src" and "k + ru8 len \<le> 2097152" and "pool_size (alloc t) = s"
  shows "mehcached_memcpy8_in (a mod unat s + k) src (of_nat len) t
    = (Done (), t\<lparr>alloc := log_put (alloc t) (a + k) (take (ru8 len) src)\<rparr>)"
  using assms by (simp add: mehcached_memcpy8_in_def Let_def unat_ROUNDUP8_small run_steps store_log)

lemma ucast_of_nat_u32: "n < 2 ^ 32 \<Longrightarrow> (ucast (of_nat n :: u32) :: u64) = of_nat n"
  by (simp add: unsigned_of_nat take_bit_nat_eq_self)

lemma ucast_of_nat_u64: "n < 2 ^ 32 \<Longrightarrow> (ucast (of_nat n :: u64) :: u32) = of_nat n"
  by (simp add: unsigned_of_nat take_bit_nat_eq_self)

lemma ru8_key: "k \<le> 255 \<Longrightarrow> ru8 k \<le> 256"
  using ru8_mono [of k 255] by (simp add: ru8_def)

lemma ru8_value: "v \<le> 1048575 \<Longrightarrow> ru8 v \<le> 1048576"
  using ru8_mono [of v 1048575] by (simp add: ru8_def)

definition mk_item :: "u64 \<Rightarrow> u8 list \<Rightarrow> nat \<Rightarrow> u8 list \<Rightarrow> nat \<Rightarrow> u32 \<Rightarrow> item" where
  "mk_item kh key kl value vl ex = \<lparr>it_hash = kh, it_klen = kl, it_key = take (ru8 kl) key,
     it_vlen = vl, it_val = take (ru8 vl) value, it_exp = ex\<rparr>"

lemma mk_item_wf:
  "kl \<le> 255 \<Longrightarrow> vl \<le> 1048575 \<Longrightarrow> ru8 kl \<le> length key \<Longrightarrow> ru8 vl \<le> length value \<Longrightarrow> item_wf (mk_item kh key kl value vl ex)"
  by (simp add: mk_item_def item_wf_def)

lemma item_len_mk [simp]: "item_len (mk_item kh key kl value vl ex) = 24 + ru8 kl + ru8 vl"
  by (simp add: item_len_def mk_item_def)

lemma le_of_nat_u32: "n < 2 ^ 32 \<Longrightarrow> m < 2 ^ 32 \<Longrightarrow> (of_nat n :: u32) \<le> of_nat m \<longleftrightarrow> n \<le> m"
  by (simp add: word_le_nat_alt unat_of_nat take_bit_nat_eq_self)

lemma length_asserts:
  "kl \<le> 255 \<Longrightarrow> (of_nat kl :: u32) \<le> push_bit 8 1 - 1" "vl \<le> 1048575 \<Longrightarrow> (of_nat vl :: u32) \<le> push_bit 24 1 - 1"
  using le_of_nat_u32 [of kl 255] le_of_nat_u32 [of vl 16777215] by simp_all

lemma set_item_run:
  assumes "pool_wf (alloc t)" and "kl \<le> 255" and "vl \<le> 1048575" and "ru8 kl \<le> length key" and "ru8 vl \<le> length value"
    and "pool_size (alloc t) = s"
  shows "mehcached_set_item (a mod unat s) kh key (of_nat kl) value (of_nat vl) ex t
    = (Done (), t\<lparr>alloc := put_item (alloc t) a (mk_item kh key kl value vl ex)\<rparr>)"
proof -
  have fit: "ru8 kl \<le> 256" "ru8 vl \<le> 1048576" using assms ru8_key ru8_value by auto
  note asserts = length_asserts(1) [OF assms(2)] length_asserts(2) [OF assms(3)]
  show ?thesis
    using assms fit asserts
    by (simp add: mehcached_set_item_def run_steps store_log memcpy8_in_log ucast_of_nat_u32 unat_ROUNDUP8_small
        add.assoc put_item_def mk_item_def kv_word_def)
qed

lemma set_item_value_run:
  assumes "pool_wf (alloc t)" and "kl \<le> 255" and "vl \<le> 1048575" and "ru8 vl \<le> length value"
    and "MEHCACHED_KEY_LENGTH (kv_at (alloc t) a) = of_nat kl" and "pool_size (alloc t) = s"
  shows "mehcached_set_item_value (a mod unat s) value (of_nat vl) ex t
    = (Done (), t\<lparr>alloc := put_value (alloc t) a (mk_item kh key kl value vl ex)\<rparr>)"
proof -
  have fit: "ru8 kl \<le> 256" "ru8 vl \<le> 1048576" using assms ru8_key ru8_value by auto
  have load: "item_load (a mod unat s + 8) 4 t = (Done (kv_at (alloc t) a), t)"
    using item_load_log [OF assms(1), of 8 4 a] assms(6) by (simp add: kv_at_def)
  show ?thesis
    using assms fit length_asserts(2) [OF assms(3)]
    by (simp add: mehcached_set_item_value_def run_steps load store_log memcpy8_in_log ucast_of_nat_u32 unat_ROUNDUP8_small
        Let_def add.assoc put_value_def mk_item_def kv_word_def)
qed

section \<open>Entries and their items\<close>

lemma holds_unique:
  assumes "holds p a it" and "holds p a it'"
  shows "it = it'"
proof -
  have wf: "item_wf it" "item_wf it'" using assms by (simp_all add: holds_def)
  have "(of_nat (it_klen it) :: u32) = of_nat (it_klen it')" "(of_nat (it_vlen it) :: u32) = of_nat (it_vlen it')"
    using holds_words(3,4) [OF assms(1)] holds_words(3,4) [OF assms(2)] by simp_all
  then have "it_klen it = it_klen it'" "it_vlen it = it_vlen it'"
    using wf by (auto simp: item_wf_def intro!: of_nat_u32_inj)
  then show ?thesis
    using holds_words(1,2) [OF assms(1)] holds_words(1,2) [OF assms(2)]
      holds_split(4,5) [OF assms(1)] holds_split(4,5) [OF assms(2)]
    by (intro item.equality) simp_all
qed

lemma log_pos: "log_ok p hs \<Longrightarrow> x \<in> set hs \<Longrightarrow> 0 < x"
  using log_sizes_in [of p hs x] by (auto simp: log_ok_def)

lemma table_ok_wf: "table_ok t hs \<Longrightarrow> pool_wf (alloc t)"
  by (simp add: table_ok_def log_ok_def)

lemma entry_of_slot:
  assumes "table_ok t hs" and "b < length (buckets t)" and "i < 15" and "get_slot t b i \<noteq> 0"
  obtains xs n ys where "entry_at hs (get_slot t b i) xs n ys" "n + sum_list ys < 2 ^ 48"
    "MEHCACHED_TAG (get_slot t b i) \<noteq> 0"
    "n + sum_list ys \<le> unat (pool_size (alloc t)) \<longrightarrow> (\<exists>it. item_len it \<le> n \<and> holds (alloc t) (sum_list xs) it
      \<and> in_bucket t b (it_hash it) \<and> MEHCACHED_TAG (get_slot t b i) = ucast (mehcached_calc_tag (it_hash it)))"
proof -
  have "entry_ok (alloc t) hs (in_bucket t b) (get_slot t b i) (bound_of t (sum_list hs) b)"
    using assms by (simp add: table_ok_def entries_ok_def)
  then obtain xs n ys where "entry_at hs (get_slot t b i) xs n ys" "n + sum_list ys \<le> bound_of t (sum_list hs) b"
      "MEHCACHED_TAG (get_slot t b i) \<noteq> 0"
      "n + sum_list ys \<le> unat (pool_size (alloc t)) \<longrightarrow> (\<exists>it. item_len it \<le> n \<and> holds (alloc t) (sum_list xs) it
        \<and> in_bucket t b (it_hash it) \<and> MEHCACHED_TAG (get_slot t b i) = ucast (mehcached_calc_tag (it_hash it)))"
    unfolding entry_ok_def by blast
  moreover have "bound_of t (sum_list hs) b + 2097152 < 2 ^ 48"
    using assms(1) by (intro bound_of_less) (simp_all add: table_ok_def log_ok_def)
  ultimately show ?thesis using that [of xs n ys] by simp
qed

lemma live_at:
  assumes "log_ok p hs" and "live p hs v it" and "entry_at hs v xs n ys" and "n + sum_list ys < 2 ^ 48"
  shows "n + sum_list ys \<le> unat (pool_size p) \<and> item_len it \<le> n \<and> holds p (sum_list xs) it"
proof -
  obtain xs' n' ys' where e: "entry_at hs v xs' n' ys'" "n' + sum_list ys' \<le> unat (pool_size p)" "item_len it \<le> n'"
      "holds p (sum_list xs') it"
    using assms(2) by (auto simp: live_def)
  have "unat (pool_size p) < 2 ^ 48" using pool_wf_size(2) [of p] assms(1) by (simp add: log_ok_def)
  then have less: "n' + sum_list ys' < 2 ^ 48" using e(2) by linarith
  have "xs = xs' \<and> n = n' \<and> ys = ys'"
    by (rule entry_unique [OF assms(3) e(1) assms(4) less log_pos [OF assms(1)]])
  then show ?thesis using e by simp
qed

text \<open>A live item lies in the bucket of its hash, under the tag of its hash.\<close>

lemma live_slot:
  assumes "table_ok t hs" and "b < length (buckets t)" and "i < 15" and "get_slot t b i \<noteq> 0"
    and "live (alloc t) hs (get_slot t b i) it"
  shows "in_bucket t b (it_hash it)" and "MEHCACHED_TAG (get_slot t b i) = ucast (mehcached_calc_tag (it_hash it))"
proof -
  obtain xs n ys where e: "entry_at hs (get_slot t b i) xs n ys" "n + sum_list ys < 2 ^ 48" "MEHCACHED_TAG (get_slot t b i) \<noteq> 0"
    "n + sum_list ys \<le> unat (pool_size (alloc t)) \<longrightarrow> (\<exists>it. item_len it \<le> n \<and> holds (alloc t) (sum_list xs) it
      \<and> in_bucket t b (it_hash it) \<and> MEHCACHED_TAG (get_slot t b i) = ucast (mehcached_calc_tag (it_hash it)))"
    by (rule entry_of_slot [OF assms(1-4)])
  have l: "log_ok (alloc t) hs" using assms(1) by (simp add: table_ok_def)
  note at = live_at [OF l assms(5) e(1,2)]
  obtain it' where it': "holds (alloc t) (sum_list xs) it'" "in_bucket t b (it_hash it')"
      "MEHCACHED_TAG (get_slot t b i) = ucast (mehcached_calc_tag (it_hash it'))"
    using mp [OF e(4) conjunct1 [OF at]] by blast
  have "it' = it" using holds_unique [OF it'(1) conjunct2 [OF conjunct2 [OF at]]] .
  then show "in_bucket t b (it_hash it)" "MEHCACHED_TAG (get_slot t b i) = ucast (mehcached_calc_tag (it_hash it))"
    using it'(2,3) by simp_all
qed

lemma live_same_slot:
  assumes "table_ok t hs" and "b < length (buckets t)" and "i < 15" and "get_slot t b i \<noteq> 0"
    and "live (alloc t) hs (get_slot t b i) it" and "in_bucket t b' (it_hash it)"
    and "i' < 15" and "MEHCACHED_TAG (get_slot t b' i') = ucast (mehcached_calc_tag (it_hash it))"
  shows "b = b' \<and> i = i'"
proof -
  have "b = b'" using live_slot(1) [OF assms(1-5)] assms(6) by (simp add: in_bucket_def)
  moreover have "get_slot t b' i' \<noteq> 0"
    using assms(8) calc_tag_pos [of "it_hash it"] ucast_tag_inj [of "mehcached_calc_tag (it_hash it)" 0]
    by (auto simp: MEHCACHED_TAG_def)
  ultimately show ?thesis
    using assms live_slot(2) [OF assms(1-5)] by (auto simp: table_ok_def tags_apart_def)
qed

lemma refines_forget:
  assumes "refines t hs m" and "\<And>b i it. b < length (buckets t) \<Longrightarrow> i < 15 \<Longrightarrow> get_slot t b i \<noteq> 0
    \<Longrightarrow> live (alloc t) hs (get_slot t b i) it \<Longrightarrow> key_of it \<noteq> k"
  shows "refines t hs (m(k := x))"
  using assms by (auto simp: refines_def)

section \<open>Changing a slot\<close>

lemma put_slot_sel [simp]:
  "alloc (put_slot b i v t) = alloc t" "length (buckets (put_slot b i v t)) = length (buckets t)"
  "num_buckets_mask (put_slot b i v t) = num_buckets_mask t" "num_buckets (put_slot b i v t) = num_buckets t"
  "rshift (put_slot b i v t) = rshift t" "mth_threshold (put_slot b i v t) = mth_threshold t"
  by (simp_all add: put_slot_def)

lemma get_slot_put_slot:
  assumes "wide t" and "b < length (buckets t)" and "i < 15"
  shows "get_slot (put_slot b i v t) b' i' = (if b' = b \<and> i' = i then v else get_slot t b' i')"
  using assms by (cases "b' = b"; cases "i' = i") (simp_all add: get_slot_def put_slot_def wide_def)

lemma wide_put_slot: "wide t \<Longrightarrow> wide (put_slot b i v t)"
  unfolding wide_def put_slot_def
proof (intro allI impI)
  fix b'
  assume "\<forall>b < length (buckets t). length (item_vec (buckets t ! b)) = 15"
    and "b' < length (buckets (t\<lparr>buckets := (buckets t)[b := (buckets t ! b)\<lparr>item_vec := (item_vec (buckets t ! b))[i := v]\<rparr>]\<rparr>))"
  then show "length (item_vec (buckets (t\<lparr>buckets := (buckets t)[b := (buckets t ! b)\<lparr>item_vec := (item_vec (buckets t ! b))[i := v]\<rparr>]\<rparr>) ! b')) = 15"
    by (cases "b' = b") simp_all
qed

lemma shape_ok_changes:
  "shape_ok t \<Longrightarrow> shape_ok (put_slot b i v t)" "shape_ok t \<Longrightarrow> shape_ok (clean_all bs t)" "shape_ok (t\<lparr>alloc := q\<rparr>) = shape_ok t"
  by (simp_all add: shape_ok_def wide_put_slot wide_clean_all) (simp add: wide_def)

lemma slot_alloc [simp]: "get_slot (t\<lparr>alloc := q\<rparr>) b i = get_slot t b i"
  by (simp add: get_slot_def)

lemma in_bucket_changes [simp]:
  "in_bucket (put_slot b i v t) = in_bucket t" "in_bucket (clean_all bs t) = in_bucket t" "in_bucket (t\<lparr>alloc := q\<rparr>) = in_bucket t"
  by (simp_all add: in_bucket_def mehcached_calc_bucket_index_def fun_eq_iff)

lemma bound_of_changes [simp]:
  "bound_of (put_slot b i v t) = bound_of t" "bound_of (clean_all bs t) = bound_of t"
  by (simp_all add: bound_of_def fun_eq_iff)

text \<open>Dropping entries keeps everything.\<close>

lemma tags_fewer:
  assumes "tags_apart t" and "length (buckets t') = length (buckets t)"
    and "\<And>b i. b < length (buckets t) \<Longrightarrow> i < 15 \<Longrightarrow> get_slot t' b i = 0 \<or> get_slot t' b i = get_slot t b i"
  shows "tags_apart t'"
  unfolding tags_apart_def
proof (intro allI impI)
  fix b i j
  assume "b < length (buckets t')" "i < 15" "j < 15" "get_slot t' b i \<noteq> 0" "get_slot t' b j \<noteq> 0"
    "MEHCACHED_TAG (get_slot t' b i) = MEHCACHED_TAG (get_slot t' b j)"
  then show "i = j"
    using assms(1,2) assms(3) [of b i] assms(3) [of b j] by (auto simp: tags_apart_def)
qed

lemma refines_fewer:
  assumes "refines t hs m" and "alloc t' = alloc t" and "length (buckets t') = length (buckets t)"
    and "\<And>b i. b < length (buckets t) \<Longrightarrow> i < 15 \<Longrightarrow> get_slot t' b i = 0 \<or> get_slot t' b i = get_slot t b i"
  shows "refines t' hs m"
  unfolding refines_def
proof (intro allI impI)
  fix b i it
  assume "b < length (buckets t')" "i < 15" "get_slot t' b i \<noteq> 0" "live (alloc t') hs (get_slot t' b i) it"
  then show "m (key_of it) = Some (val_of it)"
    using assms(1-3) assms(4) [of b i] by (auto simp: refines_def)
qed

lemma fewer_slots:
  assumes "table_ok t hs" and "shape_ok t'" and "alloc t' = alloc t" and "length (buckets t') = length (buckets t)"
    and "rshift t' = rshift t" and "in_bucket t' = in_bucket t"
    and "\<And>b i. b < length (buckets t) \<Longrightarrow> i < 15 \<Longrightarrow> get_slot t' b i = 0 \<or> get_slot t' b i = get_slot t b i"
  shows "table_ok t' hs"
proof -
  have "entries_ok t' hs (bound_of t' (sum_list hs))"
    unfolding entries_ok_def
  proof (intro allI impI)
    fix b i
    assume "b < length (buckets t')" "i < 15" "get_slot t' b i \<noteq> 0"
    then show "entry_ok (alloc t') hs (in_bucket t' b) (get_slot t' b i) (bound_of t' (sum_list hs) b)"
      using assms(1,3-6) assms(7) [of b i] by (auto simp: table_ok_def entries_ok_def bound_of_def)
  qed
  moreover have "tags_apart t'" by (rule tags_fewer [of t]) (use assms in \<open>simp_all add: table_ok_def\<close>)
  ultimately show ?thesis using assms(1-3) by (simp add: table_ok_def)
qed

lemma remove_slot:
  assumes "table_ok t hs" and "refines t hs m" and "b < length (buckets t)" and "i < 15"
  shows "table_ok (put_slot b i 0 t) hs" and "refines (put_slot b i 0 t) hs m"
proof -
  have "wide t" "shape_ok t" using assms(1) by (simp_all add: table_ok_def shape_ok_def)
  then show "table_ok (put_slot b i 0 t) hs" "refines (put_slot b i 0 t) hs m"
    by (intro fewer_slots [OF assms(1)] refines_fewer [OF assms(2)]; use assms(3,4) in \<open>simp add: shape_ok_changes get_slot_put_slot\<close>)+
qed

text \<open>The sweep turns the aged bounds into those of the new tail.\<close>

lemma sweep_ok:
  assumes "shape_ok t" and "log_ok (alloc t) (hs @ [n])" and "tags_apart t"
    and "entries_ok t (hs @ [n]) (\<lambda>b. bound_of t (sum_list hs) b + n)" and "n \<le> 2097152"
  defines "bs \<equiv> swept (length (buckets t)) (sum_list hs div 2 ^ rshift t)
    ((sum_list hs + n) div 2 ^ rshift t - sum_list hs div 2 ^ rshift t)"
  shows "table_ok (clean_all bs t) (hs @ [n])"
proof -
  have wd: "wide t" using assms(1) by (simp add: shape_ok_def)
  note slot = get_slot_clean_all [OF wd]
  have "entry_ok (alloc t) (hs @ [n]) (in_bucket t b) (get_slot t b i) (bound_of t (sum_list (hs @ [n])) b)"
    if b: "b < length (buckets t)" "i < 15" "get_slot t b i \<noteq> 0" and kept: "b \<notin> set bs \<or> \<not> stale t (get_slot t b i)" for b i
  proof -
    have e: "entry_ok (alloc t) (hs @ [n]) (in_bucket t b) (get_slot t b i) (bound_of t (sum_list hs) b + n)"
      using assms(4) b by (simp add: entries_ok_def)
    show ?thesis
    proof (cases "b \<in> set bs")
      case False
      then have "bound_of t (sum_list (hs @ [n])) b = bound_of t (sum_list hs) b + n"
        using gap_advance [OF b(1), of "sum_list hs" "rshift t" n] by (simp add: bound_of_def bs_def)
      then show ?thesis using e by simp
    next
      case True
      obtain xs k ys where x: "entry_at (hs @ [n]) (get_slot t b i) xs k ys" "k + sum_list ys \<le> bound_of t (sum_list hs) b + n"
        "MEHCACHED_TAG (get_slot t b i) \<noteq> 0"
        "k + sum_list ys \<le> unat (pool_size (alloc t)) \<longrightarrow> (\<exists>it. item_len it \<le> k \<and> holds (alloc t) (sum_list xs) it
          \<and> in_bucket t b (it_hash it) \<and> MEHCACHED_TAG (get_slot t b i) = ucast (mehcached_calc_tag (it_hash it)))"
        using e unfolding entry_ok_def by blast
      have "bound_of t (sum_list hs) b + 2097152 < 2 ^ 48"
        using assms(1,2) by (intro bound_of_less) (simp_all add: log_ok_def)
      then have "k + sum_list ys < 2 ^ 48" using x(2) assms(5) by linarith
      then have "k + sum_list ys \<le> unat (pool_size (alloc t))"
        using entry_age(2) [OF assms(2) x(1)] True kept b(3) by (simp add: stale_def)
      then have "k + sum_list ys \<le> bound_of t (sum_list (hs @ [n])) b" by (simp add: bound_of_def)
      then show ?thesis unfolding entry_ok_def using x by blast
    qed
  qed
  then have "entries_ok (clean_all bs t) (hs @ [n]) (bound_of (clean_all bs t) (sum_list (hs @ [n])))"
    by (auto simp: entries_ok_def slot)
  moreover have "tags_apart (clean_all bs t)" by (rule tags_fewer [OF assms(3)]) (simp_all add: slot)
  ultimately show ?thesis using assms(1,2) by (simp add: table_ok_def shape_ok_changes)
qed

section \<open>Storing an item\<close>

definition new_vec :: "item \<Rightarrow> nat list \<Rightarrow> u64" where
  "new_vec it hs = MEHCACHED_ITEM_VEC (ucast (mehcached_calc_tag (it_hash it))) (of_nat (sum_list hs) AND MEHCACHED_ITEM_OFFSET_MASK)"

lemma new_vec_entry:
  "MEHCACHED_TAG (new_vec it hs) = ucast (mehcached_calc_tag (it_hash it))" "entry_at (hs @ [n]) (new_vec it hs) hs n []"
  by (simp_all add: new_vec_def tag_item_vec offset_item_vec entry_at_def)

lemma tag_nonzero: "MEHCACHED_TAG v = ucast (mehcached_calc_tag kh) \<Longrightarrow> MEHCACHED_TAG v \<noteq> 0 \<and> v \<noteq> 0"
  using calc_tag_pos [of kh] ucast_tag_inj [of "mehcached_calc_tag kh" 0] by (auto simp: MEHCACHED_TAG_def)

text \<open>The state between the two halves of a store: the slot is written, the buckets are not swept yet.\<close>

lemma insert_entries:
  assumes "table_ok t hs" and "b < length (buckets t)" and "i < 15" and "in_bucket t b (it_hash it)"
    and "\<And>j. j < 15 \<Longrightarrow> j \<noteq> i \<Longrightarrow> MEHCACHED_TAG (get_slot t b j) \<noteq> ucast (mehcached_calc_tag (it_hash it))"
    and "log_ok q (hs @ [item_len it])" and "holds q (sum_list hs) it"
    and "untouched (alloc t) q (sum_list hs) (sum_list hs + item_len it) (sum_list hs + item_len it)"
  defines "u \<equiv> put_slot b i (new_vec it hs) (t\<lparr>alloc := q\<rparr>)"
  shows "entries_ok u (hs @ [item_len it]) (\<lambda>b. bound_of t (sum_list hs) b + item_len it)" and "tags_apart u"
proof -
  have wd: "wide (t\<lparr>alloc := q\<rparr>)" using assms(1) by (simp add: table_ok_def shape_ok_def wide_def)
  have slot: "get_slot u b' i' = (if b' = b \<and> i' = i then new_vec it hs else get_slot t b' i')" for b' i'
    using get_slot_put_slot [OF wd, of b i] assms(2,3) by (simp add: u_def)
  have sel: "alloc u = q" "length (buckets u) = length (buckets t)" "in_bucket u = in_bucket t" by (simp_all add: u_def)
  have "entry_ok q (hs @ [item_len it]) (in_bucket t b) (new_vec it hs) (bound_of t (sum_list hs) b + item_len it)"
    unfolding entry_ok_def
    by (intro conjI exI [of _ hs] exI [of _ "item_len it"] exI [of _ "[]"])
      (use new_vec_entry(1) [of it hs] new_vec_entry(2) tag_nonzero assms(4,7) in auto)
  moreover have "entry_ok q (hs @ [item_len it]) (in_bucket t b') (get_slot t b' i') (bound_of t (sum_list hs) b' + item_len it)"
    if "b' < length (buckets t)" "i' < 15" "get_slot t b' i' \<noteq> 0" for b' i'
    using assms(1) that by (intro entry_ok_advance [OF _ assms(8)]) (simp add: table_ok_def entries_ok_def)
  ultimately show "entries_ok u (hs @ [item_len it]) (\<lambda>b. bound_of t (sum_list hs) b + item_len it)"
    by (auto simp: entries_ok_def slot sel)
  show "tags_apart u"
    unfolding tags_apart_def
  proof (intro allI impI)
    fix b' i' j'
    assume a: "b' < length (buckets u)" "i' < 15" "j' < 15" "get_slot u b' i' \<noteq> 0" "get_slot u b' j' \<noteq> 0"
      "MEHCACHED_TAG (get_slot u b' i') = MEHCACHED_TAG (get_slot u b' j')"
    show "i' = j'"
    proof (cases "b' = b \<and> (i' = i \<or> j' = i)")
      case True
      show ?thesis
      proof (rule ccontr)
        assume "i' \<noteq> j'"
        then consider "i' = i" "j' \<noteq> i" | "j' = i" "i' \<noteq> i" using True by blast
        then show False
        proof cases
          case 1
          then show False using a(6) assms(5) [OF a(3)] True new_vec_entry(1) [of it hs] by (simp add: slot)
        next
          case 2
          then show False using a(6) assms(5) [OF a(2)] True new_vec_entry(1) [of it hs] by (simp add: slot)
        qed
      qed
    next
      case False
      then have "get_slot u b' i' = get_slot t b' i'" "get_slot u b' j' = get_slot t b' j'" unfolding slot by auto
      moreover have "tags_apart t" using assms(1) by (simp add: table_ok_def)
      ultimately show ?thesis using a unfolding tags_apart_def sel by metis
    qed
  qed
qed

lemma insert_refines:
  assumes "table_ok t hs" and "refines t hs m" and "b < length (buckets t)" and "i < 15" and "in_bucket t b (it_hash it)"
    and "\<And>j. j < 15 \<Longrightarrow> j \<noteq> i \<Longrightarrow> MEHCACHED_TAG (get_slot t b j) \<noteq> ucast (mehcached_calc_tag (it_hash it))"
    and "log_ok q (hs @ [item_len it])" and "holds q (sum_list hs) it"
    and "untouched (alloc t) q (sum_list hs) (sum_list hs + item_len it) (sum_list hs + item_len it)"
  defines "u \<equiv> put_slot b i (new_vec it hs) (t\<lparr>alloc := q\<rparr>)"
  shows "refines u (hs @ [item_len it]) (m(key_of it \<mapsto> val_of it))"
  unfolding refines_def
proof (intro allI impI)
  fix b' i' it'
  assume l: "b' < length (buckets u)" "i' < 15" "get_slot u b' i' \<noteq> 0" "live (alloc u) (hs @ [item_len it]) (get_slot u b' i') it'"
  have wd: "wide (t\<lparr>alloc := q\<rparr>)" using assms(1) by (simp add: table_ok_def shape_ok_def wide_def)
  have slot: "get_slot u b' i' = (if b' = b \<and> i' = i then new_vec it hs else get_slot t b' i')"
    using get_slot_put_slot [OF wd, of b i] assms(3,4) by (simp add: u_def)
  have al: "alloc u = q" by (simp add: u_def)
  have small: "item_len it + 0 < 2 ^ 48"
    using item_len_bounds(2) [of it] assms(8) by (simp add: holds_def)
  show "(m(key_of it \<mapsto> val_of it)) (key_of it') = Some (val_of it')"
  proof (cases "b' = b \<and> i' = i")
    case True
    then have "live q (hs @ [item_len it]) (new_vec it hs) it'" using l(4) slot al by simp
    then have "holds q (sum_list hs) it'"
      using live_at [OF assms(7) _ new_vec_entry(2)] small by simp
    then have "it' = it" using holds_unique assms(8) by blast
    then show ?thesis by simp
  next
    case False
    then have s: "get_slot u b' i' = get_slot t b' i'" using slot by auto
    have b': "b' < length (buckets t)" using l(1) by (simp add: u_def)
    have e: "entry_ok (alloc t) hs (in_bucket t b') (get_slot t b' i') (bound_of t (sum_list hs) b')"
      using assms(1) l s b' by (simp add: table_ok_def entries_ok_def)
    have bd: "bound_of t (sum_list hs) b' + item_len it < 2 ^ 48"
      using bound_of_less [of t "sum_list hs" b'] assms(1) item_len_bounds(2) [of it] assms(8)
      by (simp add: table_ok_def log_ok_def holds_def)
    have old: "live (alloc t) hs (get_slot t b' i') it'"
      by (rule live_advance [OF e bd log_pos [OF assms(7)] assms(9)]) (use l(4) s al table_ok_wf [OF assms(1)] in simp_all)
    then have "m (key_of it') = Some (val_of it')" using assms(2) l s b' by (auto simp: refines_def)
    moreover have "key_of it' \<noteq> key_of it"
    proof
      assume "key_of it' = key_of it"
      then have h: "it_hash it' = it_hash it" by (simp add: key_of_def)
      have "in_bucket t b' (it_hash it)" "MEHCACHED_TAG (get_slot t b' i') = ucast (mehcached_calc_tag (it_hash it))"
        using live_slot [OF assms(1) b' l(2) _ old] l(3) s h by simp_all
      then have "b' = b" using assms(5) by (simp add: in_bucket_def)
      then show False using False assms(6) [OF l(2)] \<open>MEHCACHED_TAG _ = _\<close> by simp
    qed
    ultimately show ?thesis by simp
  qed
qed

section \<open>Rewriting an item in place\<close>

lemma other_item_same:
  assumes "untouched p q (sum_list xs + 8) (sum_list xs + n) (sum_list hs)" and "hs = xs @ n # ys" and "hs = xs' @ n' # ys'"
    and "xs \<noteq> xs'" and "n' + sum_list ys' \<le> unat (pool_size p)" and "item_len it \<le> n'" and "log_ok p hs"
  shows "holds q (sum_list xs') it = holds p (sum_list xs') it"
proof -
  have "0 < n" "0 < n'" using log_pos [OF assms(7)] assms(2,3) by (metis in_set_conv_decomp)+
  then have "sum_list xs' + n' \<le> sum_list xs \<or> sum_list xs + n \<le> sum_list xs'"
    using split_cases [of xs n ys xs' n' ys'] assms(2-4) by auto
  then have "log_bytes q (sum_list xs' + 8) (item_len it - 8) = log_bytes p (sum_list xs' + 8) (item_len it - 8)"
    by (intro untouchedD [OF assms(1)]) (use assms(3,5,6) in \<open>auto simp: item_len_def\<close>)
  then show ?thesis by (simp add: holds_def)
qed

lemma rewrite_entries:
  assumes "table_ok t hs" and "entry_at hs v xs n ys" and "holds (alloc t) (sum_list xs) old" and "it_hash it = it_hash old"
    and "item_len it \<le> n" and "log_ok q hs" and "holds q (sum_list xs) it"
    and "untouched (alloc t) q (sum_list xs + 8) (sum_list xs + n) (sum_list hs)"
  shows "table_ok (t\<lparr>alloc := q\<rparr>) hs"
proof -
  have l: "log_ok (alloc t) hs" using assms(1) by (simp add: table_ok_def)
  have size: "pool_size q = pool_size (alloc t)" using assms(8) by (simp add: untouched_def)
  have hs: "hs = xs @ n # ys" using assms(2) by (simp add: entry_at_def)
  have "entry_ok q hs (in_bucket t b) (get_slot t b i) (bound_of t (sum_list hs) b)"
    if "b < length (buckets t)" "i < 15" "get_slot t b i \<noteq> 0" for b i
  proof -
    have "entry_ok (alloc t) hs (in_bucket t b) (get_slot t b i) (bound_of t (sum_list hs) b)"
      using assms(1) that by (simp add: table_ok_def entries_ok_def)
    then obtain xs' n' ys' where e: "entry_at hs (get_slot t b i) xs' n' ys'" "n' + sum_list ys' \<le> bound_of t (sum_list hs) b"
        "MEHCACHED_TAG (get_slot t b i) \<noteq> 0"
      and c: "n' + sum_list ys' \<le> unat (pool_size (alloc t)) \<longrightarrow> (\<exists>it. item_len it \<le> n' \<and> holds (alloc t) (sum_list xs') it
        \<and> in_bucket t b (it_hash it) \<and> MEHCACHED_TAG (get_slot t b i) = ucast (mehcached_calc_tag (it_hash it)))"
      unfolding entry_ok_def by blast
    have hs': "hs = xs' @ n' # ys'" using e(1) by (simp add: entry_at_def)
    have "\<exists>it. item_len it \<le> n' \<and> holds q (sum_list xs') it
        \<and> in_bucket t b (it_hash it) \<and> MEHCACHED_TAG (get_slot t b i) = ucast (mehcached_calc_tag (it_hash it))"
      if fits: "n' + sum_list ys' \<le> unat (pool_size q)"
    proof -
      obtain it' where it': "item_len it' \<le> n'" "holds (alloc t) (sum_list xs') it'" "in_bucket t b (it_hash it')"
          "MEHCACHED_TAG (get_slot t b i) = ucast (mehcached_calc_tag (it_hash it'))"
        using c fits size by auto
      show ?thesis
      proof (cases "xs = xs'")
        case True
        then have "n = n'" using hs hs' by simp
        moreover have "it' = old" using holds_unique [OF it'(2)] assms(3) True by simp
        ultimately show ?thesis using it' assms(4,5,7) True by (intro exI [of _ it]) simp
      next
        case False
        then show ?thesis using other_item_same [OF assms(8) hs hs' False _ it'(1) l] fits size it' by auto
      qed
    qed
    then show ?thesis unfolding entry_ok_def using e by blast
  qed
  then have "entries_ok (t\<lparr>alloc := q\<rparr>) hs (bound_of (t\<lparr>alloc := q\<rparr>) (sum_list hs))"
    using size by (simp add: entries_ok_def bound_of_def)
  moreover have "tags_apart (t\<lparr>alloc := q\<rparr>)" using assms(1) by (simp add: table_ok_def tags_apart_def)
  ultimately show ?thesis using assms(1,6) by (simp add: table_ok_def shape_ok_changes)
qed

lemma rewrite_refines:
  assumes "table_ok t hs" and "refines t hs m" and "b < length (buckets t)" and "i < 15" and "get_slot t b i \<noteq> 0"
    and "entry_at hs (get_slot t b i) xs n ys" and "n + sum_list ys \<le> unat (pool_size (alloc t))"
    and "holds (alloc t) (sum_list xs) old" and "item_len old \<le> n" and "key_of it = key_of old" and "log_ok q hs" and "holds q (sum_list xs) it"
    and "untouched (alloc t) q (sum_list xs + 8) (sum_list xs + n) (sum_list hs)"
  shows "refines (t\<lparr>alloc := q\<rparr>) hs (m(key_of it \<mapsto> val_of it))"
  unfolding refines_def
proof (intro allI impI)
  fix b' i' it'
  assume "b' < length (buckets (t\<lparr>alloc := q\<rparr>))" "i' < 15" "get_slot (t\<lparr>alloc := q\<rparr>) b' i' \<noteq> 0"
    "live (alloc (t\<lparr>alloc := q\<rparr>)) hs (get_slot (t\<lparr>alloc := q\<rparr>) b' i') it'"
  then have l: "b' < length (buckets t)" "i' < 15" "get_slot t b' i' \<noteq> 0" "live q hs (get_slot t b' i') it'" by simp_all
  have lo: "log_ok (alloc t) hs" using assms(1) by (simp add: table_ok_def)
  have hs: "hs = xs @ n # ys" using assms(6) by (simp add: entry_at_def)
  have size: "pool_size q = pool_size (alloc t)" using assms(13) by (simp add: untouched_def)
  obtain xs' n' ys' where e: "entry_at hs (get_slot t b' i') xs' n' ys'" "n' + sum_list ys' \<le> unat (pool_size q)" "item_len it' \<le> n'"
      "holds q (sum_list xs') it'"
    using l(4) by (auto simp: live_def)
  have hs': "hs = xs' @ n' # ys'" using e(1) by (simp add: entry_at_def)
  show "(m(key_of it \<mapsto> val_of it)) (key_of it') = Some (val_of it')"
  proof (cases "xs = xs'")
    case True
    then have "it' = it" using holds_unique [OF e(4)] assms(12) by simp
    then show ?thesis by simp
  next
    case False
    have "holds (alloc t) (sum_list xs') it'" using other_item_same [OF assms(13) hs hs' False _ e(3) lo] e size by simp
    then have live: "live (alloc t) hs (get_slot t b' i') it'" unfolding live_def using e size by auto
    have "live (alloc t) hs (get_slot t b i) old" unfolding live_def using assms(6-9) by blast
    note old = live_slot [OF assms(1,3,4,5) this]
    have "key_of it' \<noteq> key_of it"
    proof
      assume "key_of it' = key_of it"
      then have h: "it_hash it' = it_hash old" using assms(10) by (simp add: key_of_def)
      have "b' = b \<and> i' = i" using live_same_slot [OF assms(1) l(1-3) live, of b i] old h assms(4) by simp
      moreover have "unat (pool_size q) < 2 ^ 48" using pool_wf_size(2) [of q] assms(11) by (simp add: log_ok_def)
      ultimately have "xs = xs' \<and> n = n' \<and> ys = ys'"
        using entry_unique [OF assms(6), of xs' n' ys'] e(1,2) assms(7) size log_pos [OF lo] by simp
      then show False using False by simp
    qed
    moreover have "m (key_of it') = Some (val_of it')" using assms(2) l live by (auto simp: refines_def)
    ultimately show ?thesis by simp
  qed
qed

end
