(* ===== verification/Mica_Refine.thy ===== *)
theory Mica_Refine
  imports Mica_Ops
begin

text \<open>
  The calls of the MICA table against a cache: a map from keys to values from which entries may vanish
  but which never returns anything other than the last value stored. \<^verbatim>\<open>mica_call\<close> lists the calls of
  \<^verbatim>\<open>table.c\<close>, \<^verbatim>\<open>mica_spec\<close> the results and the map the cache allows, and each call is shown to be a step of
  it (\<^verbatim>\<open>step_ok\<close>) on every well-formed table of the FIFO configuration, without a failed assertion
  or an access outside the pool.
\<close>

section \<open>Specification\<close>

datatype mica_call =
    CSet u64 "u8 list" nat "u8 list" nat u32 bool
  | CGet u64 "u8 list" nat nat bool
  | CTest u64 "u8 list" nat
  | CDelete u64 "u8 list" nat
  | CIncrement u64 "u8 list" nat u64 u32

datatype mica_result = RBool bool | RValue "(u8 list \<times> u64 \<times> u32) option" | RCount "u64 option"

fun mica_do :: "mica_call \<Rightarrow> (mehcached_table, unit, mica_result) body" where
  "mica_do (CSet kh key kl value vl ex ow) = bnd (call (mehcached_set 0 kh key (of_nat kl) value (of_nat vl) ex ow)) (\<lambda>r. ret (RBool r))"
| "mica_do (CGet kh key kl cap ro) = bnd (call (mehcached_get 0 kh key (of_nat kl) (of_nat cap) ro)) (\<lambda>r. ret (RValue r))"
| "mica_do (CTest kh key kl) = bnd (call (mehcached_test kh key (of_nat kl))) (\<lambda>r. ret (RBool r))"
| "mica_do (CDelete kh key kl) = bnd (call (mehcached_delete kh key (of_nat kl))) (\<lambda>r. ret (RBool r))"
| "mica_do (CIncrement kh key kl n ex) = bnd (call (mehcached_increment 0 kh key (of_nat kl) n ex)) (\<lambda>r. ret (RCount r))"

text \<open>The arguments a caller may pass: keys and values within the limits, buffers that can be read up
  to the next multiple of eight, and a result buffer of at most 1500 bytes (above it the debugging
  assertions of \<^verbatim>\<open>mehcached_get\<close> stop the program).\<close>

definition key_ok :: "u8 list \<Rightarrow> nat \<Rightarrow> bool" where
  "key_ok key kl \<longleftrightarrow> kl \<le> 255 \<and> ru8 kl \<le> length key"

fun call_ok :: "mica_call \<Rightarrow> bool" where
  "call_ok (CSet kh key kl value vl ex ow) \<longleftrightarrow> key_ok key kl \<and> vl \<le> 1048575 \<and> ru8 vl \<le> length value"
| "call_ok (CGet kh key kl cap ro) \<longleftrightarrow> key_ok key kl \<and> cap \<le> 1500"
| "call_ok (CTest kh key kl) \<longleftrightarrow> key_ok key kl"
| "call_ok (CDelete kh key kl) \<longleftrightarrow> key_ok key kl"
| "call_ok (CIncrement kh key kl n ex) \<longleftrightarrow> key_ok key kl"

definition key_id :: "u64 \<Rightarrow> u8 list \<Rightarrow> nat \<Rightarrow> u64 \<times> nat \<times> u8 list" where
  "key_id kh key kl = (kh, kl, take (ru8 kl) key)"

text \<open>The cache: which results a call may have, and the map afterwards. A lookup that misses makes the
  key absent, so that it stays absent until it is stored again.\<close>

fun mica_spec :: "mica_call \<Rightarrow> mica_result \<Rightarrow> cache \<Rightarrow> cache option" where
  "mica_spec (CSet kh key kl value vl ex ow) (RBool r) m =
     (if r then Some (m(key_id kh key kl \<mapsto> (vl, take (ru8 vl) value, ex))) else if ow then None else Some m)"
| "mica_spec (CGet kh key kl cap ro) (RValue None) m = Some (m(key_id kh key kl := None))"
| "mica_spec (CGet kh key kl cap ro) (RValue (Some (bytes, len, ex))) m = (case m (key_id kh key kl) of
     None \<Rightarrow> None
   | Some (vl, value, ex') \<Rightarrow> if bytes = take (ru8 (min vl cap)) value \<and> len = of_nat (min vl cap) \<and> ex = ex' then Some m else None)"
| "mica_spec (CTest kh key kl) (RBool r) m = Some (if r then m else m(key_id kh key kl := None))"
| "mica_spec (CDelete kh key kl) (RBool r) m = Some (m(key_id kh key kl := None))"
| "mica_spec (CIncrement kh key kl n ex) (RCount None) m = Some m"
| "mica_spec (CIncrement kh key kl n ex) (RCount (Some new)) m = (case m (key_id kh key kl) of
     None \<Rightarrow> None
   | Some (vl, value, _) \<Rightarrow> if vl = 8 \<and> new = le_dec value + n then Some (m(key_id kh key kl \<mapsto> (8, le_enc 8 new, ex))) else None)"
| "mica_spec _ _ m = None"

section \<open>Looking up a key\<close>

lemma bucket_index_less: "shape_ok t \<Longrightarrow> unat (mehcached_calc_bucket_index t kh) < length (buckets t)"
proof -
  assume "shape_ok t"
  then obtain k where k: "k \<le> 31" "length (buckets t) = 2 ^ k" "num_buckets_mask t = 2 ^ k - 1"
    by (auto simp: shape_ok_def)
  have "unat (take_bit k w) < 2 ^ k" for w :: u32
    by (simp add: unsigned_take_bit_eq take_bit_nat_less_exp)
  then show ?thesis
    by (simp add: mehcached_calc_bucket_index_def k(2,3) take_bit_eq_mask mask_eq_decr_exp)
qed

lemma locate_run:
  assumes "shape_ok t"
  shows "locate_bucket kh t = (Done (unat (mehcached_calc_bucket_index t kh)), t)"
  using bucket_index_less [OF assms] by (simp add: locate_bucket_def run_steps)

lemma live_key_at:
  assumes "log_ok p hs" and "live p hs v it" and "key_ok key kl"
  shows "key_at p (unat (MEHCACHED_ITEM_OFFSET v)) kh key kl \<longleftrightarrow> key_of it = key_id kh key kl"
proof -
  obtain xs n ys where e: "entry_at hs v xs n ys" "holds p (sum_list xs) it" using assms(2) by (auto simp: live_def)
  have "key_at p (unat (MEHCACHED_ITEM_OFFSET v)) kh key kl = key_at p (sum_list xs) kh key kl"
    by (simp add: key_at_def hash_at_def kv_at_def entry_position(2) [OF assms(1) e(1)])
  then show ?thesis
    using key_at_holds [OF e(2)] assms(3) by (auto simp: key_ok_def key_of_def key_id_def)
qed

text \<open>A search that fails: no live item has the key.\<close>

lemma missing_key:
  assumes "table_ok t hs" and "key_ok key kl"
    and "\<And>i. i < 15 \<Longrightarrow> \<not> (MEHCACHED_TAG (get_slot t (unat (mehcached_calc_bucket_index t kh)) i) = ucast (mehcached_calc_tag kh)
      \<and> key_at (alloc t) (unat (MEHCACHED_ITEM_OFFSET (get_slot t (unat (mehcached_calc_bucket_index t kh)) i))) kh key kl)"
    and "b < length (buckets t)" and "i < 15" and "get_slot t b i \<noteq> 0" and "live (alloc t) hs (get_slot t b i) it"
  shows "key_of it \<noteq> key_id kh key kl"
proof
  assume k: "key_of it = key_id kh key kl"
  then have "it_hash it = kh" by (simp add: key_of_def key_id_def)
  then have "unat (mehcached_calc_bucket_index t kh) = b" "MEHCACHED_TAG (get_slot t b i) = ucast (mehcached_calc_tag kh)"
    using live_slot [OF assms(1,4-7)] by (simp_all add: in_bucket_def)
  then show False
    using assms(3) [OF assms(5)] live_key_at [OF _ assms(7,2), of kh] k assms(1) by (simp add: table_ok_def)
qed

text \<open>A search that finds a slot: only this slot can hold a live item with the key.\<close>

lemma found_key:
  assumes "table_ok t hs" and "i < 15" and "MEHCACHED_TAG (get_slot t (unat (mehcached_calc_bucket_index t kh)) i) = ucast (mehcached_calc_tag kh)"
    and "b' < length (buckets t)" and "i' < 15" and "get_slot t b' i' \<noteq> 0" and "live (alloc t) hs (get_slot t b' i') it"
    and "key_of it = key_id kh key kl"
  shows "b' = unat (mehcached_calc_bucket_index t kh) \<and> i' = i"
proof -
  have "it_hash it = kh" using assms(8) by (simp add: key_of_def key_id_def)
  then show ?thesis
    using live_same_slot [OF assms(1,4-7), of "unat (mehcached_calc_bucket_index t kh)" i] assms(2,3) by (simp add: in_bucket_def)
qed

section \<open>Each call\<close>

text \<open>What a call may do to the slots: clear them, keep them, or write one that names the item just
  allocated.\<close>

definition advanced :: "mehcached_table \<Rightarrow> nat list \<Rightarrow> mehcached_table \<Rightarrow> nat list \<Rightarrow> bool" where
  "advanced t hs t' hs' \<longleftrightarrow> (hs' = hs \<or> (\<exists>n \<le> 2097152. hs' = hs @ [n])) \<and> pool_size (alloc t') = pool_size (alloc t)
     \<and> mth_threshold t' = mth_threshold t \<and> length (buckets t') = length (buckets t)
     \<and> (\<forall>b < length (buckets t). \<forall>i < 15. get_slot t' b i = 0 \<or> get_slot t' b i = get_slot t b i
          \<or> hs' \<noteq> hs \<and> MEHCACHED_ITEM_OFFSET (get_slot t' b i) = of_nat (sum_list hs) AND MEHCACHED_ITEM_OFFSET_MASK)"

definition step_ok :: "mica_call \<Rightarrow> mehcached_table \<Rightarrow> nat list \<Rightarrow> cache \<Rightarrow> bool" where
  "step_ok c t hs m \<longleftrightarrow> (\<exists>r t' hs' m'. mica_do c t = (Done r, t') \<and> mica_spec c r m = Some m'
     \<and> table_ok t' hs' \<and> refines t' hs' m' \<and> advanced t hs t' hs')"

lemma step_okI:
  "mica_do c t = (Done r, t') \<Longrightarrow> mica_spec c r m = Some m' \<Longrightarrow> table_ok t' hs' \<Longrightarrow> refines t' hs' m' \<Longrightarrow> advanced t hs t' hs'
    \<Longrightarrow> step_ok c t hs m"
  unfolding step_ok_def by blast

lemma advanced_refl: "advanced t hs t hs"
  by (simp add: advanced_def)

lemma do_call: "m s = (Done r, s') \<or> m s = (Exit r, s') \<Longrightarrow> bnd (call m) (\<lambda>r. ret (F r)) s = (Done (F r), s')"
  by (auto simp: call_def bnd_def ret_def)

lemma key_length_assert: "kl \<le> 255 \<Longrightarrow> (of_nat kl :: u64) \<le> MEHCACHED_MAX_KEY_LENGTH"
  by (simp add: MEHCACHED_MAX_KEY_LENGTH_def word_le_nat_alt unat_u64_of_nat)

lemma value_length_assert: "vl \<le> 1048575 \<Longrightarrow> (of_nat vl :: u64) \<le> MEHCACHED_MAX_VALUE_LENGTH"
  by (simp add: MEHCACHED_MAX_VALUE_LENGTH_def word_le_nat_alt unat_u64_of_nat)

lemma table_ok_shape: "table_ok t hs \<Longrightarrow> shape_ok t" "table_ok t hs \<Longrightarrow> log_ok (alloc t) hs" "table_ok t hs \<Longrightarrow> wide t"
  by (simp_all add: table_ok_def shape_ok_def)

lemma step_test:
  assumes "table_ok t hs" and "refines t hs m" and "call_ok (CTest kh key kl)"
  shows "step_ok (CTest kh key kl) t hs m"
proof -
  let ?b = "unat (mehcached_calc_bucket_index t kh)"
  have k: "key_ok key kl" "kl \<le> 255" "ru8 kl \<le> length key" using assms(3) by (simp_all add: key_ok_def)
  show ?thesis
  proof (cases rule: find_item_index_log [OF table_ok_wf [OF assms(1)] k(2,3), of ?b kh "mehcached_calc_tag kh", where 'r = bool, case_names missing found])
    case missing
    then have "mehcached_test kh key (of_nat kl) t = (Done False :: (bool, bool) outcome, t)"
      by (simp add: mehcached_test_def run_steps locate_run [OF table_ok_shape(1) [OF assms(1)]] key_length_assert k
          MEHCACHED_ITEMS_PER_BUCKET_def)
    then have "mica_do (CTest kh key kl) t = (Done (RBool False), t)" by (simp add: do_call)
    then show ?thesis
      by (rule step_okI [OF _ _ assms(1) refines_forget [OF assms(2) missing_key [OF assms(1) k(1) missing(2)]] advanced_refl])
        simp_all
  next
    case (found i)
    then have "mehcached_test kh key (of_nat kl) t = (Done True :: (bool, bool) outcome, t)"
      by (simp add: mehcached_test_def run_steps locate_run [OF table_ok_shape(1) [OF assms(1)]] key_length_assert k
          MEHCACHED_ITEMS_PER_BUCKET_def)
    then have "mica_do (CTest kh key kl) t = (Done (RBool True), t)" by (simp add: do_call)
    then show ?thesis by (rule step_okI [OF _ _ assms(1,2) advanced_refl]) simp
  qed
qed

lemma step_delete:
  assumes "table_ok t hs" and "refines t hs m" and "call_ok (CDelete kh key kl)"
  shows "step_ok (CDelete kh key kl) t hs m"
proof -
  let ?b = "unat (mehcached_calc_bucket_index t kh)"
  have k: "key_ok key kl" "kl \<le> 255" "ru8 kl \<le> length key" using assms(3) by (simp_all add: key_ok_def)
  have b: "?b < length (buckets t)" using bucket_index_less table_ok_shape(1) [OF assms(1)] by blast
  show ?thesis
  proof (cases rule: find_item_index_log [OF table_ok_wf [OF assms(1)] k(2,3), of ?b kh "mehcached_calc_tag kh", where 'r = bool, case_names missing found])
    case missing
    then have "mehcached_delete kh key (of_nat kl) t = (Exit False, t)"
      by (simp add: mehcached_delete_def run_steps bnd_exit locate_run [OF table_ok_shape(1) [OF assms(1)]] key_length_assert k
          MEHCACHED_ITEMS_PER_BUCKET_def)
    then have "mica_do (CDelete kh key kl) t = (Done (RBool False), t)" by (simp add: do_call)
    then show ?thesis
      by (rule step_okI [OF _ _ assms(1) refines_forget [OF assms(2) missing_key [OF assms(1) k(1) missing(2)]] advanced_refl])
        simp_all
  next
    case (found i)
    let ?t = "put_slot ?b i 0 t"
    have "mehcached_delete kh key (of_nat kl) t = (Done True, ?t)"
      using found by (simp add: mehcached_delete_def run_steps locate_run [OF table_ok_shape(1) [OF assms(1)]] key_length_assert k
          MEHCACHED_ITEMS_PER_BUCKET_def)
    then have run: "mica_do (CDelete kh key kl) t = (Done (RBool True), ?t)" by (simp add: do_call)
    note rem = remove_slot [OF assms(1,2) b found(1)]
    note slot = get_slot_put_slot [OF table_ok_shape(3) [OF assms(1)] b found(1), of 0]
    have ref: "refines ?t hs (m(key_id kh key kl := None))"
    proof (rule refines_forget [OF rem(2)])
      fix b' i' it
      assume a: "b' < length (buckets ?t)" "i' < 15" "get_slot ?t b' i' \<noteq> 0" "live (alloc ?t) hs (get_slot ?t b' i') it"
      have ne: "\<not> (b' = ?b \<and> i' = i)" using a(3) by (rule contrapos_nn) (simp add: slot)
      have "get_slot ?t b' i' = get_slot t b' i'" unfolding slot by (rule if_not_P [OF ne])
      then show "key_of it \<noteq> key_id kh key kl"
        using found_key [OF assms(1) found(1,3), of b' i' it key kl] a ne by auto
    qed
    have adv: "advanced t hs ?t hs" by (simp add: advanced_def slot)
    show ?thesis by (rule step_okI [OF run _ rem(1) ref adv]) simp
  qed
qed

text \<open>What a lookup reads when the search has found a slot: everything lies inside the window, and a
  live item is read back as it was stored.\<close>

lemma found_words:
  assumes "table_ok t hs" and "entry_at hs v xs n ys"
  shows "mehcached_pool_item (alloc t) (MEHCACHED_ITEM_OFFSET v) = sum_list xs mod unat (pool_size (alloc t))"
    and "key_at (alloc t) (unat (MEHCACHED_ITEM_OFFSET v)) kh key kl = key_at (alloc t) (sum_list xs) kh key kl"
    and "item_load (sum_list xs mod unat (pool_size (alloc t)) + 8) 4 t = (Done (kv_at (alloc t) (sum_list xs)), t)"
    and "item_load (sum_list xs mod unat (pool_size (alloc t)) + 12) 4 t = (Done (expire_at (alloc t) (sum_list xs)), t)"
  using table_ok_shape(2) [OF assms(1)] table_ok_wf [OF assms(1)]
  by (simp_all add: entry_position [OF _ assms(2)] item_load_log key_at_def hash_at_def kv_at_def expire_at_def)

lemma memcpy8_out_log:
  assumes "pool_wf (alloc t)" and "len \<le> 1048575" and "k + ru8 len \<le> 2097152"
  shows "mehcached_memcpy8_out (a mod unat (pool_size (alloc t)) + k) (of_nat len) t = (Done (log_bytes (alloc t) (a + k) (ru8 len)), t)"
  using assms by (simp add: mehcached_memcpy8_out_def unat_ROUNDUP8_small on_alloc_run pool_load_log)

lemma log_bytes_take: "m \<le> n \<Longrightarrow> log_bytes p a m = take m (log_bytes p a n)"
  by (auto simp: log_bytes_def take_map)

definition fifo :: "mehcached_table \<Rightarrow> bool" where
  "fifo t \<longleftrightarrow> pool_mask (alloc t) \<le> mth_threshold t"

lemma fifo_no_move: "fifo t \<Longrightarrow> move_to_head b i vec item item_size t = (Done (), t)"
proof -
  assume "fifo t"
  then have "\<not> (pool_tail (alloc t) - MEHCACHED_ITEM_OFFSET vec) AND pool_mask (alloc t) > mth_threshold t"
    unfolding fifo_def using word_and_le1 [of "pool_tail (alloc t) - MEHCACHED_ITEM_OFFSET vec" "pool_mask (alloc t)"]
    by (meson leD order_trans)
  then show ?thesis by (simp add: move_to_head_def Let_def run_steps whenM_def)
qed

text \<open>The length a lookup returns.\<close>

definition read_len :: "u32 \<Rightarrow> nat \<Rightarrow> nat" where
  "read_len kv cap = min (min (unat (MEHCACHED_VALUE_LENGTH kv)) 1048575) cap"

lemma read_len_word:
  assumes "cap < 2 ^ 64"
  shows "adjusted_length (min (ucast (MEHCACHED_VALUE_LENGTH kv)) MEHCACHED_MAX_VALUE_LENGTH) (of_nat cap) = of_nat (read_len kv cap)"
proof -
  define w where "w = (ucast (MEHCACHED_VALUE_LENGTH kv) :: u64)"
  have "unat (MEHCACHED_VALUE_LENGTH kv) < 2 ^ 32" using unsigned_less [of "MEHCACHED_VALUE_LENGTH kv"] by simp
  then have "unat w = unat (MEHCACHED_VALUE_LENGTH kv)" by (simp add: w_def unsigned_ucast_eq take_bit_nat_eq_self)
  then have "read_len kv cap = unat (min (min w 1048575) (of_nat cap))"
    using assms by (auto simp: read_len_def min_def word_le_nat_alt unat_u64_of_nat)
  then show ?thesis unfolding adjusted_length_def w_def [symmetric] MEHCACHED_MAX_VALUE_LENGTH_def by (auto simp: min_def not_less)
qed

lemma get_found_run:
  assumes "table_ok t hs" and "fifo t" and "key_ok key kl" and "cap \<le> 1500" and "i < 15"
    and "b = unat (mehcached_calc_bucket_index t kh)" and "v = get_slot t b i"
    and "mehcached_find_item_index b kh (mehcached_calc_tag kh) key (of_nat kl) t = (Done i :: ((u8 list \<times> u64 \<times> u32) option, nat) outcome, t)"
    and "key_at (alloc t) (unat (MEHCACHED_ITEM_OFFSET v)) kh key kl" and "entry_at hs v xs n ys"
  shows "mehcached_get 0 kh key (of_nat kl) (of_nat cap) ro t
    = (if mehcached_pool_is_valid (alloc t) (MEHCACHED_ITEM_OFFSET v)
       then (Done (Some (log_bytes (alloc t) (sum_list xs + 24 + ru8 kl) (ru8 (read_len (kv_at (alloc t) (sum_list xs)) cap)),
           of_nat (read_len (kv_at (alloc t) (sum_list xs)) cap), expire_at (alloc t) (sum_list xs))), t)
       else (Exit None, if ro then t else put_slot b i 0 t))"
proof -
  let ?a = "sum_list xs" and ?kv = "kv_at (alloc t) (sum_list xs)"
  let ?len = "read_len ?kv cap"
  note words = found_words [OF assms(1,10)]
  have kl: "kl \<le> 255" using assms(3) by (simp add: key_ok_def)
  have "key_at (alloc t) ?a kh key kl" using assms(9) unfolding words(2) .
  then have "MEHCACHED_KEY_LENGTH ?kv = of_nat kl" by (simp add: key_at_def)
  then have key: "min (ucast (MEHCACHED_KEY_LENGTH ?kv)) MEHCACHED_MAX_KEY_LENGTH = (of_nat kl :: u64)"
    using key_length_assert [OF kl] kl by (simp add: ucast_of_nat_u32 min_def)
  have val: "adjusted_length (min (ucast (MEHCACHED_VALUE_LENGTH ?kv)) MEHCACHED_MAX_VALUE_LENGTH) (of_nat cap) = of_nat ?len"
    by (rule read_len_word) (use assms(4) in simp)
  have len: "?len \<le> 1500" using assms(4) by (simp add: read_len_def)
  then have noabort: "\<not> (of_nat ?len :: u64) > 1500" by (simp add: word_less_nat_alt unat_u64_of_nat)
  have "ru8 ?len \<le> 1504" using ru8_mono [OF len] by (simp add: ru8_def)
  then have out: "mehcached_memcpy8_out (?a mod unat (pool_size (alloc t)) + 24 + ru8 kl) (of_nat ?len) t
      = (Done (log_bytes (alloc t) (?a + 24 + ru8 kl) (ru8 ?len)) :: ((u8 list \<times> u64 \<times> u32) option, u8 list) outcome, t)"
    using memcpy8_out_log [OF table_ok_wf [OF assms(1)], of ?len "24 + ru8 kl" ?a, where 'a = "(u8 list \<times> u64 \<times> u32) option"] len ru8_key [OF kl]
    by (simp add: add.assoc)
  have i: "i \<noteq> MEHCACHED_ITEMS_PER_BUCKET" using assms(5) by (simp add: MEHCACHED_ITEMS_PER_BUCKET_def)
  have ru: "unat (MEHCACHED_ROUNDUP8 (of_nat kl)) = ru8 kl" using kl by (simp add: unat_ROUNDUP8_small)
  show ?thesis
    unfolding mehcached_get_def assms(6)
    by (cases ro) (simp_all add: run_steps bnd_exit locate_run [OF table_ok_shape(1) [OF assms(1)]] key_length_assert kl assms(8) [unfolded assms(6)]
        i words(1,3,4) assms(7) [unfolded assms(6), symmetric] key val out ru Let_def noabort fifo_no_move [OF assms(2)])
qed

text \<open>The only slot a key can be live in is the one the search finds.\<close>

lemma forget_stale:
  assumes "table_ok t hs" and "refines t hs m" and "i < 15" and "b = unat (mehcached_calc_bucket_index t kh)"
    and "MEHCACHED_TAG (get_slot t b i) = ucast (mehcached_calc_tag kh)" and "\<And>it. \<not> live (alloc t) hs (get_slot t b i) it"
  shows "refines t hs (m(key_id kh key kl := None))"
proof (rule refines_forget [OF assms(2)])
  fix b' i' it
  assume a: "b' < length (buckets t)" "i' < 15" "get_slot t b' i' \<noteq> 0" "live (alloc t) hs (get_slot t b' i') it"
  show "key_of it \<noteq> key_id kh key kl"
  proof
    assume "key_of it = key_id kh key kl"
    then have "b' = b \<and> i' = i" using found_key [OF assms(1,3) assms(5) [unfolded assms(4)] a] assms(4) by simp
    then show False using assms(6) a(4) by simp
  qed
qed

lemma not_valid_not_live:
  assumes "log_ok p hs" and "entry_at hs v xs n ys" and "n + sum_list ys < 2 ^ 48"
    and "\<not> mehcached_pool_is_valid p (MEHCACHED_ITEM_OFFSET v)"
  shows "\<not> live p hs v it"
  using live_at [OF assms(1) _ assms(2,3)] entry_age(2) [OF assms(1-3)] assms(4) by blast

text \<open>A search that finds a slot whose item is valid finds the live item of the key.\<close>

lemma found_live:
  assumes "table_ok t hs" and "refines t hs m" and "key_ok key kl" and "b = unat (mehcached_calc_bucket_index t kh)" and "i < 15"
    and "MEHCACHED_TAG (get_slot t b i) = ucast (mehcached_calc_tag kh)"
    and "key_at (alloc t) (unat (MEHCACHED_ITEM_OFFSET (get_slot t b i))) kh key kl"
    and "mehcached_pool_is_valid (alloc t) (MEHCACHED_ITEM_OFFSET (get_slot t b i))"
  obtains xs n ys it where "entry_at hs (get_slot t b i) xs n ys" and "n + sum_list ys \<le> unat (pool_size (alloc t))"
    and "item_len it \<le> n" and "holds (alloc t) (sum_list xs) it" and "live (alloc t) hs (get_slot t b i) it"
    and "key_of it = key_id kh key kl" and "m (key_id kh key kl) = Some (val_of it)" and "get_slot t b i \<noteq> 0"
    and "b < length (buckets t)"
proof -
  note lo = table_ok_shape(2) [OF assms(1)]
  have b: "b < length (buckets t)" using bucket_index_less table_ok_shape(1) [OF assms(1)] assms(4) by simp
  have v0: "get_slot t b i \<noteq> 0" using tag_nonzero [OF assms(6)] by simp
  obtain xs n ys where e: "entry_at hs (get_slot t b i) xs n ys" "n + sum_list ys < 2 ^ 48"
    "n + sum_list ys \<le> unat (pool_size (alloc t)) \<longrightarrow> (\<exists>it. item_len it \<le> n \<and> holds (alloc t) (sum_list xs) it
      \<and> in_bucket t b (it_hash it) \<and> MEHCACHED_TAG (get_slot t b i) = ucast (mehcached_calc_tag (it_hash it)))"
    by (rule entry_of_slot [OF assms(1) b assms(5) v0])
  have fits: "n + sum_list ys \<le> unat (pool_size (alloc t))" using entry_age(2) [OF lo e(1,2)] assms(8) by simp
  then obtain it where it: "item_len it \<le> n" "holds (alloc t) (sum_list xs) it" using e(3) by blast
  have live: "live (alloc t) hs (get_slot t b i) it" unfolding live_def using e(1) fits it by blast
  have key: "key_of it = key_id kh key kl" using live_key_at [OF lo live assms(3)] assms(7) by simp
  have "m (key_id kh key kl) = Some (val_of it)" using assms(2,5) b v0 live key by (metis refines_def)
  then show ?thesis by (rule that [OF e(1) fits it live key _ v0 b])
qed

lemma get_live_run:
  assumes "table_ok t hs" and "refines t hs m" and "key_ok key kl" and "cap \<le> 1500" and "fifo t"
    and "b = unat (mehcached_calc_bucket_index t kh)" and "i < 15"
    and "mehcached_find_item_index b kh (mehcached_calc_tag kh) key (of_nat kl) t = (Done i :: ((u8 list \<times> u64 \<times> u32) option, nat) outcome, t)"
    and "MEHCACHED_TAG (get_slot t b i) = ucast (mehcached_calc_tag kh)"
    and "key_at (alloc t) (unat (MEHCACHED_ITEM_OFFSET (get_slot t b i))) kh key kl"
    and "mehcached_pool_is_valid (alloc t) (MEHCACHED_ITEM_OFFSET (get_slot t b i))"
  obtains vl val ex where "m (key_id kh key kl) = Some (vl, val, ex)"
    and "mica_do (CGet kh key kl cap ro) t = (Done (RValue (Some (take (ru8 (min vl cap)) val, of_nat (min vl cap), ex))), t)"
proof -
  obtain xs n ys it where e: "entry_at hs (get_slot t b i) xs n ys" and it: "holds (alloc t) (sum_list xs) it"
    "key_of it = key_id kh key kl" "m (key_id kh key kl) = Some (val_of it)"
    by (rule found_live [OF assms(1-3,6,7,9-11)])
  let ?l = "min (it_vlen it) cap"
  have len: "read_len (kv_at (alloc t) (sum_list xs)) cap = ?l"
    using holds_words(4) [OF it(1)] it(1) by (simp add: read_len_def holds_def item_wf_def unat_of_nat take_bit_nat_eq_self)
  have val: "log_bytes (alloc t) (sum_list xs + 24 + ru8 kl) (ru8 ?l) = take (ru8 ?l) (it_val it)"
    using holds_split(5) [OF it(1)] it(2) log_bytes_take [of "ru8 ?l" "ru8 (it_vlen it)"] ru8_mono [of ?l "it_vlen it"]
    by (simp add: key_of_def key_id_def)
  have "mica_do (CGet kh key kl cap ro) t = (Done (RValue (Some (take (ru8 ?l) (it_val it), of_nat ?l, it_exp it))), t)"
    using get_found_run [OF assms(1,5,3,4,7,6) refl assms(8,10) e, of ro] assms(11) len val holds_words(2) [OF it(1)]
    by (simp add: do_call)
  then show ?thesis using that it(3) by (simp add: val_of_def)
qed

lemma step_get:
  assumes "table_ok t hs" and "refines t hs m" and "call_ok (CGet kh key kl cap ro)" and "fifo t"
  shows "step_ok (CGet kh key kl cap ro) t hs m"
proof -
  define b where b_def: "b = unat (mehcached_calc_bucket_index t kh)"
  have k: "key_ok key kl" "kl \<le> 255" "ru8 kl \<le> length key" "cap \<le> 1500" using assms(3) by (simp_all add: key_ok_def)
  have b: "b < length (buckets t)" using bucket_index_less table_ok_shape(1) [OF assms(1)] by (simp add: b_def)
  show ?thesis
  proof (cases rule: find_item_index_log [OF table_ok_wf [OF assms(1)] k(2,3), of b kh "mehcached_calc_tag kh",
      where 'r = "(u8 list \<times> u64 \<times> u32) option", case_names missing found])
    case missing
    then have "mica_do (CGet kh key kl cap ro) t = (Done (RValue None), t)"
      by (simp add: do_call mehcached_get_def run_steps bnd_exit locate_run [OF table_ok_shape(1) [OF assms(1)]] key_length_assert k
          MEHCACHED_ITEMS_PER_BUCKET_def b_def)
    then show ?thesis
      by (rule step_okI [OF _ _ assms(1) refines_forget [OF assms(2) missing_key [OF assms(1) k(1) missing(2) [unfolded b_def]]] advanced_refl])
        simp_all
  next
    case (found i)
    let ?v = "get_slot t b i"
    show ?thesis
    proof (cases "mehcached_pool_is_valid (alloc t) (MEHCACHED_ITEM_OFFSET ?v)")
      case False
      obtain xs n ys where e: "entry_at hs ?v xs n ys" "n + sum_list ys < 2 ^ 48"
        by (rule entry_of_slot [OF assms(1) b found(1) conjunct2 [OF tag_nonzero [OF found(3)]]])
      note dead = forget_stale [OF assms(1,2) found(1) b_def found(3) not_valid_not_live [OF table_ok_shape(2) [OF assms(1)] e False], of key kl]
      let ?t = "if ro then t else put_slot b i 0 t"
      have go: "mica_do (CGet kh key kl cap ro) t = (Done (RValue None), ?t)"
        using get_found_run [OF assms(1,4) k(1,4) found(1) b_def refl found(2,4) e(1), of ro] False by (simp add: do_call)
      have ok: "table_ok ?t hs" "refines ?t hs (m(key_id kh key kl := None))"
        using remove_slot [OF assms(1) dead b found(1)] assms(1) dead by simp_all
      have adv: "advanced t hs ?t hs"
        using get_slot_put_slot [OF table_ok_shape(3) [OF assms(1)] b found(1), of 0] by (simp add: advanced_def)
      show ?thesis by (rule step_okI [OF go _ ok adv]) simp
    next
      case True
      obtain vl val ex where r: "m (key_id kh key kl) = Some (vl, val, ex)"
        "mica_do (CGet kh key kl cap ro) t = (Done (RValue (Some (take (ru8 (min vl cap)) val, of_nat (min vl cap), ex))), t)"
        by (rule get_live_run [OF assms(1,2) k(1,4) assms(4) b_def found True])
      show ?thesis by (rule step_okI [OF r(2) _ assms(1,2) advanced_refl]) (simp add: r(1))
    qed
  qed
qed

text \<open>An increment rewrites the value and the expiry time where they are.\<close>

definition put_count :: "mehcached_pool \<Rightarrow> nat \<Rightarrow> item \<Rightarrow> mehcached_pool" where
  "put_count p a it = log_put (log_put p (a + (24 + ru8 (it_klen it))) (it_val it)) (a + 12) (le_enc 4 (it_exp it))"

lemma put_count_holds:
  assumes "holds p a old" and "pool_wf p" and "it_vlen old = 8" and "length v = 8"
  shows "holds (put_count p a (old\<lparr>it_val := v, it_exp := ex\<rparr>)) a (old\<lparr>it_val := v, it_exp := ex\<rparr>)" (is "holds ?q a ?it")
proof (rule holdsI)
  have wf: "item_wf old" using assms(1) by (simp add: holds_def)
  then show "item_wf ?it" using assms(3,4) by (simp add: item_wf_def ru8_def)
  have size: "item_len old \<le> unat (pool_size p)" using item_len_bounds(2) [OF wf] pool_wf_size(1) [OF assms(2)] by simp
  then have fit: "32 + ru8 (it_klen old) \<le> unat (pool_size p)" using assms(3) by (simp add: item_len_def ru8_def)
  note split = holds_split [OF assms(1)]
  show "log_bytes ?q (a + 8) 4 = kv_word ?it"
    using split(1) fit assms(4) by (simp add: put_count_def log_bytes_put_before kv_word_def)
  show "log_bytes ?q (a + 12) 4 = le_enc 4 (it_exp ?it)"
    using log_bytes_put_same [of "le_enc 4 ex" _ "a + 12"] fit by (simp add: put_count_def)
  show "log_bytes ?q (a + 16) 8 = le_enc 8 (it_hash ?it)"
    using split(3) fit assms(4) by (simp add: put_count_def log_bytes_put_before log_bytes_put_after)
  show "log_bytes ?q (a + 24) (ru8 (it_klen ?it)) = it_key ?it"
    using split(4) fit assms(4) by (simp add: put_count_def log_bytes_put_before log_bytes_put_after)
  show "log_bytes ?q (a + 24 + ru8 (it_klen ?it)) (ru8 (it_vlen ?it)) = it_val ?it"
    using log_bytes_put_same [of v p "a + (24 + ru8 (it_klen old))"] fit assms(3,4)
    by (simp add: put_count_def log_bytes_put_after ru8_def add.assoc)
qed

lemma put_count_frame:
  assumes "log_ok p hs" and "hs = xs @ n # ys" and "n + sum_list ys \<le> unat (pool_size p)" and "length (it_val it) = 8" and "32 + ru8 (it_klen it) \<le> n"
  shows "log_ok (put_count p (sum_list xs) it) hs" and "untouched p (put_count p (sum_list xs) it) (sum_list xs + 8) (sum_list xs + n) (sum_list hs)"
proof -
  show "log_ok (put_count p (sum_list xs) it) hs"
    unfolding put_count_def assms(2) by (intro item_put_log_ok assms(1) [unfolded assms(2)]; use assms(3-5) in simp)
  show "untouched p (put_count p (sum_list xs) it) (sum_list xs + 8) (sum_list xs + n) (sum_list hs)"
    unfolding put_count_def by (intro untouched_put untouched_refl; use assms(2-5) in simp)
qed

lemma increment_found_run:
  assumes "table_ok t hs" and "key_ok key kl" and "i < 15" and "b = unat (mehcached_calc_bucket_index t kh)" and "v = get_slot t b i"
    and "mehcached_find_item_index b kh (mehcached_calc_tag kh) key (of_nat kl) t = (Done i :: (u64 option, nat) outcome, t)"
    and "entry_at hs v xs n ys" and "old = log_bytes (alloc t) (sum_list xs + (24 + ru8 kl)) 8"
  shows "mehcached_increment 0 kh key (of_nat kl) inc ex t
    = (if mehcached_pool_is_valid (alloc t) (MEHCACHED_ITEM_OFFSET v) \<and> MEHCACHED_VALUE_LENGTH (kv_at (alloc t) (sum_list xs)) = 8
       then (Done (Some (le_dec old + inc)), t\<lparr>alloc := log_put (log_put (alloc t) (sum_list xs + (24 + ru8 kl)) (le_enc 8 (le_dec old + inc)))
           (sum_list xs + 12) (le_enc 4 ex)\<rparr>)
       else (Exit None, t))"
proof -
  have kl: "kl \<le> 255" using assms(2) by (simp add: key_ok_def)
  have i: "i \<noteq> MEHCACHED_ITEMS_PER_BUCKET" using assms(3) by (simp add: MEHCACHED_ITEMS_PER_BUCKET_def)
  have ru: "unat (MEHCACHED_ROUNDUP8 (of_nat kl)) = ru8 kl" using kl by (simp add: unat_ROUNDUP8_small)
  have fit: "24 + ru8 kl + ru8 8 \<le> 2097152" using ru8_key [OF kl] by (simp add: ru8_def)
  note wf = table_ok_wf [OF assms(1)]
  have out: "mehcached_memcpy8_out (sum_list xs mod unat (pool_size (alloc t)) + (24 + ru8 kl)) 8 t
      = (Done old :: (u64 option, u8 list) outcome, t)"
    using memcpy8_out_log [OF wf _ fit, of "sum_list xs", where 'a = "u64 option"] assms(8) by (simp add: ru8_def)
  have put: "mehcached_memcpy8_in (sum_list xs mod unat (pool_size (alloc t)) + (24 + ru8 kl)) (le_enc 8 (le_dec old + inc :: u64)) 8 t
      = (Done () :: (u64 option, unit) outcome, t\<lparr>alloc := log_put (alloc t) (sum_list xs + (24 + ru8 kl)) (le_enc 8 (le_dec old + inc))\<rparr>)"
    using memcpy8_in_log [OF wf _ _ fit refl, of "le_enc 8 (le_dec old + inc :: u64)" "sum_list xs", where 'a = "u64 option"] by (simp add: ru8_def)
  show ?thesis
    unfolding mehcached_increment_def assms(4)
    by (cases "mehcached_pool_is_valid (alloc t) (MEHCACHED_ITEM_OFFSET v)";
        cases "MEHCACHED_VALUE_LENGTH (kv_at (alloc t) (sum_list xs)) = 8")
      (simp_all add: run_steps bnd_exit locate_run [OF table_ok_shape(1) [OF assms(1)]] key_length_assert kl assms(6) [unfolded assms(4)]
        i found_words [OF assms(1,7)] assms(5) [unfolded assms(4), symmetric] ru Let_def add.assoc out put store_log wf)
qed

text \<open>The counter of a live item of eight bytes is rewritten.\<close>

lemma count_in_place:
  fixes ex :: u32
  assumes "table_ok t hs" and "refines t hs m" and "b < length (buckets t)" and "i < 15" and "get_slot t b i \<noteq> 0"
    and "entry_at hs (get_slot t b i) xs n ys" and "n + sum_list ys \<le> unat (pool_size (alloc t))"
    and "item_len old \<le> n" and "holds (alloc t) (sum_list xs) old" and "it_vlen old = 8" and "length v = 8"
  defines "it \<equiv> old\<lparr>it_val := v, it_exp := ex\<rparr>"
  defines "u \<equiv> t\<lparr>alloc := put_count (alloc t) (sum_list xs) it\<rparr>"
  shows "table_ok u hs" and "refines u hs (m(key_of old \<mapsto> (8, v, ex)))" and "advanced t hs u hs"
proof -
  let ?q = "put_count (alloc t) (sum_list xs) it"
  have hs: "hs = xs @ n # ys" using assms(6) by (simp add: entry_at_def)
  have l8: "length (it_val it) = 8" using assms(11) by (simp add: it_def)
  have room: "32 + ru8 (it_klen it) \<le> n" using assms(8,10) by (simp add: it_def item_len_def ru8_def)
  note frame = put_count_frame [OF table_ok_shape(2) [OF assms(1)] hs assms(7) l8 room]
  have h: "holds ?q (sum_list xs) it" unfolding it_def by (rule put_count_holds [OF assms(9) table_ok_wf [OF assms(1)] assms(10,11)])
  have same: "key_of it = key_of old" "it_hash it = it_hash old" "item_len it \<le> n" "val_of it = (8, v, ex)"
    using assms(8,10) by (simp_all add: it_def key_of_def item_len_def val_of_def)
  show "table_ok u hs" unfolding u_def by (rule rewrite_entries [OF assms(1,6,9) same(2,3) frame(1) h frame(2)])
  show "refines u hs (m(key_of old \<mapsto> (8, v, ex)))"
    unfolding u_def using rewrite_refines [OF assms(1-7,9,8) same(1) frame(1) h frame(2)] same by simp
  show "advanced t hs u hs" by (simp add: advanced_def u_def put_count_def)
qed

lemma step_increment:
  assumes "table_ok t hs" and "refines t hs m" and "call_ok (CIncrement kh key kl inc ex)"
  shows "step_ok (CIncrement kh key kl inc ex) t hs m"
proof -
  define b where b_def: "b = unat (mehcached_calc_bucket_index t kh)"
  have k: "key_ok key kl" "kl \<le> 255" "ru8 kl \<le> length key" using assms(3) by (simp_all add: key_ok_def)
  have b: "b < length (buckets t)" using bucket_index_less table_ok_shape(1) [OF assms(1)] by (simp add: b_def)
  note unchanged = step_okI [OF _ _ assms(1,2) advanced_refl, where r = "RCount None"]
  show ?thesis
  proof (cases rule: find_item_index_log [OF table_ok_wf [OF assms(1)] k(2,3), of b kh "mehcached_calc_tag kh",
      where 'r = "u64 option", case_names missing found])
    case missing
    then have "mica_do (CIncrement kh key kl inc ex) t = (Done (RCount None), t)"
      by (simp add: do_call mehcached_increment_def run_steps bnd_exit locate_run [OF table_ok_shape(1) [OF assms(1)]] key_length_assert k
          MEHCACHED_ITEMS_PER_BUCKET_def b_def)
    then show ?thesis by (rule unchanged) simp
  next
    case (found i)
    note run = increment_found_run [OF assms(1) k(1) found(1) b_def refl found(2) _ refl, of _ _ _ inc ex]
    show ?thesis
    proof (cases "mehcached_pool_is_valid (alloc t) (MEHCACHED_ITEM_OFFSET (get_slot t b i))")
      case False
      obtain xs n ys where e: "entry_at hs (get_slot t b i) xs n ys"
        by (rule entry_of_slot [OF assms(1) b found(1) conjunct2 [OF tag_nonzero [OF found(3)]]])
      have "mica_do (CIncrement kh key kl inc ex) t = (Done (RCount None), t)" using run [OF e] False by (simp add: do_call)
      then show ?thesis by (rule unchanged) simp
    next
      case True
      obtain xs n ys it where e: "entry_at hs (get_slot t b i) xs n ys" "n + sum_list ys \<le> unat (pool_size (alloc t))"
        and it: "item_len it \<le> n" "holds (alloc t) (sum_list xs) it" and key: "key_of it = key_id kh key kl"
        and m: "m (key_id kh key kl) = Some (val_of it)" and v0: "get_slot t b i \<noteq> 0"
        by (rule found_live [OF assms(1,2) k(1) b_def found(1,3,4) True])
      have kl: "it_klen it = kl" using key by (simp add: key_of_def key_id_def)
      have "it_vlen it < 2 ^ 32" using it(2) by (simp add: holds_def item_wf_def)
      then have len: "MEHCACHED_VALUE_LENGTH (kv_at (alloc t) (sum_list xs)) = 8 \<longleftrightarrow> it_vlen it = 8"
        unfolding holds_words(4) [OF it(2)] using of_nat_u32_inj [of "it_vlen it" 8] by fastforce
      show ?thesis
      proof (cases "it_vlen it = 8")
        case False
        then have "mica_do (CIncrement kh key kl inc ex) t = (Done (RCount None), t)" using run [OF e(1)] len by (simp add: do_call)
        then show ?thesis by (rule unchanged) simp
      next
        case vl: True
        then have old: "log_bytes (alloc t) (sum_list xs + (24 + ru8 kl)) 8 = it_val it"
          using holds_split(5) [OF it(2)] kl by (simp add: ru8_def add.assoc)
        let ?new = "le_dec (it_val it) + inc"
        note put = count_in_place [OF assms(1,2) b found(1) v0 e it vl, of "le_enc 8 ?new" ex, OF length_le_enc]
        have go: "mica_do (CIncrement kh key kl inc ex) t = (Done (RCount (Some ?new)),
            t\<lparr>alloc := put_count (alloc t) (sum_list xs) (it\<lparr>it_val := le_enc 8 ?new, it_exp := ex\<rparr>)\<rparr>)"
          using run [OF e(1)] True len vl unfolding old by (simp add: do_call put_count_def kl)
        have "mica_spec (CIncrement kh key kl inc ex) (RCount (Some ?new)) m = Some (m(key_of it \<mapsto> (8, le_enc 8 ?new, ex)))"
          unfolding key using m vl by (simp add: val_of_def)
        then show ?thesis by (rule step_okI [OF go _ put])
      qed
    qed
  qed
qed

section \<open>Storing\<close>

lemma item_size_for_run:
  assumes "kl \<le> 255" and "vl \<le> 1048575"
  shows "unat (item_size_for (of_nat kl) (of_nat vl)) = 24 + ru8 kl + ru8 vl"
proof -
  have fit: "ru8 kl \<le> 256" "ru8 vl \<le> 1048576" using ru8_key ru8_value assms by auto
  have "unat (MEHCACHED_ROUNDUP8 (of_nat kl)) = ru8 kl" "unat (MEHCACHED_ROUNDUP8 (of_nat vl)) = ru8 vl"
    using assms by (simp_all add: unat_ROUNDUP8_small)
  then have "unat (24 + MEHCACHED_ROUNDUP8 (of_nat kl) + MEHCACHED_ROUNDUP8 (of_nat vl)) = 24 + ru8 kl + ru8 vl"
    using fit by (simp add: unat_u64_add)
  then show ?thesis
    using fit by (simp add: item_size_for_def unsigned_ucast_eq take_bit_nat_eq_self)
qed

lemma untouched_mono: "untouched p q lo hi fin \<Longrightarrow> lo' \<le> lo \<Longrightarrow> hi \<le> hi' \<Longrightarrow> untouched p q lo' hi' fin"
  by (auto simp: untouched_def)

text \<open>Allocating and filling an item.\<close>

lemma allocate_item:
  assumes "log_ok p hs" and "item_wf it" and "unat sz = item_len it" and "sum_list hs + item_len it + unat (pool_size p) < 2 ^ 64"
  obtains q0 where "mehcached_pool_allocate sz p = (Done (of_nat (sum_list hs) AND MEHCACHED_ITEM_OFFSET_MASK) :: ('r, u64) outcome, q0)"
    "pool_tail q0 = of_nat (sum_list hs + item_len it)" "pool_size q0 = pool_size p" "pool_wf q0"
    "log_ok (put_item q0 (sum_list hs) it) (hs @ [item_len it])" "holds (put_item q0 (sum_list hs) it) (sum_list hs) it"
    "untouched p (put_item q0 (sum_list hs) it) (sum_list hs) (sum_list hs + item_len it) (sum_list hs + item_len it)"
proof -
  note len = item_len_bounds [OF assms(2)]
  have d: "8 dvd item_len it" by (simp add: item_len_def)
  have wf: "pool_wf p" using assms(1) by (simp add: log_ok_def)
  obtain h where run: "mehcached_pool_push_tail sz p = (Done (of_nat (sum_list hs) AND MEHCACHED_ITEM_OFFSET_MASK) :: ('r, u64) outcome,
      log_put (p\<lparr>pool_head := h, pool_tail := of_nat (sum_list hs + item_len it)\<rparr>) (sum_list hs) (le_enc 8 (of_nat (item_len it) :: u64)))"
    and head: "log_head_ok (p\<lparr>pool_head := h\<rparr>) (hs @ [item_len it])"
    using push_tail_log [OF assms(1,3) len(1) _ d assms(4)] len(2) by auto
  let ?p1 = "p\<lparr>pool_head := h, pool_tail := of_nat (sum_list hs + item_len it)\<rparr>"
  let ?q0 = "log_put ?p1 (sum_list hs) (le_enc 8 (of_nat (item_len it) :: u64))"
  have ok: "log_ok ?q0 (hs @ [item_len it])"
    using push_tail_log_ok [OF assms(1) len(1) _ d assms(4) head] len(2) by simp
  have size: "item_len it \<le> unat (pool_size p)" using len(2) pool_wf_size(1) [OF wf] by simp
  have "untouched p ?p1 (sum_list hs) (sum_list hs + item_len it) (sum_list hs + item_len it)" by (simp add: untouched_def)
  then have u0: "untouched p ?q0 (sum_list hs) (sum_list hs + item_len it) (sum_list hs + item_len it)"
    by (rule untouched_put) (use len(1) size in simp_all)
  have "untouched ?q0 (put_item ?q0 (sum_list hs) it) (sum_list hs + 8) (sum_list hs + item_len it) (sum_list hs + item_len it)"
    by (rule put_untouched(1) [OF assms(2)]) (use size in simp_all)
  then have u1: "untouched ?q0 (put_item ?q0 (sum_list hs) it) (sum_list hs) (sum_list hs + item_len it) (sum_list hs + item_len it)"
    by (rule untouched_mono) simp_all
  have wf0: "pool_wf ?q0" using ok by (simp add: log_ok_def)
  show ?thesis
  proof (rule that [of ?q0])
    show "log_ok (put_item ?q0 (sum_list hs) it) (hs @ [item_len it])"
      by (rule put_log_ok(1) [OF ok _ assms(2)]) (use size in simp_all)
  qed (use run wf0 put_item_holds [OF assms(2) wf0] untouched_trans [OF u0 u1] in \<open>simp_all add: mehcached_pool_allocate_def\<close>)
qed

lemma store_new_run:
  fixes ex :: u32
  assumes "table_ok t hs" and "refines t hs m" and "key_ok key kl" and "vl \<le> 1048575" and "ru8 vl \<le> length value"
    and "b = unat (mehcached_calc_bucket_index t kh)" and "i < 15"
    and "\<And>j. j < 15 \<Longrightarrow> j \<noteq> i \<Longrightarrow> MEHCACHED_TAG (get_slot t b j) \<noteq> ucast (mehcached_calc_tag kh)"
    and "sum_list hs + 2097152 + unat (pool_size (alloc t)) < 2 ^ 64"
  defines "it \<equiv> mk_item kh key kl value vl ex"
  shows "\<exists>t'. store_new b i kh key (of_nat kl) value (of_nat vl) ex t = (Done True, t')
    \<and> table_ok t' (hs @ [item_len it]) \<and> refines t' (hs @ [item_len it]) (m(key_of it \<mapsto> val_of it))
    \<and> advanced t hs t' (hs @ [item_len it]) \<and> get_slot t' b i = new_vec it hs
    \<and> live (alloc t') (hs @ [item_len it]) (new_vec it hs) it"
proof -
  have k: "kl \<le> 255" "ru8 kl \<le> length key" using assms(3) by (simp_all add: key_ok_def)
  have wf: "item_wf it" unfolding it_def by (rule mk_item_wf) (use k assms(4,5) in simp_all)
  note len = item_len_bounds [OF wf]
  have b: "b < length (buckets t)" using bucket_index_less table_ok_shape(1) [OF assms(1)] assms(6) by simp
  have sz: "unat (item_size_for (of_nat kl) (of_nat vl)) = item_len it" using item_size_for_run [OF k(1) assms(4)] by (simp add: it_def)
  have room: "sum_list hs + item_len it + unat (pool_size (alloc t)) < 2 ^ 64" using assms(9) len(2) by linarith
  obtain q0 where q0: "mehcached_pool_allocate (item_size_for (of_nat kl) (of_nat vl)) (alloc t)
        = (Done (of_nat (sum_list hs) AND MEHCACHED_ITEM_OFFSET_MASK) :: (bool, u64) outcome, q0)"
      "pool_tail q0 = of_nat (sum_list hs + item_len it)" "pool_size q0 = pool_size (alloc t)" "pool_wf q0"
    and q: "log_ok (put_item q0 (sum_list hs) it) (hs @ [item_len it])" "holds (put_item q0 (sum_list hs) it) (sum_list hs) it"
      "untouched (alloc t) (put_item q0 (sum_list hs) it) (sum_list hs) (sum_list hs + item_len it) (sum_list hs + item_len it)"
    by (rule allocate_item [OF table_ok_shape(2) [OF assms(1)] wf sz room])
  let ?q = "put_item q0 (sum_list hs) it"
  let ?u = "put_slot b i (new_vec it hs) (t\<lparr>alloc := ?q\<rparr>)"
  have hash: "it_hash it = kh" by (simp add: it_def mk_item_def)
  have inb: "in_bucket t b (it_hash it)" using assms(6) hash by (simp add: in_bucket_def)
  have tags: "\<And>j. j < 15 \<Longrightarrow> j \<noteq> i \<Longrightarrow> MEHCACHED_TAG (get_slot t b j) \<noteq> ucast (mehcached_calc_tag (it_hash it))"
    using assms(8) hash by simp
  note entries = insert_entries [OF assms(1) b assms(7) inb tags q]
  note ref = insert_refines [OF assms(1,2) b assms(7) inb tags q]
  have shape: "shape_ok ?u" using table_ok_shape(1) [OF assms(1)] by (simp add: shape_ok_changes)
  let ?bs = "swept (length (buckets ?u)) (sum_list hs div 2 ^ rshift ?u) ((sum_list hs + item_len it) div 2 ^ rshift ?u - sum_list hs div 2 ^ rshift ?u)"
  let ?t = "clean_all ?bs ?u"
  have pos: "mehcached_pool_item q0 (of_nat (sum_list hs) AND MEHCACHED_ITEM_OFFSET_MASK) = sum_list hs mod unat (pool_size q0)"
    using pool_item_mod [OF q0(4)] masked_offset_mod [OF q0(4)] room by simp
  have set: "mehcached_set_item (sum_list hs mod unat (pool_size q0)) kh key (of_nat kl) value (of_nat vl) ex (t\<lparr>alloc := q0\<rparr>)
      = (Done () :: (bool, unit) outcome, t\<lparr>alloc := ?q\<rparr>)"
    using set_item_run [of "t\<lparr>alloc := q0\<rparr>" kl vl key "value" "pool_size q0" "sum_list hs" kh ex, where 'a = bool] q0(4) k assms(4,5) by (simp add: it_def)
  have clean: "mehcached_cleanup_bucket (of_nat (sum_list hs) AND MEHCACHED_ITEM_OFFSET_MASK) (of_nat (sum_list hs + item_len it)) ?u
      = (Done () :: (bool, unit) outcome, ?t)"
    by (rule cleanup_bucket_run [OF shape]) (use room len(2) in simp_all)
  have run: "store_new b i kh key (of_nat kl) value (of_nat vl) ex t = (Done True, ?t)"
    unfolding store_new_def using clean k(1) assms(4)
    by (simp add: run_steps on_alloc_run q0(1,2) pos set ucast_of_nat_u64 new_vec_def hash)
  have bound: "bound_of t = bound_of ?u" using q(3) by (simp add: bound_of_def fun_eq_iff untouched_def)
  have ok: "table_ok ?t (hs @ [item_len it])"
    by (rule sweep_ok [OF shape _ entries(2)]) (use q(1) entries(1) bound len(2) in simp_all)
  have wd: "wide ?u" using shape by (simp add: shape_ok_def)
  note slot = get_slot_clean_all [OF wd]
  have r: "refines ?t (hs @ [item_len it]) (m(key_of it \<mapsto> val_of it))"
    by (rule refines_fewer [OF ref]) (simp_all add: slot)
  have wd0: "wide (t\<lparr>alloc := ?q\<rparr>)" using table_ok_shape(3) [OF assms(1)] by (simp add: wide_def)
  note slot0 = get_slot_put_slot [OF wd0, of b i "new_vec it hs", simplified, OF b assms(7)]
  have size: "pool_size ?q = pool_size (alloc t)" using q(3) by (simp add: untouched_def)
  have fits: "item_len it + sum_list [] \<le> unat (pool_size ?q)"
    using len(2) pool_wf_size(1) [OF table_ok_wf [OF assms(1)]] size by simp
  then have "\<not> stale ?u (new_vec it hs)"
    using entry_age(2) [OF q(1) new_vec_entry(2)] len(2) by (simp add: stale_def)
  then have new: "get_slot ?t b i = new_vec it hs" using slot [of b i] b assms(7) slot0 by simp
  have live: "live (alloc ?t) (hs @ [item_len it]) (new_vec it hs) it"
    unfolding live_def by (intro exI [of _ hs] exI [of _ "item_len it"] exI [of _ "[]"]) (use new_vec_entry(2) fits q(2) in simp)
  have "MEHCACHED_ITEM_OFFSET (new_vec it hs) = of_nat (sum_list hs) AND MEHCACHED_ITEM_OFFSET_MASK"
    by (simp add: new_vec_def offset_item_vec)
  then have adv: "advanced t hs ?t (hs @ [item_len it])"
    using size len(2) slot slot0 by (simp add: advanced_def)
  show ?thesis using run ok r adv new live by blast
qed


text \<open>The slot a new key goes to: no other slot of the bucket has its tag.\<close>

lemma same_tag_result:
  "same_tag_loop is vs tag = 15 \<and> (\<forall>j \<in> set is. MEHCACHED_TAG (vs ! j) \<noteq> ucast tag)
   \<or> same_tag_loop is vs tag \<in> set is \<and> MEHCACHED_TAG (vs ! same_tag_loop is vs tag) = ucast tag"
  by (induction "is" vs tag rule: same_tag_loop.induct) (auto simp: MEHCACHED_ITEMS_PER_BUCKET_def)

lemma oldest_index: "oldest_loop is vs p i d \<in> insert i (set is)"
  by (induction "is" vs p i d rule: oldest_loop.induct) (auto simp: Let_def)

definition pick_slot :: "mehcached_table \<Rightarrow> nat \<Rightarrow> u16 \<Rightarrow> nat" where
  "pick_slot t b tag = (let same = mehcached_find_same_tag t b tag in
     if same = MEHCACHED_ITEMS_PER_BUCKET then mehcached_find_empty_or_oldest t b else same)"

lemma pick_slot_alone:
  assumes "table_ok t hs" and "b < length (buckets t)" and "(ucast tag :: u64) \<noteq> 0"
  shows "pick_slot t b tag < 15" and "j < 15 \<Longrightarrow> j \<noteq> pick_slot t b tag \<Longrightarrow> MEHCACHED_TAG (get_slot t b j) \<noteq> ucast tag"
proof -
  have apart: "tags_apart t" using assms(1) by (simp add: table_ok_def)
  have old: "mehcached_find_empty_or_oldest t b < 15"
    using oldest_index [of "[0..<15]" _ _ 0] by (force simp: mehcached_find_empty_or_oldest_def MEHCACHED_ITEMS_PER_BUCKET_def)
  let ?s = "mehcached_find_same_tag t b tag"
  consider (none) "?s = 15" "\<forall>j < 15. MEHCACHED_TAG (get_slot t b j) \<noteq> ucast tag"
    | (some) "?s < 15" "MEHCACHED_TAG (get_slot t b ?s) = ucast tag"
    using same_tag_result [of "[0..<15]" "item_vec (buckets t ! b)" tag]
    by (auto simp: mehcached_find_same_tag_def MEHCACHED_ITEMS_PER_BUCKET_def get_slot_def)
  then have "pick_slot t b tag < 15 \<and> (j < 15 \<longrightarrow> j \<noteq> pick_slot t b tag \<longrightarrow> MEHCACHED_TAG (get_slot t b j) \<noteq> ucast tag)"
  proof cases
    case none
    then show ?thesis using old by (simp add: pick_slot_def MEHCACHED_ITEMS_PER_BUCKET_def)
  next
    case some
    have nz: "MEHCACHED_TAG v = ucast tag \<Longrightarrow> v \<noteq> 0" for v using assms(3) by (auto simp: MEHCACHED_TAG_def)
    show ?thesis
      using some apart assms(2) nz by (auto simp: pick_slot_def MEHCACHED_ITEMS_PER_BUCKET_def tags_apart_def)
  qed
  then show "pick_slot t b tag < 15" "j < 15 \<Longrightarrow> j \<noteq> pick_slot t b tag \<Longrightarrow> MEHCACHED_TAG (get_slot t b j) \<noteq> ucast tag" by simp_all
qed

text \<open>What storing achieves: the key is live afterwards.\<close>

definition stored :: "mehcached_table \<Rightarrow> nat list \<Rightarrow> u64 \<times> nat \<times> u8 list \<Rightarrow> bool" where
  "stored t hs k \<longleftrightarrow> (\<exists>b < length (buckets t). \<exists>i < 15. \<exists>it. get_slot t b i \<noteq> 0 \<and> live (alloc t) hs (get_slot t b i) it \<and> key_of it = k)"

definition set_ok :: "mica_call \<Rightarrow> mehcached_table \<Rightarrow> nat list \<Rightarrow> cache \<Rightarrow> u64 \<times> nat \<times> u8 list \<Rightarrow> bool" where
  "set_ok c t hs m k \<longleftrightarrow> (\<exists>r t' hs' m'. mica_do c t = (Done (RBool r), t') \<and> mica_spec c (RBool r) m = Some m'
     \<and> table_ok t' hs' \<and> refines t' hs' m' \<and> advanced t hs t' hs' \<and> (r \<longrightarrow> stored t' hs' k))"

lemma mk_item_ids: "key_of (mk_item kh key kl value vl ex) = key_id kh key kl"
  "val_of (mk_item kh key kl value vl ex) = (vl, take (ru8 vl) value, ex)"
  by (simp_all add: mk_item_def key_of_def val_of_def key_id_def)


lemma store_set_ok:
  assumes "table_ok t hs" and "refines t hs m" and "key_ok key kl" and "vl \<le> 1048575" and "ru8 vl \<le> length value"
    and "b = unat (mehcached_calc_bucket_index t kh)" and "i < 15"
    and "\<And>j. j < 15 \<Longrightarrow> j \<noteq> i \<Longrightarrow> MEHCACHED_TAG (get_slot t b j) \<noteq> ucast (mehcached_calc_tag kh)"
    and "sum_list hs + 2097152 + unat (pool_size (alloc t)) < 2 ^ 64"
    and "mehcached_set 0 kh key (of_nat kl) value (of_nat vl) ex ow t = store_new b i kh key (of_nat kl) value (of_nat vl) ex t"
  shows "set_ok (CSet kh key kl value vl ex ow) t hs m (key_id kh key kl)"
proof -
  let ?it = "mk_item kh key kl value vl ex"
  obtain t' where t': "store_new b i kh key (of_nat kl) value (of_nat vl) ex t = (Done True, t')"
    "table_ok t' (hs @ [item_len ?it])" "refines t' (hs @ [item_len ?it]) (m(key_of ?it \<mapsto> val_of ?it))"
    "advanced t hs t' (hs @ [item_len ?it])" "get_slot t' b i = new_vec ?it hs" "live (alloc t') (hs @ [item_len ?it]) (new_vec ?it hs) ?it"
    using store_new_run [OF assms(1-9), of ex] by blast
  have b: "b < length (buckets t')"
    using bucket_index_less table_ok_shape(1) [OF assms(1)] assms(6) t'(4) by (simp add: advanced_def)
  have go: "mica_do (CSet kh key kl value vl ex ow) t = (Done (RBool True), t')" using t'(1) assms(10) by (simp add: do_call)
  have sp: "mica_spec (CSet kh key kl value vl ex ow) (RBool True) m = Some (m(key_of ?it \<mapsto> val_of ?it))" by (simp add: mk_item_ids)
  have "get_slot t' b i \<noteq> 0" using tag_nonzero new_vec_entry(1) t'(5) by metis
  then have "stored t' (hs @ [item_len ?it]) (key_id kh key kl)"
    unfolding stored_def using b assms(7) t'(5,6) mk_item_ids(1) by metis
  then show ?thesis unfolding set_ok_def using go sp t'(2-4) by blast
qed

lemma set_missing_run:
  assumes "table_ok t hs" and "key_ok key kl" and "vl \<le> 1048575" and "b = unat (mehcached_calc_bucket_index t kh)"
    and "mehcached_find_item_index b kh (mehcached_calc_tag kh) key (of_nat kl) t = (Done 15 :: (bool, nat) outcome, t)"
  shows "mehcached_set 0 kh key (of_nat kl) value (of_nat vl) ex ow t
    = store_new b (pick_slot t b (mehcached_calc_tag kh)) kh key (of_nat kl) value (of_nat vl) ex t"
  using assms(2,3,5) unfolding mehcached_set_def assms(4)
  by (simp add: run_steps locate_run [OF table_ok_shape(1) [OF assms(1)]] key_ok_def key_length_assert value_length_assert
      MEHCACHED_ITEMS_PER_BUCKET_def pick_slot_def Let_def)

lemma set_found_run:
  assumes "table_ok t hs" and "key_ok key kl" and "vl \<le> 1048575" and "b = unat (mehcached_calc_bucket_index t kh)" and "i < 15"
    and "mehcached_find_item_index b kh (mehcached_calc_tag kh) key (of_nat kl) t = (Done i :: (bool, nat) outcome, t)"
  shows "mehcached_set 0 kh key (of_nat kl) value (of_nat vl) ex ow t
    = (if ow then bnd (set_in_place b i (item_size_for (of_nat kl) (of_nat vl)) value (of_nat vl) ex)
          (\<lambda>_. store_new b i kh key (of_nat kl) value (of_nat vl) ex) t else (Exit False, t))"
  using assms(2,3,5,6) unfolding mehcached_set_def assms(4)
  by (simp add: run_steps bnd_exit locate_run [OF table_ok_shape(1) [OF assms(1)]] key_ok_def key_length_assert value_length_assert
      MEHCACHED_ITEMS_PER_BUCKET_def Let_def)


lemma in_place_invalid:
  "\<not> mehcached_pool_is_valid (alloc t) (MEHCACHED_ITEM_OFFSET (get_slot t b i)) \<Longrightarrow> set_in_place b i sz value vl ex t = (Done (), t)"
  by (simp add: set_in_place_def run_steps whenM_def)

lemma in_place_run:
  fixes kh :: u64 and key :: "u8 list" and ex :: u32
  assumes "table_ok t hs" and "kl \<le> 255" and "vl \<le> 1048575" and "ru8 vl \<le> length value"
    and "entry_at hs (get_slot t b i) xs n ys" and "n + sum_list ys \<le> unat (pool_size (alloc t))"
    and "mehcached_pool_is_valid (alloc t) (MEHCACHED_ITEM_OFFSET (get_slot t b i))"
    and "MEHCACHED_KEY_LENGTH (kv_at (alloc t) (sum_list xs)) = of_nat kl"
  defines "it \<equiv> mk_item kh key kl value vl ex"
  shows "set_in_place b i (item_size_for (of_nat kl) (of_nat vl)) value (of_nat vl) ex t
    = (if item_len it \<le> n then (Exit True, t\<lparr>alloc := put_value (alloc t) (sum_list xs) it\<rparr>) else (Done (), t))"
proof -
  note lo = table_ok_shape(2) [OF assms(1)] and wf = table_ok_wf [OF assms(1)]
  have hs: "hs = xs @ n # ys" using assms(5) by (simp add: entry_at_def)
  have n: "n \<le> 2097152" using lo hs by (simp add: log_ok_def log_sizes_ok_def)
  have "log_bytes (alloc t) (sum_list xs) 8 = le_enc 8 (of_nat n :: u64)"
    using lo hs assms(6) by (simp add: log_ok_def log_headers_ok_def)
  then have load: "item_load (sum_list xs mod unat (pool_size (alloc t))) 8 t = (Done (of_nat n :: u64) :: (bool, u64) outcome, t)"
    using item_load_log [OF wf, of 0 8 "sum_list xs", where 'a = bool and 'b = 64] by (simp add: le_dec_enc)
  have sz: "(of_nat n :: u64) \<ge> ucast (item_size_for (of_nat kl) (of_nat vl)) \<longleftrightarrow> item_len it \<le> n"
    using item_size_for_run [OF assms(2,3)] n ru8_key [OF assms(2)] ru8_value [OF assms(3)] by (simp add: it_def word_le_nat_alt unat_u64_of_nat unsigned_ucast_eq take_bit_nat_eq_self)
  have set: "mehcached_set_item_value (sum_list xs mod unat (pool_size (alloc t))) value (of_nat vl) ex t
      = (Done () :: (bool, unit) outcome, t\<lparr>alloc := put_value (alloc t) (sum_list xs) it\<rparr>)"
    unfolding it_def by (rule set_item_value_run [OF wf assms(2-4,8) refl])
  have u: "(ucast (of_nat vl :: u64) :: u32) = of_nat vl" using assms(3) by (simp add: ucast_of_nat_u64)
  show ?thesis
    unfolding set_in_place_def found_words(1) [OF assms(1,5)]
    by (simp add: run_steps bnd_exit found_words(1) [OF assms(1,5)] assms(7) load sz set u whenM_def exit_with_def)
qed

lemma replace_in_place:
  assumes "table_ok t hs" and "refines t hs m" and "b < length (buckets t)" and "i < 15" and "get_slot t b i \<noteq> 0"
    and "entry_at hs (get_slot t b i) xs n ys" and "n + sum_list ys \<le> unat (pool_size (alloc t))"
    and "item_len old \<le> n" and "holds (alloc t) (sum_list xs) old" and "item_wf it" and "item_len it \<le> n" and "key_of it = key_of old"
  defines "u \<equiv> t\<lparr>alloc := put_value (alloc t) (sum_list xs) it\<rparr>"
  shows "table_ok u hs" and "refines u hs (m(key_of it \<mapsto> val_of it))" and "advanced t hs u hs" and "stored u hs (key_of it)"
proof -
  let ?q = "put_value (alloc t) (sum_list xs) it"
  have hs: "hs = xs @ n # ys" using assms(6) by (simp add: entry_at_def)
  have same: "it_hash it = it_hash old" "it_klen it = it_klen old" "it_key it = it_key old" using assms(12) by (simp_all add: key_of_def)
  have ok: "log_ok ?q hs" using put_log_ok(2) table_ok_shape(2) [OF assms(1)] hs assms(7,10,11) by simp
  have h: "holds ?q (sum_list xs) it" by (rule put_value_holds [OF assms(10) table_ok_wf [OF assms(1)] assms(9) same])
  have un: "untouched (alloc t) ?q (sum_list xs + 8) (sum_list xs + n) (sum_list hs)"
    by (rule put_untouched(2) [OF assms(10)]) (use hs assms(7,11) in simp_all)
  show "table_ok u hs" unfolding u_def by (rule rewrite_entries [OF assms(1,6,9) same(1) assms(11) ok h un])
  show "refines u hs (m(key_of it \<mapsto> val_of it))"
    unfolding u_def by (rule rewrite_refines [OF assms(1-7,9,8,12) ok h un])
  have size: "pool_size ?q = pool_size (alloc t)" using un by (simp add: untouched_def)
  then show "advanced t hs u hs" by (simp add: advanced_def u_def)
  have "live ?q hs (get_slot t b i) it" unfolding live_def using assms(6,7,11) size h by auto
  then show "stored u hs (key_of it)" unfolding stored_def u_def using assms(3-5) by auto
qed

lemma set_run:
  assumes "table_ok t hs" and "refines t hs m" and "call_ok (CSet kh key kl value vl ex ow)"
    and "sum_list hs + 2097152 + unat (pool_size (alloc t)) < 2 ^ 64"
  shows "set_ok (CSet kh key kl value vl ex ow) t hs m (key_id kh key kl)"
proof -
  define b where b_def: "b = unat (mehcached_calc_bucket_index t kh)"
  have k: "key_ok key kl" "kl \<le> 255" "ru8 kl \<le> length key" and v: "vl \<le> 1048575" "ru8 vl \<le> length value"
    using assms(3) by (simp_all add: key_ok_def)
  have b: "b < length (buckets t)" using bucket_index_less table_ok_shape(1) [OF assms(1)] by (simp add: b_def)
  have tag: "(ucast (mehcached_calc_tag kh) :: u64) \<noteq> 0"
    using calc_tag_pos [of kh] ucast_tag_inj [of "mehcached_calc_tag kh" 0] by auto
  note store = store_set_ok [OF assms(1,2) k(1) v b_def _ _ assms(4)]
  show ?thesis
  proof (cases rule: find_item_index_log [OF table_ok_wf [OF assms(1)] k(2,3), of b kh "mehcached_calc_tag kh",
      where 'r = bool, case_names missing found])
    case missing
    show ?thesis
      by (rule store [OF _ _ set_missing_run [OF assms(1) k(1) v(1) b_def missing(1)]]) (fact pick_slot_alone [OF assms(1) b tag])+
  next
    case (found i)
    note run = set_found_run [OF assms(1) k(1) v(1) b_def found(1,2), of "value" ex ow]
    have alone: "MEHCACHED_TAG (get_slot t b j) \<noteq> ucast (mehcached_calc_tag kh)" if "j < 15" "j \<noteq> i" for j
      using assms(1) b found(1,3) that tag_nonzero [OF found(3)] tag unfolding table_ok_def tags_apart_def by (metis tag_nonzero)
    show ?thesis
    proof (cases ow)
      case False
      then have "mica_do (CSet kh key kl value vl ex ow) t = (Done (RBool False), t)" using run by (simp add: do_call)
      then show ?thesis unfolding set_ok_def using False assms(1,2) advanced_refl by fastforce
    next
      case ow: True
      show ?thesis
      proof (cases "mehcached_pool_is_valid (alloc t) (MEHCACHED_ITEM_OFFSET (get_slot t b i))")
        case False
        show ?thesis by (rule store [OF found(1) alone]) (use run ow in \<open>simp_all add: run_steps in_place_invalid [OF False]\<close>)
      next
        case True
        obtain xs n ys old where e: "entry_at hs (get_slot t b i) xs n ys" "n + sum_list ys \<le> unat (pool_size (alloc t))"
          and old: "item_len old \<le> n" "holds (alloc t) (sum_list xs) old" "key_of old = key_id kh key kl" and v0: "get_slot t b i \<noteq> 0"
          by (rule found_live [OF assms(1,2) k(1) b_def found(1,3,4) True])
        let ?it = "mk_item kh key kl value vl ex"
        have "MEHCACHED_KEY_LENGTH (kv_at (alloc t) (sum_list xs)) = of_nat kl"
          using holds_words(3) [OF old(2)] old(3) by (simp add: key_of_def key_id_def)
        note place = in_place_run [OF assms(1) k(2) v e True this, of ex kh key]
        show ?thesis
        proof (cases "item_len ?it \<le> n")
          case False
          then show ?thesis using run ow by (intro store [OF found(1) alone]) (simp_all add: run_steps place)
        next
          case True
          have wf: "item_wf ?it" by (rule mk_item_wf) (use k v in simp_all)
          note rep = replace_in_place [OF assms(1,2) b found(1) v0 e old(1,2) wf True, unfolded mk_item_ids, OF old(3) [symmetric]]
          have go: "mica_do (CSet kh key kl value vl ex ow) t = (Done (RBool True), t\<lparr>alloc := put_value (alloc t) (sum_list xs) ?it\<rparr>)"
            using run ow place True by (simp add: do_call bnd_exit)
          have "mica_spec (CSet kh key kl value vl ex ow) (RBool True) m = Some (m(key_id kh key kl \<mapsto> (vl, take (ru8 vl) value, ex)))" by simp
          then show ?thesis unfolding set_ok_def using go rep by blast
        qed
      qed
    qed
  qed
qed

lemma step_set:
  assumes "table_ok t hs" and "refines t hs m" and "call_ok (CSet kh key kl value vl ex ow)"
    and "sum_list hs + 2097152 + unat (pool_size (alloc t)) < 2 ^ 64"
  shows "step_ok (CSet kh key kl value vl ex ow) t hs m"
  using set_run [OF assms] unfolding set_ok_def step_ok_def by blast

end
