(* ===== verification/Mica_Runs.thy ===== *)
theory Mica_Runs
  imports Mica_Refine
begin

text \<open>
  Sequences of calls to the MICA table: from a table that is \<^verbatim>\<open>ready\<close> every sequence of calls returns and
  its results are those of the cache, a key that was stored is found, and a key with the same
  bucket and tag as one just stored is gone.
\<close>

section \<open>Sequences of calls\<close>

fun mica_calls :: "mica_call list \<Rightarrow> (mehcached_table, unit, mica_result list) body" where
  "mica_calls [] = ret []"
| "mica_calls (c # cs) = bnd (mica_do c) (\<lambda>r. bnd (mica_calls cs) (\<lambda>rs. ret (r # rs)))"

fun spec_run :: "mica_call list \<Rightarrow> mica_result list \<Rightarrow> cache \<Rightarrow> cache option" where
  "spec_run [] [] m = Some m"
| "spec_run (c # cs) (r # rs) m = Option.bind (mica_spec c r m) (spec_run cs rs)"
| "spec_run _ _ m = None"

definition ready :: "mehcached_table \<Rightarrow> nat list \<Rightarrow> cache \<Rightarrow> bool" where
  "ready t hs m \<longleftrightarrow> table_ok t hs \<and> refines t hs m \<and> fifo t"

lemma fifo_advanced:
  assumes "table_ok t hs" and "fifo t" and "table_ok t' hs'" and "advanced t hs t' hs'"
  shows "fifo t'"
  using assms(2,4) table_ok_wf [OF assms(1)] table_ok_wf [OF assms(3)] by (auto simp: fifo_def advanced_def pool_wf_def)

lemma ready_step:
  assumes "ready t hs m" and "call_ok c" and "sum_list hs + 2097152 + unat (pool_size (alloc t)) < 2 ^ 64"
  obtains r t' hs' m' where "mica_do c t = (Done r, t')" and "mica_spec c r m = Some m'" and "ready t' hs' m'" and "advanced t hs t' hs'"
proof -
  have a: "table_ok t hs" "refines t hs m" "fifo t" using assms(1) by (simp_all add: ready_def)
  have "step_ok c t hs m"
    using step_set step_get step_test step_delete step_increment a assms(2,3) by (cases c) simp_all
  then obtain r t' hs' m' where "mica_do c t = (Done r, t')" "mica_spec c r m = Some m'" "table_ok t' hs'" "refines t' hs' m'" "advanced t hs t' hs'"
    unfolding step_ok_def by blast
  then show ?thesis using that fifo_advanced [OF a(1,3)] by (simp add: ready_def)
qed

lemma advanced_grows: "advanced t hs t' hs' \<Longrightarrow> sum_list hs' \<le> sum_list hs + 2097152"
  by (auto simp: advanced_def)

lemma ready_calls:
  assumes "ready t hs m" and "list_all call_ok cs" and "sum_list hs + length cs * 2097152 + unat (pool_size (alloc t)) < 2 ^ 64"
  obtains rs t' hs' m' where "mica_calls cs t = (Done rs, t')" and "spec_run cs rs m = Some m'" and "ready t' hs' m'"
    and "sum_list hs' \<le> sum_list hs + length cs * 2097152" and "pool_size (alloc t') = pool_size (alloc t)"
  using assms
proof (induction cs arbitrary: t hs m thesis)
  case Nil
  show ?case by (rule Nil.prems(1) [of "[]" t m hs]) (use Nil.prems in \<open>simp_all add: ret_def\<close>)
next
  case (Cons c cs)
  have ok: "call_ok c" "list_all call_ok cs" and room: "sum_list hs + 2097152 + unat (pool_size (alloc t)) < 2 ^ 64"
    using Cons.prems(3,4) by simp_all
  obtain r t1 hs1 m1 where one: "mica_do c t = (Done r, t1)" "mica_spec c r m = Some m1" "ready t1 hs1 m1" "advanced t hs t1 hs1"
    by (rule ready_step [OF Cons.prems(2) ok(1) room])
  have size: "pool_size (alloc t1) = pool_size (alloc t)" using one(4) by (simp add: advanced_def)
  have "sum_list hs1 + length cs * 2097152 + unat (pool_size (alloc t1)) < 2 ^ 64"
    using Cons.prems(4) advanced_grows [OF one(4)] size by simp
  then obtain rs t' hs' m' where rest: "mica_calls cs t1 = (Done rs, t')" "spec_run cs rs m1 = Some m'" "ready t' hs' m'"
    "sum_list hs' \<le> sum_list hs1 + length cs * 2097152" "pool_size (alloc t') = pool_size (alloc t1)"
    using Cons.IH [OF _ one(3) ok(2)] by blast
  show ?case
    by (rule Cons.prems(1) [of "r # rs" t' m' hs'])
      (use one rest size advanced_grows [OF one(4)] in \<open>simp_all add: bnd_run ret_def\<close>)
qed

lemma reset_ready:
  assumes "shape_ok t" and "pool_wf (alloc t)" and "fifo t"
  shows "ready (mehcached_table_reset t) [] Map.empty"
proof -
  have slot: "get_slot (mehcached_table_reset t) b i = 0" if "b < length (buckets t)" "i < 15" for b i
    using that by (simp add: get_slot_def mehcached_table_reset_def empty_bucket_def MEHCACHED_ITEMS_PER_BUCKET_def)
  have "unat (pool_size (alloc t)) < 2 ^ 64" by (rule unat_u64_less)
  then have "log_ok (alloc (mehcached_table_reset t)) []"
    using assms(2) by (simp add: log_ok_def log_sizes_ok_def log_head_ok_def log_headers_ok_def pool_wf_def
        mehcached_table_reset_def mehcached_pool_reset_def)
  moreover have "shape_ok (mehcached_table_reset t)"
    using assms(1) by (auto simp: shape_ok_def wide_def mehcached_table_reset_def empty_bucket_def MEHCACHED_ITEMS_PER_BUCKET_def)
  moreover have "fifo (mehcached_table_reset t)"
    using assms(3) by (simp add: fifo_def mehcached_table_reset_def mehcached_pool_reset_def)
  moreover have len: "length (buckets (mehcached_table_reset t)) = length (buckets t)" by (simp add: mehcached_table_reset_def)
  ultimately show ?thesis
    using slot by (simp add: ready_def table_ok_def entries_ok_def tags_apart_def refines_def)
qed

section \<open>A stored key\<close>

lemma stored_slot:
  assumes "table_ok t hs" and "stored t hs (kh, kl, key)"
  obtains i it where "i < 15" and "MEHCACHED_TAG (get_slot t (unat (mehcached_calc_bucket_index t kh)) i) = ucast (mehcached_calc_tag kh)"
    and "live (alloc t) hs (get_slot t (unat (mehcached_calc_bucket_index t kh)) i) it" and "key_of it = (kh, kl, key)"
    and "mehcached_pool_is_valid (alloc t) (MEHCACHED_ITEM_OFFSET (get_slot t (unat (mehcached_calc_bucket_index t kh)) i))"
proof -
  obtain b i it where s: "b < length (buckets t)" "i < 15" "get_slot t b i \<noteq> 0" "live (alloc t) hs (get_slot t b i) it" "key_of it = (kh, kl, key)"
    using assms(2) unfolding stored_def by blast
  have h: "it_hash it = kh" using s(5) by (simp add: key_of_def)
  have at: "b = unat (mehcached_calc_bucket_index t kh)" "MEHCACHED_TAG (get_slot t b i) = ucast (mehcached_calc_tag kh)"
    using live_slot [OF assms(1) s(1-4)] h by (simp_all add: in_bucket_def)
  obtain xs n ys where e: "entry_at hs (get_slot t b i) xs n ys" "n + sum_list ys \<le> unat (pool_size (alloc t))"
    using s(4) by (auto simp: live_def)
  have "unat (pool_size (alloc t)) < 2 ^ 48" using table_ok_wf [OF assms(1)] pool_wf_size(2) by fastforce
  then have "mehcached_pool_is_valid (alloc t) (MEHCACHED_ITEM_OFFSET (get_slot t b i))"
    using entry_age(2) [OF table_ok_shape(2) [OF assms(1)] e(1)] e(2) by simp
  then show ?thesis using that s(2,4,5) at by simp
qed

lemma same_tag_same_slot:
  assumes "table_ok t hs" and "i < 15" and "j < 15" and "MEHCACHED_TAG (get_slot t (unat (mehcached_calc_bucket_index t kh)) i) = ucast (mehcached_calc_tag kh)"
    and "MEHCACHED_TAG (get_slot t (unat (mehcached_calc_bucket_index t kh)) j) = ucast (mehcached_calc_tag kh)"
  shows "i = j"
  using assms(1-5) bucket_index_less [OF table_ok_shape(1) [OF assms(1)], of kh] tag_nonzero [OF assms(4)] tag_nonzero [OF assms(5)]
  unfolding table_ok_def tags_apart_def by metis

lemma get_stored:
  assumes "ready t hs m" and "stored t hs (key_id kh key kl)" and "call_ok (CGet kh key kl cap ro)" and "m (key_id kh key kl) = Some (vl, val, ex)"
  shows "mica_do (CGet kh key kl cap ro) t = (Done (RValue (Some (take (ru8 (min vl cap)) val, of_nat (min vl cap), ex))), t)"
proof -
  have a: "table_ok t hs" "refines t hs m" "fifo t" using assms(1) by (simp_all add: ready_def)
  have k: "key_ok key kl" "kl \<le> 255" "ru8 kl \<le> length key" "cap \<le> 1500" using assms(3) by (simp_all add: key_ok_def)
  define b where b_def: "b = unat (mehcached_calc_bucket_index t kh)"
  obtain i it where s: "i < 15" "MEHCACHED_TAG (get_slot t b i) = ucast (mehcached_calc_tag kh)" "live (alloc t) hs (get_slot t b i) it"
    "key_of it = key_id kh key kl" "mehcached_pool_is_valid (alloc t) (MEHCACHED_ITEM_OFFSET (get_slot t b i))"
    using stored_slot [OF a(1)] assms(2) unfolding key_id_def b_def by metis
  have key: "key_at (alloc t) (unat (MEHCACHED_ITEM_OFFSET (get_slot t b i))) kh key kl"
    using live_key_at [OF table_ok_shape(2) [OF a(1)] s(3) k(1)] s(4) by simp
  show ?thesis
  proof (cases rule: find_item_index_log [OF table_ok_wf [OF a(1)] k(2,3), of b kh "mehcached_calc_tag kh",
      where 'r = "(u8 list \<times> u64 \<times> u32) option", case_names missing found])
    case missing
    then show ?thesis using s(1,2) key by blast
  next
    case (found j)
    have "j = i" using same_tag_same_slot [OF a(1) found(1) s(1)] found(3) s(2) by (simp add: b_def)
    then have "mehcached_pool_is_valid (alloc t) (MEHCACHED_ITEM_OFFSET (get_slot t b j))" using s(5) by simp
    then obtain vl' val' ex' where "m (key_id kh key kl) = Some (vl', val', ex')"
      "mica_do (CGet kh key kl cap ro) t = (Done (RValue (Some (take (ru8 (min vl' cap)) val', of_nat (min vl' cap), ex'))), t)"
      by (rule get_live_run [OF a(1,2) k(1,4) a(3) b_def found])
    then show ?thesis using assms(4) by simp
  qed
qed

text \<open>A bucket has one slot for each tag: a stored key excludes every other key with the same bucket
  and tag.\<close>

lemma get_excluded:
  assumes "table_ok t hs" and "stored t hs (kh, kl, key)" and "call_ok (CGet kh' key' kl' cap ro)" and "key_id kh' key' kl' \<noteq> (kh, kl, key)"
    and "mehcached_calc_bucket_index t kh' = mehcached_calc_bucket_index t kh" and "mehcached_calc_tag kh' = mehcached_calc_tag kh"
  shows "mica_do (CGet kh' key' kl' cap ro) t = (Done (RValue None), t)"
proof -
  have k: "key_ok key' kl'" "kl' \<le> 255" "ru8 kl' \<le> length key'" "cap \<le> 1500" using assms(3) by (simp_all add: key_ok_def)
  define b where b_def: "b = unat (mehcached_calc_bucket_index t kh')"
  obtain i it where s: "i < 15" "MEHCACHED_TAG (get_slot t b i) = ucast (mehcached_calc_tag kh')" "live (alloc t) hs (get_slot t b i) it" "key_of it = (kh, kl, key)"
    using stored_slot [OF assms(1,2)] assms(5,6) unfolding b_def by metis
  show ?thesis
  proof (cases rule: find_item_index_log [OF table_ok_wf [OF assms(1)] k(2,3), of b kh' "mehcached_calc_tag kh'",
      where 'r = "(u8 list \<times> u64 \<times> u32) option", case_names missing found])
    case missing
    then show ?thesis
      by (simp add: do_call mehcached_get_def run_steps bnd_exit locate_run [OF table_ok_shape(1) [OF assms(1)]] key_length_assert k
          MEHCACHED_ITEMS_PER_BUCKET_def b_def)
  next
    case (found j)
    have "j = i" using same_tag_same_slot [OF assms(1) found(1) s(1)] found(3) s(2) by (simp add: b_def)
    then have "key_at (alloc t) (unat (MEHCACHED_ITEM_OFFSET (get_slot t b i))) kh' key' kl'" using found(4) by simp
    then show ?thesis using live_key_at [OF table_ok_shape(2) [OF assms(1)] s(3) k(1)] s(4) assms(4) by simp
  qed
qed

text \<open>Storing with the permission to overwrite always succeeds.\<close>

lemma ready_set:
  assumes "ready t hs m" and "call_ok (CSet kh key kl value vl ex True)" and "sum_list hs + 2097152 + unat (pool_size (alloc t)) < 2 ^ 64"
  obtains t' hs' where "mica_do (CSet kh key kl value vl ex True) t = (Done (RBool True), t')"
    and "ready t' hs' (m(key_id kh key kl \<mapsto> (vl, take (ru8 vl) value, ex)))" and "stored t' hs' (key_id kh key kl)" and "advanced t hs t' hs'"
proof -
  have a: "table_ok t hs" "refines t hs m" "fifo t" using assms(1) by (simp_all add: ready_def)
  obtain r t' hs' m' where s: "mica_do (CSet kh key kl value vl ex True) t = (Done (RBool r), t')" "mica_spec (CSet kh key kl value vl ex True) (RBool r) m = Some m'"
    "table_ok t' hs'" "refines t' hs' m'" "advanced t hs t' hs'" "r \<longrightarrow> stored t' hs' (key_id kh key kl)"
    using set_run [OF a(1,2) assms(2,3)] unfolding set_ok_def by blast
  have "r" "m' = m(key_id kh key kl \<mapsto> (vl, take (ru8 vl) value, ex))" using s(2) by (simp_all split: if_splits)
  then show ?thesis using that s fifo_advanced [OF a(1,3) s(3,5)] by (simp add: ready_def)
qed

end
