(* ===== verification/Mica_Init.thy ===== *)
theory Mica_Init
  imports Complex_Main Mica_Pages Mica_Runs
begin

text \<open>
  Creating and freeing the tables of the MICA key-value store: \<^verbatim>\<open>mehcached_pool_init\<close> and
  \<^verbatim>\<open>mehcached_pool_free\<close> of \<^verbatim>\<open>alloc_pool.c\<close>, \<^verbatim>\<open>mehcached_table_init\<close> and \<^verbatim>\<open>mehcached_table_free\<close> of \<^verbatim>\<open>table.c\<close>,
  over the shared-memory manager. A table comes with the addresses of its bucket array and
  of the window of its pool. The loops that look for an address until a mapping succeeds may run for
  ever; they have fuel, and running out of it has outcome \<open>Undef\<close>. A table has one pool.
\<close>

section \<open>Pools\<close>

fun pool_map_loop :: "nat \<Rightarrow> nat \<Rightarrow> u64 \<Rightarrow> (shm, 'r, u64) body" where
  "pool_map_loop 0 shm_id sz = bnd (guardM (\<lambda>_. False)) (\<lambda>_. ret 0)"
| "pool_map_loop (Suc n) shm_id sz =
     bnd (call (mehcached_shm_find_free_address (sz + MEHCACHED_MINIMUM_POOL_SIZE))) (\<lambda>data.
     bnd (assertM (\<lambda>_. data \<noteq> 0)) (\<lambda>_.
     bnd (call (mehcached_shm_map shm_id data 0 sz)) (\<lambda>ok.
     if \<not> ok then pool_map_loop n shm_id sz
     else bnd (call (mehcached_shm_map shm_id (data + sz) 0 MEHCACHED_MINIMUM_POOL_SIZE)) (\<lambda>ok'.
       if \<not> ok' then bnd (call (mehcached_shm_unmap data)) (\<lambda>_. pool_map_loop n shm_id sz)
       else ret data))))"

text \<open>\<open>bytes\<close> is what the pages hold when they are mapped.\<close>

definition mehcached_pool_init :: "nat \<Rightarrow> (nat \<Rightarrow> u8) \<Rightarrow> u64 \<Rightarrow> bool \<Rightarrow> bool \<Rightarrow> u64 \<Rightarrow> (shm, 'r, mehcached_pool \<times> u64) body" where
  "mehcached_pool_init fuel bytes sz0 concurrent_alloc_read concurrent_alloc_write node =
     (let sz1 = mehcached_shm_adjust_size (if sz0 < MEHCACHED_MINIMUM_POOL_SIZE then MEHCACHED_MINIMUM_POOL_SIZE else sz0) in
     bnd (guardM (\<lambda>_. mehcached_next_power_of_two sz1 \<noteq> None)) (\<lambda>_.
     let sz = the (mehcached_next_power_of_two sz1) in
     bnd (assertM (\<lambda>_. sz \<le> drop_bit 1 MEHCACHED_ITEM_OFFSET_MASK)) (\<lambda>_.
     bnd (assertM (\<lambda>_. sz = mehcached_shm_adjust_size sz)) (\<lambda>_.
     bnd (call (mehcached_shm_alloc sz node)) (\<lambda>shm_id.
     bnd (assertM (\<lambda>_. shm_id \<noteq> None)) (\<lambda>_.
     bnd (pool_map_loop fuel (the shm_id) sz) (\<lambda>data.
     bnd (call (mehcached_shm_schedule_remove (the shm_id))) (\<lambda>ok.
     bnd (assertM (\<lambda>_. ok)) (\<lambda>_.
     ret (\<lparr>pool_access_mode = (if \<not> concurrent_alloc_read then 0 else if \<not> concurrent_alloc_write then 1 else 2),
           pool_lock = 0, pool_data = bytes, pool_size = sz, pool_mask = sz - 1, pool_head = 0, pool_tail = 0\<rparr>, data))))))))))"

definition mehcached_pool_free :: "mehcached_pool \<Rightarrow> u64 \<Rightarrow> (shm, 'r, unit) body" where
  "mehcached_pool_free p data =
     bnd (call (mehcached_shm_unmap data)) (\<lambda>ok. bnd (assertM (\<lambda>_. ok)) (\<lambda>_.
     bnd (call (mehcached_shm_unmap (data + pool_size p))) (\<lambda>ok. assertM (\<lambda>_. ok))))"

section \<open>Tables\<close>

fun table_map_loop :: "nat \<Rightarrow> nat \<Rightarrow> u64 \<Rightarrow> (shm, 'r, u64) body" where
  "table_map_loop 0 shm_id sz = bnd (guardM (\<lambda>_. False)) (\<lambda>_. ret 0)"
| "table_map_loop (Suc n) shm_id sz =
     bnd (call (mehcached_shm_find_free_address sz)) (\<lambda>addr.
     bnd (assertM (\<lambda>_. addr \<noteq> 0)) (\<lambda>_.
     bnd (call (mehcached_shm_map shm_id addr 0 sz)) (\<lambda>ok.
     if ok then ret addr else table_map_loop n shm_id sz)))"

fun rshift_loop :: "nat \<Rightarrow> u64 \<Rightarrow> nat \<Rightarrow> nat option" where
  "rshift_loop 0 n r = None"
| "rshift_loop (Suc k) n r = (if drop_bit r (drop_bit 1 (MEHCACHED_ITEM_OFFSET_MASK + 1)) > n then rshift_loop k n (Suc r) else Some r)"

text \<open>The loop for \<^verbatim>\<open>log_num_buckets\<close> is that of \<^verbatim>\<open>mehcached_next_power_of_two\<close>. The threshold is computed in
  floating point; the pool size is a power of two, so the product is exact.\<close>

definition mehcached_table_init :: "nat \<Rightarrow> (nat \<Rightarrow> u8) \<Rightarrow> u64 \<Rightarrow> u64 \<Rightarrow> u64 \<Rightarrow> bool \<Rightarrow> bool \<Rightarrow> bool \<Rightarrow> u64 \<Rightarrow> u64 \<Rightarrow> rat
    \<Rightarrow> (shm, 'r, mehcached_table \<times> u64 \<times> u64) body" where
  "mehcached_table_init fuel bytes num_buckets0 num_pools sz concurrent_table_read concurrent_table_write concurrent_alloc_write
     table_numa_node alloc_numa_node mth =
     bnd (assertM (\<lambda>_. num_buckets0 > 0)) (\<lambda>_.
     bnd (assertM (\<lambda>_. num_pools > 0)) (\<lambda>_.
     bnd (assertM (\<lambda>_. num_pools \<le> 16)) (\<lambda>_.
     bnd (assertM (\<lambda>_. num_pools = 1)) (\<lambda>_.
     bnd (guardM (\<lambda>_. next_power_loop 64 num_buckets0 0 \<noteq> None)) (\<lambda>_.
     let log_num_buckets = the (next_power_loop 64 num_buckets0 0); nb = (ucast (push_bit log_num_buckets 1 :: u64) :: u32) in
     bnd (assertM (\<lambda>_. log_num_buckets \<le> 32)) (\<lambda>_.
     let shm_size = mehcached_shm_adjust_size (128 * ucast (nb + 0)) in
     bnd (call (mehcached_shm_alloc shm_size table_numa_node)) (\<lambda>shm_id.
     bnd (assertM (\<lambda>_. shm_id \<noteq> None)) (\<lambda>_.
     bnd (table_map_loop fuel (the shm_id) shm_size) (\<lambda>addr.
     bnd (call (mehcached_shm_schedule_remove (the shm_id))) (\<lambda>ok.
     bnd (assertM (\<lambda>_. ok)) (\<lambda>_.
     bnd (mehcached_pool_init fuel bytes sz concurrent_table_read concurrent_alloc_write alloc_numa_node) (\<lambda>(p, data).
     bnd (guardM (\<lambda>_. rshift_loop 64 (ucast nb) 0 \<noteq> None)) (\<lambda>_.
     ret (mehcached_table_reset
           \<lparr>alloc = p, alloc_id_mask = 0, mth_threshold = of_nat (nat \<lfloor>of_nat (unat (pool_size p)) * mth\<rfloor>),
            buckets = replicate (unat nb) empty_bucket,
            table_access_mode = (if \<not> concurrent_table_read then 0 else if \<not> concurrent_table_write then 1 else 2),
            num_buckets = nb, num_buckets_mask = nb - 1, num_extra_buckets = 0, extra_bucket_head = 0,
            rshift = the (rshift_loop 64 (ucast nb) 0)\<rparr>, addr, data))))))))))))))"

definition mehcached_table_free :: "mehcached_table \<times> u64 \<times> u64 \<Rightarrow> (shm, 'r, mehcached_table) body" where
  "mehcached_table_free = (\<lambda>(t, addr, data).
     bnd (call (mehcached_shm_unmap addr)) (\<lambda>ok. bnd (assertM (\<lambda>_. ok)) (\<lambda>_.
     bnd (mehcached_pool_free (alloc t) data) (\<lambda>_.
     ret (mehcached_table_reset t)))))"

section \<open>A new table is empty and well formed\<close>

lemma bnd_DoneE:
  assumes "bnd m f s = (Done x, s')"
  obtains a s1 where "m s = (Done a, s1)" and "f a s1 = (Done x, s')"
  using assms by (auto simp: bnd_def split: prod.splits outcome.splits)

lemma check_DoneE:
  "assertM P s = (Done u, s') \<Longrightarrow> P s \<and> s' = s" "guardM P s = (Done u, s') \<Longrightarrow> P s \<and> s' = s" "ret a s = (Done x, s') \<Longrightarrow> x = a \<and> s' = s"
  by (auto simp: assertM_def guardM_def ret_def split: if_splits)

lemma next_power_loop_bounds:
  "next_power_loop n v i = Some s \<Longrightarrow> i \<le> s \<and> v \<le> push_bit s 1 \<and> (\<forall>j. i \<le> j \<and> j < s \<longrightarrow> push_bit j 1 < v)"
proof (induction n v i rule: next_power_loop.induct)
  case (2 n v i)
  show ?case
  proof (cases "push_bit i 1 < v")
    case True
    then have "Suc i \<le> s \<and> v \<le> push_bit s 1 \<and> (\<forall>j. Suc i \<le> j \<and> j < s \<longrightarrow> push_bit j 1 < v)" using 2 by simp
    then show ?thesis using True by (metis Suc_leD not_less_eq_eq order_antisym)
  next
    case False
    then have "s = i" using 2(2) by simp
    then show ?thesis using False by (auto simp: not_less)
  qed
qed simp

lemma push_bit_one: "push_bit k (1 :: 'a::len word) = 2 ^ k"
  by (simp add: push_bit_eq_mult)

lemma log_num_buckets:
  assumes "next_power_loop 64 v 0 = Some k" and "3 \<le> unat v" and "unat v \<le> 2 ^ 31"
  shows "2 \<le> k" and "k \<le> 31"
proof -
  note b = next_power_loop_bounds [OF assms(1)]
  have k: "k < 64" using next_power_loop_less [OF assms(1)] by simp
  have "unat v \<le> 2 ^ k" using b k unat_two_power_u64 [OF k] by (simp add: push_bit_one word_le_nat_alt)
  then have "\<not> k \<le> 1" using assms(2) power_increasing [of k 1 "2::nat"] by auto
  then show "2 \<le> k" by simp
  show "k \<le> 31"
  proof (rule ccontr)
    assume "\<not> k \<le> 31"
    then have "(2 ^ 31 :: u64) < v" using b by (simp add: push_bit_one flip: power_numeral)
    then show False using assms(3) unat_two_power_u64 [of 31] by (simp add: word_less_nat_alt)
  qed
qed

lemma drop_bit_power: "m < 64 \<Longrightarrow> drop_bit r (2 ^ m :: u64) = (if r \<le> m then 2 ^ (m - r) else 0)"
  by (rule bit_word_eqI) (auto simp: bit_simps)

lemma half_offsets: "drop_bit r (drop_bit 1 (MEHCACHED_ITEM_OFFSET_MASK + 1)) = (if r \<le> 47 then 2 ^ (47 - r) else 0)"
proof -
  have e: "MEHCACHED_ITEM_OFFSET_MASK + 1 = 2 ^ 48" by (simp add: MEHCACHED_ITEM_OFFSET_MASK_def push_bit_one)
  have h: "drop_bit 1 (2 ^ 48 :: u64) = 2 ^ 47" by simp
  have "(47 :: nat) < 64" by simp
  then show ?thesis unfolding e h by (rule drop_bit_power)
qed

lemma rshift_result: "k \<le> 31 \<Longrightarrow> r \<le> 47 - k \<Longrightarrow> 47 - k < r + n \<Longrightarrow> rshift_loop n (2 ^ k) r = Some (47 - k)"
proof (induction n arbitrary: r)
  case (Suc n)
  have less: "(2 :: u64) ^ k < 2 ^ (47 - r) \<longleftrightarrow> r < 47 - k"
    using Suc.prems unat_two_power_u64 [of k] unat_two_power_u64 [of "47 - r"] by (auto simp: word_less_nat_alt)
  show ?case
  proof (cases "r < 47 - k")
    case True
    then have "rshift_loop n (2 ^ k) (Suc r) = Some (47 - k)" using Suc by simp
    then show ?thesis using True less unfolding rshift_loop.simps half_offsets by simp
  next
    case False
    then have "r = 47 - k" using Suc.prems by simp
    then show ?thesis using less unfolding rshift_loop.simps half_offsets by simp
  qed
qed simp

lemma pool_init_wf:
  assumes "mehcached_pool_init fuel bytes sz0 cr cw node s = (Done (p, d), s')"
  shows "pool_wf p"
proof -
  define sz1 where "sz1 = mehcached_shm_adjust_size (if sz0 < MEHCACHED_MINIMUM_POOL_SIZE then MEHCACHED_MINIMUM_POOL_SIZE else sz0)"
  define sz where "sz = the (mehcached_next_power_of_two sz1)"
  obtain s1 where "mehcached_next_power_of_two sz1 \<noteq> None" "sz \<le> drop_bit 1 MEHCACHED_ITEM_OFFSET_MASK" "sz = mehcached_shm_adjust_size sz"
    using assms unfolding mehcached_pool_init_def Let_def sz1_def [symmetric] sz_def [symmetric]
    by (elim bnd_DoneE) (blast dest: check_DoneE)
  moreover have "pool_size p = sz \<and> pool_mask p = sz - 1"
    using assms unfolding mehcached_pool_init_def Let_def sz1_def [symmetric] sz_def [symmetric]
    by (elim bnd_DoneE) (drule check_DoneE(3), simp)
  ultimately have a: "mehcached_next_power_of_two sz1 \<noteq> None" "sz \<le> drop_bit 1 MEHCACHED_ITEM_OFFSET_MASK" "sz = mehcached_shm_adjust_size sz"
      "pool_size p = sz" "pool_mask p = sz - 1" by blast+
  obtain k where k: "next_power_loop 64 sz1 0 = Some k" "sz = 2 ^ k"
    using a(1) by (auto simp: sz_def mehcached_next_power_of_two_def push_bit_one)
  have k64: "k < 64" using next_power_loop_less [OF k(1)] by simp
  have "sz = (sz + 2097151) AND NOT 2097151" using a(3) unfolding mehcached_shm_adjust_size_def MEHCACHED_ROUNDUP2M_def .
  then have "sz AND NOT 2097151 = sz" by (metis and.assoc and.idem)
  then have "sz AND NOT (2 ^ 21 - 1) = sz" by simp
  then have "2 ^ 21 dvd (2 :: nat) ^ k" using aligned_dvd [of 21 sz] k(2) unat_two_power_u64 [OF k64] by simp
  then have "21 \<le> k" by (metis dvd_power_iff_le order_refl)
  moreover have "k \<le> 46"
  proof -
    have "unat (2 ^ k :: u64) \<le> unat (2 ^ 47 - 1 :: u64)"
      using a(2) k(2) by (simp add: MEHCACHED_ITEM_OFFSET_MASK_def push_bit_one word_le_nat_alt drop_bit_eq_div)
    then have "(2 :: nat) ^ k < 2 ^ 47" using unat_two_power_u64 [OF k64] by simp
    then have "k < 47" by (rule power_less_imp_less_exp [rotated]) simp
    then show ?thesis by simp
  qed
  ultimately show ?thesis using a(4,5) k(2) by (auto simp: pool_wf_def)
qed

lemma table_init_ready:
  assumes "mehcached_table_init fuel bytes nb0 np sz cr cw aw tn an 1 s = (Done (t, addr, data), s')"
    and "3 \<le> unat nb0" and "unat nb0 \<le> 2 ^ 31"
  shows "ready t [] Map.empty"
proof -
  define k where "k = the (next_power_loop 64 nb0 0)"
  obtain p s1 s2 where pool: "mehcached_pool_init fuel bytes sz cr aw an s1 = (Done (p, data) :: ('a, mehcached_pool \<times> u64) outcome, s2)"
    and k: "next_power_loop 64 nb0 0 = Some k"
    and t: "t = mehcached_table_reset
           \<lparr>alloc = p, alloc_id_mask = 0, mth_threshold = of_nat (nat \<lfloor>of_nat (unat (pool_size p)) * (1 :: rat)\<rfloor>),
            buckets = replicate (unat (ucast (push_bit k 1 :: u64) :: u32)) empty_bucket,
            table_access_mode = (if \<not> cr then 0 else if \<not> cw then 1 else 2),
            num_buckets = ucast (push_bit k 1 :: u64), num_buckets_mask = ucast (push_bit k 1 :: u64) - 1, num_extra_buckets = 0, extra_bucket_head = 0,
            rshift = the (rshift_loop 64 (ucast (ucast (push_bit k 1 :: u64) :: u32)) 0)\<rparr>" (is "t = mehcached_table_reset ?t")
    using assms(1) unfolding mehcached_table_init_def Let_def k_def
    by (elim bnd_DoneE) (auto dest!: check_DoneE elim!: bnd_DoneE)
  note k' = log_num_buckets [OF k assms(2,3)]
  have nb: "(ucast (push_bit k 1 :: u64) :: u32) = 2 ^ k" using k' unfolding push_bit_one by (intro bit_word_eqI) (auto simp: bit_simps)
  have un: "unat (2 ^ k :: u32) = 2 ^ k"
    using k' power_strict_increasing [of k 32 "2 :: nat"] unat_of_nat [of "2 ^ k", where 'a = 32] by (simp add: take_bit_nat_eq_self)
  have up: "(ucast (2 ^ k :: u32) :: u64) = 2 ^ k" using k' by (intro bit_word_eqI) (auto simp: bit_simps)
  have wf: "pool_wf p" by (rule pool_init_wf [OF pool])
  have "shape_ok ?t"
    unfolding shape_ok_def nb un up using k' rshift_result [of k 0 64]
    by (intro conjI exI [of _ k]) (simp_all add: wide_def empty_bucket_def MEHCACHED_ITEMS_PER_BUCKET_def)
  moreover have "fifo ?t"
  proof -
    have "pool_mask p = pool_size p - 1" "pool_size p \<noteq> 0" using wf by (auto simp: pool_wf_def)
    then have "pool_mask p \<le> pool_size p" by (simp add: word_le_nat_alt unat_minus_one)
    moreover have th: "nat \<lfloor>of_nat (unat (pool_size p)) * (1 :: rat)\<rfloor> = unat (pool_size p)" by (metis floor_of_nat mult.right_neutral nat_int)
    ultimately show ?thesis unfolding fifo_def th by simp
  qed
  ultimately show ?thesis unfolding t using wf by (intro reset_ready) simp_all
qed

end
