(* ===== verification/Mica_Server.thy ===== *)
theory Mica_Server
  imports Mica_Init "HOL-Library.Multiset"
begin

text \<open>
  The hash functions (\<^verbatim>\<open>hash.c\<close>, \<^verbatim>\<open>hash.h\<close>) and the RPC handlers of the MICA server (\<^verbatim>\<open>mica_server.cc\<close>) on top
  of the table. A partition belongs to the thread that serves it, so a handler works on the
  table of its thread. The character buffers of the requests are byte lists with the field sizes of
  \<^verbatim>\<open>kvs.dproto\<close>; bytes of local buffers that the code does not initialise are parameters. The
  properties of the store are stated here, on tables made by \<^verbatim>\<open>mehcached_table_init\<close>.
\<close>

section \<open>Hash functions\<close>

definition sbox :: "u32 list" where
  "sbox = [
     0xF53E1837, 0x5F14C86B, 0x9EE3964C, 0xFA796D53, 0x32223FC3, 0x4D82BC98, 0xA0C7FA62, 0x63E2C982,
     0x24994A5B, 0x1ECE7BEE, 0x292B38EF, 0xD5CD4E56, 0x514F4303, 0x7BE12B83, 0x7192F195, 0x82DC7300,
     0x084380B4, 0x480B55D3, 0x5F430471, 0x13F75991, 0x3F9CF22C, 0x2FE0907A, 0xFD8E1E69, 0x7B1D5DE8,
     0xD575A85C, 0xAD01C50A, 0x7EE00737, 0x3CE981E8, 0x0E447EFA, 0x23089DD6, 0xB59F149F, 0x13600EC7,
     0xE802C8E6, 0x670921E4, 0x7207EFF0, 0xE74761B0, 0x69035234, 0xBFA40F19, 0xF63651A0, 0x29E64C26,
     0x1F98CCA7, 0xD957007E, 0xE71DDC75, 0x3E729595, 0x7580B7CC, 0xD7FAF60B, 0x92484323, 0xA44113EB,
     0xE4CBDE08, 0x346827C9, 0x3CF32AFA, 0x0B29BCF1, 0x6E29F7DF, 0xB01E71CB, 0x3BFBC0D1, 0x62EDC5B8,
     0xB7DE789A, 0xA4748EC9, 0xE17A4C4F, 0x67E5BD03, 0xF3B33D1A, 0x97D8D3E9, 0x09121BC0, 0x347B2D2C,
     0x79A1913C, 0x504172DE, 0x7F1F8483, 0x13AC3CF6, 0x7A2094DB, 0xC778FA12, 0xADF7469F, 0x21786B7B,
     0x71A445D0, 0xA8896C1B, 0x656F62FB, 0x83A059B3, 0x972DFE6E, 0x4122000C, 0x97D9DA19, 0x17D5947B,
     0xB1AFFD0C, 0x6EF83B97, 0xAF7F780B, 0x4613138A, 0x7C3E73A6, 0xCF15E03D, 0x41576322, 0x672DF292,
     0xB658588D, 0x33EBEFA9, 0x938CBF06, 0x06B67381, 0x07F192C6, 0x2BDA5855, 0x348EE0E8, 0x19DBB6E3,
     0x3222184B, 0xB69D5DBA, 0x7E760B88, 0xAF4D8154, 0x007A51AD, 0x35112500, 0xC9CD2D7D, 0x4F4FB761,
     0x694772E3, 0x694C8351, 0x4A7E3AF5, 0x67D65CE1, 0x9287DE92, 0x2518DB3C, 0x8CB4EC06, 0xD154D38F,
     0xE19A26BB, 0x295EE439, 0xC50A1104, 0x2153C6A7, 0x82366656, 0x0713BC2F, 0x6462215A, 0x21D9BFCE,
     0xBA8EACE6, 0xAE2DF4C1, 0x2A8D5E80, 0x3F7E52D1, 0x29359399, 0xFEA1D19C, 0x18879313, 0x455AFA81,
     0xFADFE838, 0x62609838, 0xD1028839, 0x0736E92F, 0x3BCA22A3, 0x1485B08A, 0x2DA7900B, 0x852C156D,
     0xE8F24803, 0x00078472, 0x13F0D332, 0x2ACFD0CF, 0x5F747F5C, 0x87BB1E2F, 0xA7EFCB63, 0x23F432F0,
     0xE6CE7C5C, 0x1F954EF6, 0xB609C91B, 0x3B4571BF, 0xEED17DC0, 0xE556CDA0, 0xA7846A8D, 0xFF105F94,
     0x52B7CCDE, 0x0E33E801, 0x664455EA, 0xF2C70414, 0x73E7B486, 0x8F830661, 0x8B59E826, 0xBB8AEDCA,
     0xF3D70AB9, 0xD739F2B9, 0x4A04C34A, 0x88D0F089, 0xE02191A2, 0xD89D9C78, 0x192C2749, 0xFC43A78F,
     0x0AAC88CB, 0x9438D42D, 0x9E280F7A, 0x36063802, 0x38E8D018, 0x1C42A9CB, 0x92AAFF6C, 0xA24820C5,
     0x007F077F, 0xCE5BC543, 0x69668D58, 0x10D6FF74, 0xBE00F621, 0x21300BBE, 0x2E9E8F46, 0x5ACEA629,
     0xFA1F86C7, 0x52F206B8, 0x3EDF1A75, 0x6DA8D843, 0xCF719928, 0x73E3891F, 0xB4B95DD6, 0xB2A42D27,
     0xEDA20BBF, 0x1A58DBDF, 0xA449AD03, 0x6DDEF22B, 0x900531E6, 0x3D3BFF35, 0x5B24ABA2, 0x472B3E4C,
     0x387F2D75, 0x4D8DBA36, 0x71CB5641, 0xE3473F3F, 0xF6CD4B7F, 0xBF7D1428, 0x344B64D0, 0xC5CDFCB6,
     0xFE2E0182, 0x2C37A673, 0xDE4EB7A3, 0x63FDC933, 0x01DC4063, 0x611F3571, 0xD167BFAF, 0x4496596F,
     0x3DEE0689, 0xD8704910, 0x7052A114, 0x068C9EC5, 0x75D0E766, 0x4D54CC20, 0xB44ECDE2, 0x4ABC653E,
     0x2C550A21, 0x1A52C0DB, 0xCFED03D0, 0x119BAFE2, 0x876A6133, 0xBC232088, 0x435BA1B2, 0xAE99BBFA,
     0xBB4F08E4, 0xA62B5F49, 0x1DA4B695, 0x336B84DE, 0xDC813D31, 0x00C134FB, 0x397A98E6, 0x151F0E64,
     0xD9EB3E69, 0xD3C7DF60, 0xD2F2C336, 0x2DDD067B, 0xBD122835, 0xB0B3BD3A, 0xB0D54E46, 0x8641F1E4,
     0xA0B38F96, 0x51D39199, 0x37A6AD75, 0xDF84EE41, 0x3C034CBA, 0xACDA62FC, 0x11923B8B, 0x45EF170A]"

fun tab_hash_loop :: "u32 \<Rightarrow> u8 list \<Rightarrow> u32" where
  "tab_hash_loop h [] = h"
| "tab_hash_loop h (k # ks) = tab_hash_loop (h XOR sbox ! unat k) ks"

definition tab_hash :: "u8 list \<Rightarrow> nat \<Rightarrow> u64" where
  "tab_hash key len = ucast (tab_hash_loop 4294967291 (take len key))"

fun sbox_hash_loop :: "u32 \<Rightarrow> u8 list \<Rightarrow> u32" where
  "sbox_hash_loop h [] = h"
| "sbox_hash_loop h (k # ks) = sbox_hash_loop ((h XOR sbox ! unat k) * 3) ks"

definition sbox_hash :: "u8 list \<Rightarrow> nat \<Rightarrow> u64" where
  "sbox_hash key len = ucast (sbox_hash_loop 4294967291 (take len key))"

definition noop_hash :: "u8 list \<Rightarrow> nat \<Rightarrow> (unit, 'r, u64) body" where
  "noop_hash key len = bnd (assertM (\<lambda>_. len = 8)) (\<lambda>_. ret (le_dec (take 8 key)))"

definition mul_hash :: "u8 list \<Rightarrow> nat \<Rightarrow> (unit, 'r, u64) body" where
  "mul_hash key len = bnd (assertM (\<lambda>_. len = 8)) (\<lambda>_. ret (le_dec (take 8 key) * 18446744073709551557))"

definition hash :: "u8 list \<Rightarrow> nat \<Rightarrow> u64" where
  "hash key len = tab_hash key len"

section \<open>C strings\<close>

definition c_string :: "u8 list \<Rightarrow> u8 list" where
  "c_string bs = takeWhile (\<lambda>b. b \<noteq> 0) bs"

text \<open>A buffer without a terminator has no length: \<^verbatim>\<open>strlen\<close> reads past its end.\<close>

definition strlen :: "u8 list \<Rightarrow> nat option" where
  "strlen bs = (if 0 \<in> set bs then Some (length (c_string bs)) else None)"

text \<open>\<^verbatim>\<open>sprintf\<close> with the buffer as its format and no arguments: a doubled percent sign prints one, and any
  other directive, or a buffer without a terminator, is undefined.\<close>

fun sprintf0 :: "u8 list \<Rightarrow> u8 list option" where
  "sprintf0 [] = None"
| "sprintf0 (b # bs) = (if b = 0 then Some [] else if b \<noteq> 37 then map_option ((#) b) (sprintf0 bs)
     else case bs of [] \<Rightarrow> None | b' # bs' \<Rightarrow> if b' = 37 then map_option ((#) 37) (sprintf0 bs') else None)"

section \<open>Handlers\<close>

record set_request =
  sreq_timestamp :: u32
  sreq_key :: "u8 list"
  sreq_value :: "u8 list"

record set_response =
  srsp_timestamp :: u32
  srsp_status :: string

record get_request =
  greq_timestamp :: u32
  greq_key :: "u8 list"

record get_response =
  grsp_timestamp :: u32
  grsp_value :: "u8 list"

type_synonym kv_tables = "mehcached_table list"

definition on_table :: "nat \<Rightarrow> (mehcached_table, 'a, 'a) body \<Rightarrow> (kv_tables, 'r, 'a) body" where
  "on_table tid m = bnd (guardM (\<lambda>ts. tid < length ts)) (\<lambda>_.
     (\<lambda>ts. case call m (ts ! tid) of (x, t) \<Rightarrow> (x, ts[tid := t])))"

definition known :: "'a option \<Rightarrow> ('s, 'r, 'a) body" where
  "known x = bnd (guardM (\<lambda>_. x \<noteq> None)) (\<lambda>_. ret (the x))"

definition kv_set :: "nat \<Rightarrow> set_request \<Rightarrow> (kv_tables, 'r, set_response) body" where
  "kv_set tid args = (let key = sreq_key args; val = sreq_value args in
     bnd (known (strlen key)) (\<lambda>key_length.
     let key_hash = hash key key_length in
     bnd (known (strlen val)) (\<lambda>value_length.
     bnd (on_table tid (mehcached_set 0 key_hash key (of_nat key_length) val (of_nat value_length) 0 True)) (\<lambda>stored.
     ret \<lparr>srsp_timestamp = sreq_timestamp args, srsp_status = (if stored then ''OK'' else ''ERROR'')\<rparr>))))"

text \<open>\<open>stack\<close> is the content of the local buffer before the call. The field for the value has 32 bytes.\<close>

definition kv_get :: "u8 list \<Rightarrow> nat \<Rightarrow> get_request \<Rightarrow> (kv_tables, 'r, get_response) body" where
  "kv_get stack tid args = (let key = greq_key args in
     bnd (known (strlen key)) (\<lambda>key_length.
     let key_hash = hash key key_length in
     bnd (on_table tid (mehcached_get 0 key_hash key (of_nat key_length) 64 False)) (\<lambda>found.
     case found of
       None \<Rightarrow> ret \<lparr>grsp_timestamp = greq_timestamp args, grsp_value = []\<rparr>
     | Some (bytes, _, _) \<Rightarrow>
         bnd (known (sprintf0 (bytes @ drop (length bytes) stack))) (\<lambda>val.
         bnd (guardM (\<lambda>_. length val < 32)) (\<lambda>_.
         ret \<lparr>grsp_timestamp = greq_timestamp args, grsp_value = val\<rparr>)))))"

section \<open>Loading a data set\<close>

text \<open>\<^verbatim>\<open>atoi\<close> on a line: leading white space, a sign, digits.\<close>

fun atoi_digits :: "int \<Rightarrow> u8 list \<Rightarrow> int" where
  "atoi_digits n [] = n"
| "atoi_digits n (b # bs) = (if 48 \<le> b \<and> b \<le> 57 then atoi_digits (10 * n + (uint b - 48)) bs else n)"

definition atoi :: "u8 list \<Rightarrow> int" where
  "atoi bs = (let ws = dropWhile (\<lambda>b. b = 32 \<or> (9 \<le> b \<and> b \<le> 13)) bs in
     case ws of [] \<Rightarrow> 0 | b # bs' \<Rightarrow> if b = 45 then - atoi_digits 0 bs' else if b = 43 then atoi_digits 0 bs' else atoi_digits 0 ws)"

text \<open>The loop over the lines: \<open>kbuf\<close> and \<open>vbuf\<close> are the two buffers, which keep their bytes from line to line.
  A line that is shorter than the fields is read past its end.\<close>

fun populate_loop :: "nat \<Rightarrow> nat \<Rightarrow> nat \<Rightarrow> u8 list list \<Rightarrow> u8 list \<Rightarrow> u8 list \<Rightarrow> nat \<Rightarrow> (kv_tables, string, nat) body" where
  "populate_loop tid key_size value_size [] kbuf vbuf i = ret i"
| "populate_loop tid key_size value_size (line # lines) kbuf vbuf i =
     bnd (guardM (\<lambda>_. key_size + 1 + value_size \<le> length line)) (\<lambda>_.
     let kbuf' = take key_size line @ [0] @ drop (key_size + 1) kbuf;
         vbuf' = take value_size (drop (key_size + 1) line) @ [0] @ drop (value_size + 1) vbuf in
     bnd (known (strlen kbuf')) (\<lambda>key_length.
     let key_hash = hash kbuf' key_length in
     bnd (known (strlen vbuf')) (\<lambda>value_length.
     bnd (on_table tid (mehcached_set 0 key_hash kbuf' (of_nat key_length) vbuf' (of_nat value_length) 0 True)) (\<lambda>stored.
     bnd (whenM (\<not> stored) (exit_with (''Failed to loa dataset, loaded '' @ decimal i @ [char_of (13 :: nat)]))) (\<lambda>_.
     populate_loop tid key_size value_size lines kbuf' vbuf' (Suc i))))))"

text \<open>\<open>lines\<close> is the data set file, none when it cannot be opened; \<open>kheap\<close> and \<open>vheap\<close> give the bytes of the
  buffers when they are allocated. A negative size, which wraps around, has outcome \<open>Undef\<close>.\<close>

definition kv_populate :: "(nat \<Rightarrow> u8 list) \<Rightarrow> (nat \<Rightarrow> u8 list) \<Rightarrow> nat \<Rightarrow> u8 list list option \<Rightarrow> (kv_tables, string, string) body" where
  "kv_populate kheap vheap tid lines = (let cr = [char_of (13 :: nat)] in
     case lines of
       None \<Rightarrow> ret (''Failed to open dataset file'' @ cr)
     | Some [] \<Rightarrow> ret (''First line is not found'' @ cr)
     | Some [_] \<Rightarrow> ret (''Second line is not found'' @ cr)
     | Some [_, _] \<Rightarrow> ret (''Third line is not found'' @ cr)
     | Some (l1 # l2 # l3 # rest) \<Rightarrow>
         bnd (guardM (\<lambda>_. 0 \<le> atoi l1 \<and> 0 \<le> atoi l2)) (\<lambda>_.
         let key_size = nat (atoi l1); value_size = nat (atoi l2) in
         bnd (populate_loop tid key_size value_size rest (kheap (key_size + 10)) (vheap (value_size + 10)) 0) (\<lambda>i.
         let probe = map (\<lambda>c. of_nat (of_char c)) ''_______4'' @ [0] in
         bnd (on_table tid (mehcached_get 0 (hash probe 8) probe 8 64 False)) (\<lambda>_.
         if int i \<noteq> atoi l3 then ret (''dataset corrupted'' @ cr) else ret (decimal i @ '' values loaded'' @ cr)))))"

section \<open>Tables in use\<close>

text \<open>The state a table reaches by calls from its initialisation.\<close>

lemma reached_ready:
  assumes "mehcached_table_init fuel bytes nb np sz cr cw aw tn an 1 s = (Done (t0, addr, data), s')" and "3 \<le> unat nb" and "unat nb \<le> 2 ^ 31"
    and "list_all call_ok cs" and "length cs \<le> 2 ^ 42"
  obtains rs t hs m where "mica_calls cs t0 = (Done rs, t)" and "spec_run cs rs Map.empty = Some m" and "ready t hs m"
    and "sum_list hs + 2 ^ 40 * 2097152 + unat (pool_size (alloc t)) < 2 ^ 64"
proof -
  have r: "ready t0 [] Map.empty" by (rule table_init_ready [OF assms(1-3)])
  then have "pool_wf (alloc t0)" using table_ok_wf by (auto simp: ready_def)
  then have size: "unat (pool_size (alloc t0)) \<le> 2 ^ 46" by (rule pool_wf_size)
  then have "sum_list ([] :: nat list) + length cs * 2097152 + unat (pool_size (alloc t0)) < 2 ^ 64" using assms(5) by simp
  then obtain rs t hs m where "mica_calls cs t0 = (Done rs, t)" "spec_run cs rs Map.empty = Some m" "ready t hs m"
    "sum_list hs \<le> sum_list ([] :: nat list) + length cs * 2097152" "pool_size (alloc t) = pool_size (alloc t0)"
    by (rule ready_calls [OF r assms(4)])
  then show ?thesis using that size assms(5) by simp
qed


text \<open>A machine with two free huge pages whose system calls answer with ever higher addresses, and the table made on it.\<close>

definition two_pages :: shm where
  "two_pages = \<lparr>shm_page_size = 2097152, shm_state_lock = 0,
     shm_pages = (\<lambda>i. if i < 2 then \<lparr>path = mehcached_shm_path i, page_addr = 4194304, page_paddr = 0, numa_node = 0, in_use = 0\<rparr> else zero_page),
     shm_entries = (\<lambda>_. zero_entry), shm_mappings = (\<lambda>_. zero_mapping), shm_used_memory = 0, vmem = Map.empty,
     sys = (\<lambda>n. of_nat (Suc n) * 268435456), ticks = 0\<rparr>"

lemma first_from_unfold: "first_from P k i = (if k = 0 \<or> P i then i else first_from P (k - 1) (Suc i))"
  by (cases k) simp_all

lemma pick_pages_unfold:
  "pick_pages pg node n k i acc = (if k = 0 \<or> length acc = n then acc else pick_pages pg node n (k - 1) (Suc i)
     (if page_addr (pg i) = 0 \<or> in_use (pg i) \<noteq> 0 \<or> numa_node (pg i) \<noteq> node then acc else acc @ [i]))"
  by (cases k) simp_all

lemma small_table:
  obtains t0 addr data s' where "mehcached_table_init 1 (\<lambda>_. 0) 4 1 2097152 False False False (- 1) (- 1) 1 two_pages
    = (Done (t0, addr, data) :: (unit, mehcached_table \<times> u64 \<times> u64) outcome, s')"
proof -
  have sizes: "next_power_loop 64 4 0 = Some 2" "mehcached_next_power_of_two 2097152 = Some 2097152" by code_simp+
  have pages: "mehcached_shm_adjust_size 512 = 2097152" "mehcached_shm_adjust_size 2097152 = 2097152"
    by (simp_all add: mehcached_shm_adjust_size_def MEHCACHED_ROUNDUP2M_def)
  have "rshift_loop 64 4 0 = Some 45" using rshift_result [of 2 0 64] by simp
  then have "\<exists>x s'. mehcached_table_init 1 (\<lambda>_. 0) 4 1 2097152 False False False (- 1) (- 1) 1 two_pages
      = (Done x :: (unit, mehcached_table \<times> u64 \<times> u64) outcome, s')"
    by (simp add: mehcached_table_init_def mehcached_pool_init_def sizes pages del: rshift_loop.simps)
      (simp add: run_defs syscall_def mehcached_shm_alloc_def mehcached_shm_lock_def mehcached_shm_unlock_def mehcached_shm_find_free_address_def
        mehcached_shm_map_def mehcached_shm_schedule_remove_def check_remove_run drop_if_unused_def register_mapping_def set_entry_def set_mapping_def
        mark_pages_def set_page_def two_pages_def Let_def zero_entry_def zero_mapping_def zero_page_def sizes
        MEHCACHED_SHM_MAX_ENTRIES_def MEHCACHED_SHM_MAX_PAGES_def MEHCACHED_SHM_MAX_MAPPINGS_def MEHCACHED_MINIMUM_POOL_SIZE_def
        MEHCACHED_ITEM_OFFSET_MASK_def first_from_unfold [of _ "numeral n" for n] pick_pages_unfold [of _ _ _ "numeral n" for n])
  then show ?thesis using that by (metis surj_pair)
qed


section \<open>Items a slot points to\<close>

lemma valid_slot_item:
  assumes "table_ok t hs" and "b < length (buckets t)" and "i < 15" and "get_slot t b i \<noteq> 0"
    and "mehcached_pool_is_valid (alloc t) (MEHCACHED_ITEM_OFFSET (get_slot t b i))"
  obtains xs n ys it where "entry_at hs (get_slot t b i) xs n ys" and "n + sum_list ys \<le> unat (pool_size (alloc t))" and "item_len it \<le> n"
    and "holds (alloc t) (sum_list xs) it" and "in_bucket t b (it_hash it)" and "MEHCACHED_TAG (get_slot t b i) = ucast (mehcached_calc_tag (it_hash it))"
proof -
  obtain xs n ys where e: "entry_at hs (get_slot t b i) xs n ys" "n + sum_list ys < 2 ^ 48"
    "n + sum_list ys \<le> unat (pool_size (alloc t)) \<longrightarrow> (\<exists>it. item_len it \<le> n \<and> holds (alloc t) (sum_list xs) it
      \<and> in_bucket t b (it_hash it) \<and> MEHCACHED_TAG (get_slot t b i) = ucast (mehcached_calc_tag (it_hash it)))"
    by (rule entry_of_slot [OF assms(1-4)])
  then show ?thesis using that entry_age(2) [OF table_ok_shape(2) [OF assms(1)] e(1,2)] assms(5) by blast
qed

text \<open>C36. A slot that passes the validity check points to an intact item. On a table reached by any sequence of calls, the lengths in the header of the
  item are within the limits, header, key and value fit into the space the allocator recorded for it, and the hash
  in the header belongs to the bucket and the tag of the slot: offsets of 48 bits are never mistaken for
  those of an older or newer item, however often the log has wrapped around.\<close>

theorem valid_slot_intact:
  assumes "mehcached_table_init fuel bytes nb np sz cr cw aw tn an 1 s = (Done (t0, addr, data), s')" and "3 \<le> unat nb" and "unat nb \<le> 2 ^ 31"
    and "list_all call_ok cs" and "length cs \<le> 2 ^ 42" and "mica_calls cs t0 = (Done rs, t)"
    and "b < length (buckets t)" and "i < 15" and "get_slot t b i \<noteq> 0"
    and "mehcached_pool_is_valid (alloc t) (MEHCACHED_ITEM_OFFSET (get_slot t b i))"
    and "item = mehcached_pool_item (alloc t) (MEHCACHED_ITEM_OFFSET (get_slot t b i))"
  shows "\<exists>(room :: u64) (kv :: u32) (h :: u64). item_load item 8 t = (Done room :: (unit, u64) outcome, t)
    \<and> item_load (item + 8) 4 t = (Done kv :: (unit, u32) outcome, t) \<and> item_load (item + 16) 8 t = (Done h :: (unit, u64) outcome, t)
    \<and> unat (MEHCACHED_KEY_LENGTH kv) \<le> 255 \<and> unat (MEHCACHED_VALUE_LENGTH kv) \<le> 1048575
    \<and> 24 + ru8 (unat (MEHCACHED_KEY_LENGTH kv)) + ru8 (unat (MEHCACHED_VALUE_LENGTH kv)) \<le> unat room \<and> unat room \<le> 2097152
    \<and> b = unat (mehcached_calc_bucket_index t h) \<and> MEHCACHED_TAG (get_slot t b i) = ucast (mehcached_calc_tag h)"
proof -
  obtain rs' t' hs m where r: "mica_calls cs t0 = (Done rs', t')" "ready t' hs m" by (rule reached_ready [OF assms(1-5)])
  then have ok: "table_ok t hs" using assms(6) by (simp add: ready_def)
  note lo = table_ok_shape(2) [OF ok] and wf = table_ok_wf [OF ok]
  obtain xs n ys it where e: "entry_at hs (get_slot t b i) xs n ys" "n + sum_list ys \<le> unat (pool_size (alloc t))"
    and it: "item_len it \<le> n" "holds (alloc t) (sum_list xs) it" "in_bucket t b (it_hash it)" "MEHCACHED_TAG (get_slot t b i) = ucast (mehcached_calc_tag (it_hash it))"
    by (rule valid_slot_item [OF ok assms(7-10)])
  have item: "item = sum_list xs mod unat (pool_size (alloc t))" unfolding assms(11) by (rule entry_position(1) [OF lo e(1)])
  have hs: "hs = xs @ n # ys" using e(1) by (simp add: entry_at_def)
  then have n: "n \<le> 2097152" "log_bytes (alloc t) (sum_list xs) 8 = le_enc 8 (of_nat n :: u64)"
    using lo e(2) by (simp_all add: log_ok_def log_sizes_ok_def log_headers_ok_def)
  have loads: "item_load item 8 t = (Done (of_nat n) :: (unit, u64) outcome, t)"
    "item_load (item + 8) 4 t = (Done (kv_at (alloc t) (sum_list xs)) :: (unit, u32) outcome, t)"
    "item_load (item + 16) 8 t = (Done (it_hash it) :: (unit, u64) outcome, t)"
    using item_load_log [OF wf, of 0 8 "sum_list xs", where 'a = unit and 'b = 64] item_load_log [OF wf, of 8 4 "sum_list xs", where 'a = unit and 'b = 32]
      item_load_log [OF wf, of 16 8 "sum_list xs", where 'a = unit and 'b = 64] n(2) holds_words(1) [OF it(2)]
    by (simp_all add: item kv_at_def hash_at_def)
  have iw: "it_klen it \<le> 255" "it_vlen it \<le> 1048575" using it(2) by (simp_all add: holds_def item_wf_def)
  then have "unat (MEHCACHED_KEY_LENGTH (kv_at (alloc t) (sum_list xs))) = it_klen it" "unat (MEHCACHED_VALUE_LENGTH (kv_at (alloc t) (sum_list xs))) = it_vlen it"
    using holds_words(3,4) [OF it(2)] by (simp_all add: unat_of_nat take_bit_nat_eq_self)
  then show ?thesis using loads iw n(1) it(1,3,4) by (simp add: item_len_def in_bucket_def unat_u64_of_nat)
qed

lemma small_slot:
  obtains t0 addr data s' t b i where
    "mehcached_table_init 1 (\<lambda>_. 0) 4 1 2097152 False False False (- 1) (- 1) 1 two_pages = (Done (t0, addr, data) :: (unit, mehcached_table \<times> u64 \<times> u64) outcome, s')"
    "mica_calls [CSet 5 [1, 2, 3, 4, 5, 6, 7, 8] 8 [9, 9, 9, 9, 9, 9, 9, 9] 8 0 True] t0 = (Done [RBool True], t)"
    "b < length (buckets t)" "i < 15" "get_slot t b i \<noteq> 0" "mehcached_pool_is_valid (alloc t) (MEHCACHED_ITEM_OFFSET (get_slot t b i))"
proof -
  let ?c = "CSet 5 [1, 2, 3, 4, 5, 6, 7, 8] 8 [9, 9, 9, 9, 9, 9, 9, 9] 8 0 True"
  obtain t0 addr data s' where init: "mehcached_table_init 1 (\<lambda>_. 0) 4 1 2097152 False False False (- 1) (- 1) 1 two_pages
    = (Done (t0, addr, data) :: (unit, mehcached_table \<times> u64 \<times> u64) outcome, s')" by (rule small_table)
  have r: "ready t0 [] Map.empty" by (rule table_init_ready [OF init]) simp_all
  then have "pool_wf (alloc t0)" using table_ok_wf by (auto simp: ready_def)
  then have room: "sum_list ([] :: nat list) + 2097152 + unat (pool_size (alloc t0)) < 2 ^ 64" using pool_wf_size(2) by fastforce
  have ok: "call_ok ?c" by (simp add: key_ok_def ru8_def)
  obtain t' hs' where t': "mica_do ?c t0 = (Done (RBool True), t')" "ready t' hs' (Map.empty(key_id 5 [1, 2, 3, 4, 5, 6, 7, 8] 8 \<mapsto> (8, take (ru8 8) [9, 9, 9, 9, 9, 9, 9, 9], 0)))"
    "stored t' hs' (key_id 5 [1, 2, 3, 4, 5, 6, 7, 8] 8)" by (rule ready_set [OF r ok room])
  have tok: "table_ok t' hs'" using t'(2) by (simp add: ready_def)
  obtain i where i: "i < 15" "MEHCACHED_TAG (get_slot t' (unat (mehcached_calc_bucket_index t' 5)) i) = ucast (mehcached_calc_tag 5)"
    "mehcached_pool_is_valid (alloc t') (MEHCACHED_ITEM_OFFSET (get_slot t' (unat (mehcached_calc_bucket_index t' 5)) i))"
    using stored_slot [OF tok t'(3) [unfolded key_id_def]] by blast
  have "mica_calls [?c] t0 = (Done [RBool True], t')" using t'(1) by (simp add: bnd_run ret_def)
  then show ?thesis
    using that [OF init _ bucket_index_less [OF table_ok_shape(1) [OF tok]] i(1) _ i(3)] tag_nonzero [OF i(2)] by blast
qed

theorem valid_slot_intact_witness:
  "\<exists>t b i (room :: u64) (kv :: u32). item_load (mehcached_pool_item (alloc t) (MEHCACHED_ITEM_OFFSET (get_slot t b i))) 8 t = (Done room :: (unit, u64) outcome, t)
    \<and> item_load (mehcached_pool_item (alloc t) (MEHCACHED_ITEM_OFFSET (get_slot t b i)) + 8) 4 t = (Done kv :: (unit, u32) outcome, t)
    \<and> 24 + ru8 (unat (MEHCACHED_KEY_LENGTH kv)) + ru8 (unat (MEHCACHED_VALUE_LENGTH kv)) \<le> unat room"
proof -
  obtain t0 addr data s' t b i where
    a: "mehcached_table_init 1 (\<lambda>_. 0) 4 1 2097152 False False False (- 1) (- 1) 1 two_pages = (Done (t0, addr, data) :: (unit, mehcached_table \<times> u64 \<times> u64) outcome, s')"
    and c: "mica_calls [CSet 5 [1, 2, 3, 4, 5, 6, 7, 8] 8 [9, 9, 9, 9, 9, 9, 9, 9] 8 0 True] t0 = (Done [RBool True], t)"
    and d: "b < length (buckets t)" "i < 15" "get_slot t b i \<noteq> 0" "mehcached_pool_is_valid (alloc t) (MEHCACHED_ITEM_OFFSET (get_slot t b i))"
    by (rule small_slot)
  have n: "3 \<le> unat (4 :: u64)" "unat (4 :: u64) \<le> 2 ^ 31" by simp_all
  have ok: "list_all call_ok [CSet 5 [1, 2, 3, 4, 5, 6, 7, 8] 8 [9, 9, 9, 9, 9, 9, 9, 9] 8 0 True]"
    "length [CSet 5 [1, 2, 3, 4, 5, 6, 7, 8] 8 [9, 9, 9, 9, 9, 9, 9, 9] 8 0 True] \<le> 2 ^ 42" by (simp_all add: key_ok_def ru8_def)
  show ?thesis using valid_slot_intact [OF a n ok c d refl] by blast
qed

section \<open>Strings and hashes\<close>

lemma tab_hash_loop_fold: "tab_hash_loop h ks = fold (\<lambda>k h. h XOR sbox ! unat k) ks h"
  by (induction h ks rule: tab_hash_loop.induct) simp_all

text \<open>The hash does not depend on the order of the bytes.\<close>

lemma tab_hash_permuted: "mset ks = mset ks' \<Longrightarrow> tab_hash_loop h ks = tab_hash_loop h ks'"
  unfolding tab_hash_loop_fold
  by (rule fun_cong [OF fold_multiset_equiv]) (auto simp: fun_eq_iff xor.assoc xor.commute xor.left_commute)

lemma strlen_Some:
  assumes "0 \<in> set bs"
  shows "strlen bs = Some (length (c_string bs))" and "length (c_string bs) < length bs" and "take (length (c_string bs)) bs = c_string bs"
    and "bs ! length (c_string bs) = 0"
proof -
  show "strlen bs = Some (length (c_string bs))" using assms by (simp add: strlen_def)
  have split: "bs = c_string bs @ dropWhile (\<lambda>b. b \<noteq> 0) bs" by (simp add: c_string_def)
  have ne: "dropWhile (\<lambda>b. b \<noteq> 0) bs \<noteq> []" using assms by auto
  show less: "length (c_string bs) < length bs" using arg_cong [OF split, of length] ne by simp
  show "take (length (c_string bs)) bs = c_string bs" unfolding c_string_def by (rule takeWhile_eq_take [symmetric])
  show "bs ! length (c_string bs) = 0" using nth_length_takeWhile [of "\<lambda>b. b \<noteq> 0" bs] less by (simp add: c_string_def)
qed

lemma sprintf0_plain: "0 \<in> set bs \<Longrightarrow> 37 \<notin> set (c_string bs) \<Longrightarrow> sprintf0 bs = Some (c_string bs)"
proof (induction bs rule: sprintf0.induct)
  case (2 b bs)
  then show ?case by (cases "b = 0"; cases "b = 37") (auto simp: c_string_def)
qed simp

lemma c_string_append: "c_string (xs @ ys) = (if 0 \<in> set xs then c_string xs else xs @ c_string ys)"
  unfolding c_string_def by (induction xs) auto

lemma ru8_small: "n < 8 * k \<Longrightarrow> ru8 n \<le> 8 * k"
  by (auto simp: ru8_def)

section \<open>The handlers\<close>

lemma known_run: "known (Some x) s = (Done x, s)"
  by (simp add: known_def run_steps)

lemma do_callD:
  assumes "bnd (call m) (\<lambda>r. ret (F r)) s = (Done (F r) :: (unit, 'b) outcome, s')" and "inj F"
  shows "call m s = (Done r :: ('r, 'a) outcome, s')"
  using assms by (auto simp: bnd_def ret_def inj_eq call_def split: prod.splits outcome.splits)

lemma on_table_run:
  assumes "call m (ts ! tid) = (Done r :: ('r, 'a) outcome, t)" and "tid < length ts"
  shows "on_table tid m ts = (Done r :: ('r, 'a) outcome, ts[tid := t])"
  using assms by (simp add: on_table_def bnd_def guardM_def)

lemma kv_set_run:
  assumes "tid < length ts" and "ready (ts ! tid) hs m" and "length (sreq_key args) = 16" and "0 \<in> set (sreq_key args)"
    and "length (sreq_value args) = 32" and "0 \<in> set (sreq_value args)" and "sum_list hs + 2097152 + unat (pool_size (alloc (ts ! tid))) < 2 ^ 64"
  defines "kl \<equiv> length (c_string (sreq_key args))" and "vl \<equiv> length (c_string (sreq_value args))"
  obtains t' hs' where "kv_set tid args ts = (Done \<lparr>srsp_timestamp = sreq_timestamp args, srsp_status = ''OK''\<rparr> :: ('r, set_response) outcome, ts[tid := t'])"
    and "ready t' hs' (m(key_id (hash (sreq_key args) kl) (sreq_key args) kl \<mapsto> (vl, take (ru8 vl) (sreq_value args), 0)))"
    and "stored t' hs' (key_id (hash (sreq_key args) kl) (sreq_key args) kl)" and "sum_list hs' \<le> sum_list hs + 2097152"
    and "pool_size (alloc t') = pool_size (alloc (ts ! tid))"
proof -
  have k: "kl < 16" "strlen (sreq_key args) = Some kl" and v: "vl < 32" "strlen (sreq_value args) = Some vl"
    using strlen_Some [OF assms(4)] strlen_Some [OF assms(6)] assms(3,5) by (simp_all add: kl_def vl_def)
  have "ru8 kl \<le> 16" "ru8 vl \<le> 32" using ru8_small [of kl 2] ru8_small [of vl 4] k(1) v(1) by simp_all
  then have ok: "call_ok (CSet (hash (sreq_key args) kl) (sreq_key args) kl (sreq_value args) vl 0 True)"
    using k(1) v(1) assms(3,5) by (simp add: key_ok_def)
  obtain t' hs' where t': "mica_do (CSet (hash (sreq_key args) kl) (sreq_key args) kl (sreq_value args) vl 0 True) (ts ! tid) = (Done (RBool True), t')"
    "ready t' hs' (m(key_id (hash (sreq_key args) kl) (sreq_key args) kl \<mapsto> (vl, take (ru8 vl) (sreq_value args), 0)))"
    "stored t' hs' (key_id (hash (sreq_key args) kl) (sreq_key args) kl)" "advanced (ts ! tid) hs t' hs'"
    by (rule ready_set [OF assms(2) ok assms(7)])
  have "on_table tid (mehcached_set 0 (hash (sreq_key args) kl) (sreq_key args) (of_nat kl) (sreq_value args) (of_nat vl) 0 True) ts
      = (Done True :: ('r, bool) outcome, ts[tid := t'])"
    by (rule on_table_run [OF do_callD [OF t'(1) [unfolded mica_do.simps]] assms(1)]) (simp add: inj_def)
  then have "kv_set tid args ts = (Done \<lparr>srsp_timestamp = sreq_timestamp args, srsp_status = ''OK''\<rparr> :: ('r, set_response) outcome, ts[tid := t'])"
    by (simp add: kv_set_def Let_def k(2) v(2) run_steps known_run)
  then show ?thesis using that t' advanced_grows [OF t'(4)] by (simp add: advanced_def)
qed

lemma kv_get_call:
  assumes "tid < length ts" and "length (greq_key q) = 16" and "0 \<in> set (greq_key q)"
    and "mica_do (CGet (hash (greq_key q) (length (c_string (greq_key q)))) (greq_key q) (length (c_string (greq_key q))) 64 False) (ts ! tid)
      = (Done (RValue r), ts ! tid)"
  shows "kv_get stack tid q ts = ((case r of
       None \<Rightarrow> ret \<lparr>grsp_timestamp = greq_timestamp q, grsp_value = []\<rparr> ts
     | Some (bs, _, _) \<Rightarrow> bnd (known (sprintf0 (bs @ drop (length bs) stack))) (\<lambda>val. bnd (guardM (\<lambda>_. length val < 32)) (\<lambda>_.
         ret \<lparr>grsp_timestamp = greq_timestamp q, grsp_value = val\<rparr>)) ts) :: ('r, get_response) outcome \<times> kv_tables)"
proof -
  let ?kl = "length (c_string (greq_key q))"
  have k: "strlen (greq_key q) = Some ?kl" by (rule strlen_Some [OF assms(3)])
  have "on_table tid (mehcached_get 0 (hash (greq_key q) ?kl) (greq_key q) (of_nat ?kl) 64 False) ts = (Done r :: ('r, _) outcome, ts[tid := ts ! tid])"
    using on_table_run [OF do_callD [OF assms(4) [unfolded mica_do.simps]] assms(1)] by (simp add: inj_def)
  then show ?thesis
    by (cases r) (simp_all add: kv_get_def Let_def k run_steps known_run split: prod.splits)
qed

lemma get_call_ok: "length key = 16 \<Longrightarrow> 0 \<in> set key \<Longrightarrow> call_ok (CGet kh key (length (c_string key)) 64 ro)"
  using strlen_Some(2) [of key] ru8_small [of "length (c_string key)" 2] by (simp add: key_ok_def)

text \<open>The bytes a get request prints.\<close>

lemma c_string_out:
  assumes "0 \<in> set bs"
  defines "n \<equiv> length (c_string bs)"
  shows "c_string (take (ru8 n) bs @ rest) = (if 8 dvd n then c_string bs @ c_string rest else c_string bs)"
proof -
  have c: "take n bs = c_string bs" "n < length bs" "bs ! n = 0" using strlen_Some [OF assms(1)] by (simp_all add: n_def)
  have nz: "0 \<notin> set (c_string bs)" using set_takeWhileD by (fastforce simp: c_string_def)
  show ?thesis
  proof (cases "8 dvd n")
    case True
    then have "ru8 n = n" by (rule ru8_self)
    then show ?thesis using True c(1) nz by (simp add: c_string_append)
  next
    case False
    then have gt: "Suc n \<le> ru8 n" by (simp add: ru8_def) presburger
    have "take (Suc n) bs = c_string bs @ [0]" using c by (simp add: take_Suc_conv_app_nth)
    then have "take (ru8 n) bs = (c_string bs @ [0]) @ drop (Suc n) (take (ru8 n) bs)"
      using append_take_drop_id [of "Suc n" "take (ru8 n) bs"] gt by (simp add: min_def)
    then have "c_string (take (ru8 n) bs @ rest) = c_string ((c_string bs @ [0]) @ drop (Suc n) (take (ru8 n) bs) @ rest)" by (metis append.assoc)
    then show ?thesis using False nz by (simp add: c_string_append) (simp add: c_string_def)
  qed
qed

text \<open>C37. What a client stores is what it reads back, up to the missing terminator. On a table reached by any sequence of calls, a set request
  answers OK, and a get request with the same key buffer then answers with the string that
  starts with the stored bytes of the value, rounded up to a multiple of eight, and goes on with the bytes the local buffer of
  the handler happened to hold. It is the stored value when the length of the value is not a multiple of eight, and the value
  followed by leftover bytes up to the next terminator when it is.\<close>

theorem kv_set_get:
  assumes "mehcached_table_init fuel bytes nb np sz cr cw aw tn an 1 s = (Done (t0, addr, data), s')" and "3 \<le> unat nb" and "unat nb \<le> 2 ^ 31"
    and "list_all call_ok cs" and "length cs \<le> 2 ^ 42" and "mica_calls cs t0 = (Done rs, t)" and "tid < length ts" and "ts ! tid = t"
    and "length (sreq_key args) = 16" and "0 \<in> set (sreq_key args)" and "length (sreq_value args) = 32" and "0 \<in> set (sreq_value args)"
    and "greq_key q = sreq_key args"
    and "value = c_string (sreq_value args)" and "out = take (ru8 (length value)) (sreq_value args) @ drop (ru8 (length value)) stack"
    and "0 \<in> set out" and "37 \<notin> set (c_string out)" and "length (c_string out) < 32"
  shows "\<exists>ts'. kv_set tid args ts = (Done \<lparr>srsp_timestamp = sreq_timestamp args, srsp_status = ''OK''\<rparr> :: (unit, set_response) outcome, ts')
    \<and> kv_get stack tid q ts' = (Done \<lparr>grsp_timestamp = greq_timestamp q, grsp_value = c_string out\<rparr> :: (unit, get_response) outcome, ts')
    \<and> c_string out = (if 8 dvd length value then value @ c_string (drop (length value) stack) else value)"
proof -
  let ?key = "sreq_key args" and ?kl = "length (c_string (sreq_key args))" and ?vl = "length value"
  obtain rs' t' hs m where r: "mica_calls cs t0 = (Done rs', t')" "ready t' hs m" "sum_list hs + 2 ^ 40 * 2097152 + unat (pool_size (alloc t')) < 2 ^ 64"
    by (rule reached_ready [OF assms(1-5)])
  then have t: "ready (ts ! tid) hs m" "sum_list hs + 2097152 + unat (pool_size (alloc (ts ! tid))) < 2 ^ 64" using assms(6,8) by simp_all
  obtain t1 hs1 where one: "kv_set tid args ts = (Done \<lparr>srsp_timestamp = sreq_timestamp args, srsp_status = ''OK''\<rparr> :: (unit, set_response) outcome, ts[tid := t1])"
    "ready t1 hs1 (m(key_id (hash ?key ?kl) ?key ?kl \<mapsto> (?vl, take (ru8 ?vl) (sreq_value args), 0)))" "stored t1 hs1 (key_id (hash ?key ?kl) ?key ?kl)"
    using kv_set_run [OF assms(7) t(1) assms(9-12) t(2)] assms(14) by metis
  have vl: "?vl < 32" using strlen_Some(2) [OF assms(12)] assms(11,14) by simp
  then have len: "length (take (ru8 ?vl) (sreq_value args)) = ru8 ?vl" using ru8_small [of ?vl 4] assms(11) by simp
  have "mica_do (CGet (hash ?key ?kl) ?key ?kl 64 False) t1 = (Done (RValue (Some (take (ru8 ?vl) (sreq_value args), of_nat ?vl, 0))), t1)"
    using get_stored [OF one(2,3) get_call_ok [OF assms(9,10)]] vl by simp
  then have "kv_get stack tid q (ts[tid := t1]) = (Done \<lparr>grsp_timestamp = greq_timestamp q, grsp_value = c_string out\<rparr> :: (unit, get_response) outcome, ts[tid := t1])"
    using kv_get_call [of tid "ts[tid := t1]" q "Some (take (ru8 ?vl) (sreq_value args), of_nat ?vl, 0)" stack, where 'r = unit]
      assms(7,9,10,13) sprintf0_plain [OF assms(16,17)] assms(18) len
    by (simp add: run_steps known_run flip: assms(15))
  moreover have "c_string out = (if 8 dvd ?vl then value @ c_string (drop ?vl stack) else value)"
    using c_string_out [OF assms(12)] ru8_self [of ?vl] assms(14,15) by simp
  ultimately show ?thesis using one(1) by blast
qed

definition request_buffer :: "nat \<Rightarrow> u8 list \<Rightarrow> u8 list" where
  "request_buffer n bs = bs @ replicate (n - length bs) 0"

lemma request_buffer_facts:
  assumes "length bs < n" and "0 \<notin> set bs"
  shows "length (request_buffer n bs) = n" and "0 \<in> set (request_buffer n bs)" and "c_string (request_buffer n bs) = bs"
proof -
  show "length (request_buffer n bs) = n" "0 \<in> set (request_buffer n bs)" using assms(1) by (simp_all add: request_buffer_def)
  have "c_string (replicate k 0) = []" for k by (cases k) (simp_all add: c_string_def)
  then show "c_string (request_buffer n bs) = bs" using assms(2) by (simp add: request_buffer_def c_string_append)
qed

theorem kv_set_get_witness:
  "\<exists>ts ts'. kv_set 0 \<lparr>sreq_timestamp = 1, sreq_key = request_buffer 16 [97, 98], sreq_value = request_buffer 32 [104, 105]\<rparr> ts
      = (Done \<lparr>srsp_timestamp = 1, srsp_status = ''OK''\<rparr> :: (unit, set_response) outcome, ts')
    \<and> kv_get (replicate 64 7) 0 \<lparr>greq_timestamp = 2, greq_key = request_buffer 16 [97, 98]\<rparr> ts'
      = (Done \<lparr>grsp_timestamp = 2, grsp_value = [104, 105]\<rparr> :: (unit, get_response) outcome, ts')"
proof -
  obtain t0 addr data s' where init: "mehcached_table_init 1 (\<lambda>_. 0) 4 1 2097152 False False False (- 1) (- 1) 1 two_pages
    = (Done (t0, addr, data) :: (unit, mehcached_table \<times> u64 \<times> u64) outcome, s')" by (rule small_table)
  let ?a = "\<lparr>sreq_timestamp = 1, sreq_key = request_buffer 16 [97, 98], sreq_value = request_buffer 32 [104, 105]\<rparr>"
  let ?q = "\<lparr>greq_timestamp = 2, greq_key = request_buffer 16 [97, 98]\<rparr>"
  have b: "length (request_buffer 16 [97, 98]) = 16" "0 \<in> set (request_buffer 16 [97, 98])" "c_string (request_buffer 16 [97, 98]) = [97, 98]"
      "length (request_buffer 32 [104, 105]) = 32" "0 \<in> set (request_buffer 32 [104, 105])" "c_string (request_buffer 32 [104, 105]) = [104, 105]"
    by (rule request_buffer_facts; simp)+
  have out: "c_string (take (ru8 2) (request_buffer 32 [104, 105]) @ drop (ru8 2) (replicate 64 7)) = [104, 105]"
    using c_string_out [OF b(5), of "drop (ru8 2) (replicate 64 7)"] unfolding b(6) by (simp flip: numeral_2_eq_2)
  have ne: "0 \<in> set (take (ru8 2) (request_buffer 32 [104, 105]) @ drop (ru8 2) (replicate 64 7))"
    by (simp add: request_buffer_def ru8_def)
  let ?out = "take (ru8 2) (request_buffer 32 [104, 105]) @ drop (ru8 2) (replicate 64 7)"
  have o: "?out = take (ru8 (length [104 :: u8, 105])) (sreq_value ?a) @ drop (ru8 (length [104 :: u8, 105])) (replicate 64 7)"
    by (simp add: numeral_2_eq_2)
  obtain ts' where "kv_set 0 ?a [t0] = (Done \<lparr>srsp_timestamp = sreq_timestamp ?a, srsp_status = ''OK''\<rparr> :: (unit, set_response) outcome, ts')"
    "kv_get (replicate 64 7) 0 ?q ts' = (Done \<lparr>grsp_timestamp = greq_timestamp ?q, grsp_value = c_string ?out\<rparr> :: (unit, get_response) outcome, ts')"
    using kv_set_get [OF init _ _ _ _ _ _ _ _ _ _ _ _ _ o, where cs = "[]" and rs = "[]" and t = t0 and tid = 0 and ts = "[t0]" and q = ?q] b out ne
    by (auto simp: ret_def)
  then show ?thesis unfolding out by auto
qed

text \<open>C38. Keys that are permutations of each other evict each other. On a table reached by any sequence of calls, storing a key and then
  another key made of the same characters in another order makes the first one unreadable, whatever the values and
  however empty the table: the hash adds up the characters without their positions, so both keys have
  the same bucket and tag, and a bucket keeps one item for each tag.\<close>

theorem kv_anagram_evicts:
  assumes "mehcached_table_init fuel bytes nb np sz cr cw aw tn an 1 s = (Done (t0, addr, data), s')" and "3 \<le> unat nb" and "unat nb \<le> 2 ^ 31"
    and "list_all call_ok cs" and "length cs \<le> 2 ^ 42" and "mica_calls cs t0 = (Done rs, t)" and "tid < length ts" and "ts ! tid = t"
    and "length (sreq_key a) = 16" and "0 \<in> set (sreq_key a)" and "length (sreq_value a) = 32" and "0 \<in> set (sreq_value a)"
    and "length (sreq_key a') = 16" and "0 \<in> set (sreq_key a')" and "length (sreq_value a') = 32" and "0 \<in> set (sreq_value a')"
    and "mset (c_string (sreq_key a)) = mset (c_string (sreq_key a'))" and "c_string (sreq_key a) \<noteq> c_string (sreq_key a')"
    and "greq_key q = sreq_key a"
  shows "\<exists>ts' ts''. kv_set tid a ts = (Done \<lparr>srsp_timestamp = sreq_timestamp a, srsp_status = ''OK''\<rparr> :: (unit, set_response) outcome, ts')
    \<and> kv_set tid a' ts' = (Done \<lparr>srsp_timestamp = sreq_timestamp a', srsp_status = ''OK''\<rparr> :: (unit, set_response) outcome, ts'')
    \<and> kv_get stack tid q ts'' = (Done \<lparr>grsp_timestamp = greq_timestamp q, grsp_value = []\<rparr> :: (unit, get_response) outcome, ts'')"
proof -
  let ?k = "sreq_key a" and ?k' = "sreq_key a'"
  let ?kl = "length (c_string ?k)" and ?kl' = "length (c_string ?k')"
  obtain rs' u hs m where r: "mica_calls cs t0 = (Done rs', u)" "ready u hs m" "sum_list hs + 2 ^ 40 * 2097152 + unat (pool_size (alloc u)) < 2 ^ 64"
    by (rule reached_ready [OF assms(1-5)])
  then have t: "ready (ts ! tid) hs m" "sum_list hs + 2097152 + unat (pool_size (alloc (ts ! tid))) < 2 ^ 64" using assms(6,8) by simp_all
  obtain t1 hs1 m1 where one: "kv_set tid a ts = (Done \<lparr>srsp_timestamp = sreq_timestamp a, srsp_status = ''OK''\<rparr> :: (unit, set_response) outcome, ts[tid := t1])"
    "ready t1 hs1 m1" "sum_list hs1 \<le> sum_list hs + 2097152" "pool_size (alloc t1) = pool_size (alloc (ts ! tid))"
    by (rule kv_set_run [OF assms(7) t(1) assms(9-12) t(2)])
  have tid: "tid < length (ts[tid := t1])" "ready (ts[tid := t1] ! tid) hs1 m1" "sum_list hs1 + 2097152 + unat (pool_size (alloc (ts[tid := t1] ! tid))) < 2 ^ 64"
    using assms(6-8) one r by simp_all
  obtain t2 hs2 m2 where two: "kv_set tid a' (ts[tid := t1]) = (Done \<lparr>srsp_timestamp = sreq_timestamp a', srsp_status = ''OK''\<rparr> :: (unit, set_response) outcome, ts[tid := t1, tid := t2])"
    "ready t2 hs2 m2" "stored t2 hs2 (key_id (hash ?k' ?kl') ?k' ?kl')"
    by (rule kv_set_run [OF tid(1,2) assms(13-16) tid(3)])
  have len: "?kl = ?kl'" using assms(17) by (metis size_mset)
  have take: "take ?kl ?k = c_string ?k" "take ?kl' ?k' = c_string ?k'" using strlen_Some(3) assms(10,14) by simp_all
  have same: "hash ?k ?kl = hash ?k' ?kl'" using tab_hash_permuted [OF assms(17)] take by (simp add: hash_def tab_hash_def)
  have "ru8 ?kl \<ge> ?kl" by (simp add: ru8_def)
  then have "take (ru8 ?kl) ?k \<noteq> take (ru8 ?kl') ?k'" using take assms(18) len by (metis min.absorb2 take_take min.commute)
  then have diff: "key_id (hash ?k ?kl) ?k ?kl \<noteq> (hash ?k' ?kl', ?kl', take (ru8 ?kl') ?k')" by (simp add: key_id_def)
  have "table_ok t2 hs2" using two(2) by (simp add: ready_def)
  then have "mica_do (CGet (hash ?k ?kl) ?k ?kl 64 False) t2 = (Done (RValue None), t2)"
    by (rule get_excluded [OF _ two(3) [unfolded key_id_def] get_call_ok [OF assms(9,10)] diff]) (simp_all add: same)
  then have "kv_get stack tid q (ts[tid := t2]) = (Done \<lparr>grsp_timestamp = greq_timestamp q, grsp_value = []\<rparr> :: (unit, get_response) outcome, ts[tid := t2])"
    using kv_get_call [of tid "ts[tid := t2]" q None stack, where 'r = unit] assms(7,9,10,19) by (simp add: ret_def)
  then show ?thesis using one(1) two(1) by auto
qed

theorem kv_anagram_evicts_witness:
  "\<exists>ts ts' ts''. kv_set 0 \<lparr>sreq_timestamp = 1, sreq_key = request_buffer 16 [97, 98], sreq_value = request_buffer 32 [104]\<rparr> ts
      = (Done \<lparr>srsp_timestamp = 1, srsp_status = ''OK''\<rparr> :: (unit, set_response) outcome, ts')
    \<and> kv_set 0 \<lparr>sreq_timestamp = 2, sreq_key = request_buffer 16 [98, 97], sreq_value = request_buffer 32 [105]\<rparr> ts'
      = (Done \<lparr>srsp_timestamp = 2, srsp_status = ''OK''\<rparr> :: (unit, set_response) outcome, ts'')
    \<and> kv_get (replicate 64 7) 0 \<lparr>greq_timestamp = 3, greq_key = request_buffer 16 [97, 98]\<rparr> ts''
      = (Done \<lparr>grsp_timestamp = 3, grsp_value = []\<rparr> :: (unit, get_response) outcome, ts'')"
proof -
  obtain t0 addr data s' where init: "mehcached_table_init 1 (\<lambda>_. 0) 4 1 2097152 False False False (- 1) (- 1) 1 two_pages
    = (Done (t0, addr, data) :: (unit, mehcached_table \<times> u64 \<times> u64) outcome, s')" by (rule small_table)
  let ?a = "\<lparr>sreq_timestamp = 1, sreq_key = request_buffer 16 [97, 98], sreq_value = request_buffer 32 [104]\<rparr>"
  let ?a' = "\<lparr>sreq_timestamp = 2, sreq_key = request_buffer 16 [98, 97], sreq_value = request_buffer 32 [105]\<rparr>"
  let ?q = "\<lparr>greq_timestamp = 3, greq_key = request_buffer 16 [97, 98]\<rparr>"
  have f: "length (request_buffer 16 [97, 98]) = 16" "0 \<in> set (request_buffer 16 [97, 98])" "c_string (request_buffer 16 [97, 98]) = [97, 98]"
      "length (request_buffer 16 [98, 97]) = 16" "0 \<in> set (request_buffer 16 [98, 97])" "c_string (request_buffer 16 [98, 97]) = [98, 97]"
      "length (request_buffer 32 [104]) = 32" "0 \<in> set (request_buffer 32 [104])" "length (request_buffer 32 [105]) = 32" "0 \<in> set (request_buffer 32 [105])"
    by (rule request_buffer_facts; simp)+
  have p: "mset (c_string (sreq_key ?a)) = mset (c_string (sreq_key ?a'))" "c_string (sreq_key ?a) \<noteq> c_string (sreq_key ?a')" using f by simp_all
  show ?thesis
    using kv_anagram_evicts [OF init, where cs = "[]" and rs = "[]" and t = t0 and tid = 0 and ts = "[t0]" and a = ?a and a' = ?a' and q = ?q
        and stack = "replicate 64 7", OF _ _ _ _ _ _ _ _ _ _ _ _ _ _ _ p] f by (auto simp: ret_def)
qed

end
