(* ===== verification/Mica_Shape.thy ===== *)
theory Mica_Shape
  imports Mica_Runs
begin

text \<open>
  The geometry of a MICA table: the number of buckets and of slots in each, the masks and shifts, the
  size and mask of the pool, the threshold. No call changes it, whatever its arguments, in whatever
  state, and however it ends.
\<close>

section \<open>Bodies that keep a part of the state\<close>

named_theorems keeps_rules

definition keeps :: "('s \<Rightarrow> 'g) \<Rightarrow> ('s, 'r, 'a) body \<Rightarrow> bool" where
  "keeps g m \<longleftrightarrow> (\<forall>s. g (snd (m s)) = g s)"

lemma fixes_basic [keeps_rules, intro]:
  "keeps g (ret a)" "keeps g (exit_with r)" "keeps g (assertM P)" "keeps g (guardM P)" "keeps g (gets f)"
  by (simp_all add: keeps_def run_defs)

lemma fixes_modifyM [keeps_rules]: "(\<And>s. g (f s) = g s) \<Longrightarrow> keeps g (modifyM f)"
  by (simp add: keeps_def modifyM_def)

lemma fixes_bnd [keeps_rules]:
  assumes "keeps g m" and "\<And>a. keeps g (f a)"
  shows "keeps g (bnd m f)"
proof -
  have "g (snd (bnd m f s)) = g s" for s
  proof (cases "m s")
    case (Pair x s1)
    have "g s1 = g s" using assms(1) Pair unfolding keeps_def by (metis snd_conv)
    then show ?thesis using assms(2) Pair unfolding keeps_def by (cases x) (simp_all add: bnd_def)
  qed
  then show ?thesis by (simp add: keeps_def)
qed

lemma fixes_if [keeps_rules]: "keeps g m \<Longrightarrow> keeps g m' \<Longrightarrow> keeps g (if b then m else m')"
  by simp

lemma fixes_whenM [keeps_rules]: "keeps g m \<Longrightarrow> keeps g (whenM b m)"
  by (auto simp: whenM_def intro: keeps_rules)

lemma fixes_call [keeps_rules]: "keeps g m \<Longrightarrow> keeps g (call m)"
  by (auto simp: keeps_def call_def split: prod.splits outcome.splits) (metis snd_conv)+

section \<open>The pool\<close>

definition pool_geometry :: "mehcached_pool \<Rightarrow> u8 \<times> u64 \<times> u64" where
  "pool_geometry p = (pool_access_mode p, pool_size p, pool_mask p)"

lemma pool_access_keeps [keeps_rules]: "keeps pool_geometry (pool_load v n)" "keeps pool_geometry (pool_store v bs)"
  unfolding pool_load_def pool_store_def by (intro keeps_rules; simp add: pool_geometry_def put_window_def)+

lemma pop_head_keeps [keeps_rules]: "keeps pool_geometry mehcached_pool_pop_head"
  unfolding mehcached_pool_pop_head_def mehcached_pool_check_invariants_def Let_def by (intro keeps_rules; simp add: pool_geometry_def)

lemma pop_loop_keeps [keeps_rules]: "keeps pool_geometry (pop_loop n v)"
  by (induction n v rule: pop_loop.induct) (auto intro!: keeps_rules)

lemma allocate_keeps [keeps_rules]: "keeps pool_geometry (mehcached_pool_allocate n)"
  unfolding mehcached_pool_allocate_def mehcached_pool_push_tail_def mehcached_pool_check_invariants_def
  by (intro keeps_rules; simp add: pool_geometry_def)

section \<open>The table\<close>

definition geometry :: "mehcached_table \<Rightarrow> (u8 \<times> u64 \<times> u64) \<times> nat list \<times> u32 \<times> u32 \<times> u32 \<times> nat \<times> u8 \<times> u64 \<times> u8" where
  "geometry t = (pool_geometry (alloc t), map (length \<circ> item_vec) (buckets t), num_buckets t, num_buckets_mask t, num_extra_buckets t, rshift t,
     alloc_id_mask t, mth_threshold t, table_access_mode t)"

lemma on_alloc_keeps [keeps_rules]: "keeps pool_geometry m \<Longrightarrow> keeps geometry (on_alloc m)"
  by (simp add: keeps_def on_alloc_def geometry_def split: prod.splits) (metis snd_conv)

lemma slots_kept: "length (item_vec v) = length (item_vec (bs ! b)) \<Longrightarrow> map (length \<circ> item_vec) (bs[b := v]) = map (length \<circ> item_vec) bs"
  by (cases "b < length bs") (simp_all add: list_eq_iff_nth_eq nth_list_update)

lemma put_slot_geometry [simp]: "geometry (put_slot b i v t) = geometry t" "geometry (clean_bucket b t) = geometry t"
  unfolding geometry_def put_slot_def clean_bucket_def by (simp_all add: slots_kept)

lemma access_keeps [keeps_rules]:
  "keeps geometry (item_load v n)" "keeps geometry (locate_bucket kh)" "keeps geometry (mehcached_memcpy8_in d bs w)"
  "keeps geometry (mehcached_memcpy8_out d w)" "keeps geometry (mehcached_memcmp8 d bs w)"
  unfolding item_load_def locate_bucket_def mehcached_memcpy8_in_def mehcached_memcpy8_out_def mehcached_memcmp8_def Let_def
  by (intro keeps_rules)+

lemma find_keeps [keeps_rules]: "keeps geometry (mehcached_find_item_index b kh tag key kl)"
proof -
  have "keeps geometry (item_matches v kh tag key kl)" for v
    unfolding item_matches_def mehcached_compare_keys_def by (intro keeps_rules)
  then have "keeps geometry (find_item_loop is b kh tag key kl)" for "is"
    by (induction "is") (auto intro!: keeps_rules)
  then show ?thesis by (simp add: mehcached_find_item_index_def)
qed

lemma cleanup_keeps [keeps_rules]: "keeps geometry (mehcached_cleanup_bucket a b)"
proof -
  have "keeps geometry (cleanup_loop n i j)" for n i j
    by (induction n i j rule: cleanup_loop.induct) (auto intro!: keeps_rules)
  then show ?thesis unfolding mehcached_cleanup_bucket_def by (intro keeps_rules)
qed

lemma item_keeps [keeps_rules]:
  "keeps geometry (mehcached_set_item p kh key kl val vl ex)" "keeps geometry (mehcached_set_item_value p val vl ex)"
  "keeps geometry (move_to_head b i v p n)"
  unfolding mehcached_set_item_def mehcached_set_item_value_def move_to_head_def Let_def by (intro keeps_rules; simp)+

lemma call_keeps: "keeps geometry (mica_do c)"
proof (cases c)
  case (CSet kh key kl val vl ex ow)
  show ?thesis unfolding CSet mica_do.simps mehcached_set_def set_in_place_def store_new_def Let_def by (intro keeps_rules; simp)
next
  case (CGet kh key kl cap ro)
  show ?thesis unfolding CGet mica_do.simps mehcached_get_def Let_def by (intro keeps_rules; simp)
next
  case (CTest kh key kl)
  show ?thesis unfolding CTest mica_do.simps mehcached_test_def by (intro keeps_rules)
next
  case (CDelete kh key kl)
  show ?thesis unfolding CDelete mica_do.simps mehcached_delete_def Let_def by (intro keeps_rules; simp)
next
  case (CIncrement kh key kl n ex)
  show ?thesis unfolding CIncrement mica_do.simps mehcached_increment_def Let_def by (intro keeps_rules; simp)
qed


end
