(* ===== verification/Spec2Isabelle.thy ===== *)
theory Spec2Isabelle
  imports Conn_Setup Rpc_Runtime Mica_Server Mica_Shape
begin

text \<open>
  Dagger: an RPC runtime whose transport is an FPGA nic on the CPU's memory interconnect, and the MICA
  key-value store that is served over it.

  \<^bold>\<open>How the parts interact.\<close> A client (\<^verbatim>\<open>rpc_client_nonblocking_base\<close>) owns a flow of a nic: it writes requests
  into the slots of a transmit queue, and a completion thread polls the slots of the receive queue. A
  server thread (\<^verbatim>\<open>rpc_server_thread\<close>) polls the receive queue of its flow, collects a batch and calls the
  callback of the service. Queues lie in buffers the nic shares with the device. Connections are opened in
  software (\<^verbatim>\<open>connection_manager\<close>) and programmed into the connection manager of the hardware through two
  registers. The handlers of the MICA server are callbacks; each works on the table of its thread, which
  keeps its items in a log over shared huge pages.

  \<^bold>\<open>Conventions.\<close> \<open>Prelude\<close> has the machine words, byte memory and the outcome of a C or C++ body:
  \<open>Done\<close> (it completed), \<open>Exit\<close> (early return), \<open>Abort\<close> (failed assertion) or \<open>Undef\<close> (undefined
  behaviour, or waiting for ever). Bodies pass their state explicitly; \<open>wp\<close> is the weakest precondition of
  one. A struct or class is a record with the members of the source, an index outside an array and a
  null pointer are branches of the model. Threads that share memory are program-counter machines whose
  steps interleave with those of the device and of the application.

  \<^bold>\<open>Theories, the sources they model (under \<^verbatim>\<open>src/\<close>), and what they show.\<close>
  \<^item> \<open>Rpc_Defs\<close> (\<^verbatim>\<open>sw/src/defs.h\<close>, \<^verbatim>\<open>config.h\<close>, \<^verbatim>\<open>rpc_header.h\<close>, \<^verbatim>\<open>rpc_call.h\<close>): packets and their cache-line
    layout, with the round trip through memory.
  \<^item> \<open>Queues\<close> (\<^verbatim>\<open>tx_queue\<close>, \<^verbatim>\<open>rx_queue\<close>): both rings meet the contract of the locale \<open>ring\<close>, which gives the
    slot, change bit and remembered id after any number of calls (C1 to C3).
  \<^item> \<open>Rx_Poll\<close>: the polling protocol between device and thread, once for all pollers, as the locales
    \<open>rx_consumer\<close> and \<open>rx_driver\<close>. \<open>Completion\<close> (\<^verbatim>\<open>completion_queue\<close>) and \<open>Rpc_Server\<close> (\<^verbatim>\<open>rpc_server_thread\<close>)
    interpret them: packets arrive in order and once each, and in a bounded number of steps (C4 to C7, C30, C31).
  \<^item> \<open>Connections\<close> (\<^verbatim>\<open>connection_manager\<close>): refinement of an abstract table, conservation and reuse of ids
    (locale \<open>conn_table\<close>, C8 to C10).
  \<^item> \<open>Opae\<close>: the OPAE library, the C library and the operating system as a record of functions, a parameter
    of everything above it.
  \<^item> \<open>Hssi_Csrs\<close>, \<open>Hssi\<close> (\<^verbatim>\<open>network_ctl\<close>, and the decoder in \<^verbatim>\<open>hw/rtl/network/eth_e2e_e40.v\<close>): the register
    table and the transceiver driver (C11 to C16).
  \<^item> \<open>Nic_Ccip\<close>, \<open>Nic_Modes\<close> (\<^verbatim>\<open>nic_impl\<close>): the base class and the polling, DMA and MMIO nics. \<open>Nic_Life\<close>: every
    sequence of calls is a walk of the life-cycle machine (locale \<open>ccip_class\<close>, C17, C18). \<open>Nic_Buffers\<close>: the
    buffers of the flows (locale \<open>flow_nic\<close>, C19 to C23).
  \<^item> \<open>Hw_Conn\<close> (\<^verbatim>\<open>hw/rtl/rpc.sv\<close>, \<^verbatim>\<open>connection_manager.sv\<close>, \<^verbatim>\<open>nic.sv\<close>): frame parser, control machine and
    look-up path of the hardware, clock by clock (C24 to C26). \<open>Conn_Setup\<close>: driver and hardware composed
    (C27 to C29).
  \<^item> \<open>Rpc_Runtime\<close> (\<^verbatim>\<open>rpc_client_nonblocking_base\<close>, \<^verbatim>\<open>rpc_client_pool.h\<close>, \<^verbatim>\<open>rpc_threaded_server\<close>): clients, pools
    and servers over a nic of any kind (locale \<open>owned_nic\<close>, C32 to C34).
  \<^item> \<open>Mica_Pool\<close> (\<^verbatim>\<open>sw/apps/mica/mica/alloc_pool.c\<close>, \<^verbatim>\<open>util.h\<close>): the log allocator and its invariant \<open>log_ok\<close>.
    \<open>Mica_Table\<close> (\<^verbatim>\<open>table.c\<close>, \<^verbatim>\<open>table.h\<close>): the operations of the table. \<open>Mica_Cache\<close>: the invariant \<open>table_ok\<close> and
    the relation \<open>refines\<close> to a partial map. \<open>Mica_Ops\<close>: what the writes of an operation do to both.
    \<open>Mica_Refine\<close>: each call is a step of the cache specification \<open>mica_spec\<close>. \<open>Mica_Runs\<close>: sequences of
    calls. \<open>Mica_Shape\<close>: no call changes the geometry of a table (C40).
  \<^item> \<open>Mica_Shm\<close>, \<open>Mica_Pages\<close> (\<^verbatim>\<open>shm.c\<close>): the shared-memory manager and its invariant (C39). \<open>Mica_Init\<close>: pools
    and tables made on it. \<open>Mica_Server\<close> (\<^verbatim>\<open>hash.c\<close>, \<^verbatim>\<open>hash.h\<close>, \<^verbatim>\<open>mica_server.cc\<close>): hash functions and
    handlers, and the properties of the store on tables made by \<^verbatim>\<open>mehcached_table_init\<close> (C35 to C38).

  \<^bold>\<open>Bounds and fuel.\<close> The MICA properties hold for up to $2^{42}$ calls: an item takes at most two megabytes of
  the log, so that the 64-bit tail stays below $2^{63}$ and, with a pool of at most $2^{46}$ bytes, never wraps.
  They need at least three buckets, which are rounded up to four: the clean-up returns to a bucket within
  $2^{47}$ bytes of log plus the share of one bucket, and from four buckets on this and the size of the pool stay
  below the $2^{48}$ bytes after which item offsets repeat. There are at most $2^{31}$ buckets, since the
  rounded number is kept in 32 bits. The loop of the clean-up has the number of buckets plus one as fuel and
  is shown not to need more. The properties are stated for the FIFO threshold, at which a get never moves an item; C40 covers all thresholds. The loops that look
  for an address until a mapping succeeds have fuel, since nothing bounds the number of failures; the
  properties start from an initialisation that returned, and their witnesses show one that does. The kernel's
  answers are an arbitrary sequence. A spin lock that is taken in a sequential body is \<open>Undef\<close>.

  \<^bold>\<open>Not modelled.\<close>
  \<^item> The rest of the RTL (transport, DMA, queues, network): to the software it is the parameter
    \<open>opae\<close>. It depends on vendor blocks whose code is not in the repository and on several clock domains.
  \<^item> In MICA: the code of other configurations (extra buckets, other allocators, concurrent access, MD4), the
    interfaces the server does not call (batches, prefetching, contiguous and striped memory), statistics,
    printing, the removal of stale page files by a shell command, the main program, and the benchmarks that
    are not built.
  \<^item> The port of memcached, an application of its own with its threads, event loop and slab allocator, of which
    the runtime uses nothing; the stub generator (its output, the service callback, is a parameter of \<open>Rpc_Server\<close>),
    the command-line parser, log messages and the cycle counter.
\<close>

end
